(* ===== verification/Prelude.thy ===== *)
theory Prelude
  imports Main "HOL-Library.Word" "HOL-Library.Monad_Syntax"
begin

text \<open>
  Shared vocabulary of the development.

  \<^item> The C integer types of \<open>types.h\<close> as words of the same width.
  \<^item> Memory as the byte-addressed 32-bit store the kernel runs on.
  \<^item> Collections of rewrite rules: \<open>word_arr\<close> for address ranges and \<open>kdefs\<close> for the
    operations that a proof normally unfolds completely.
  \<^item> Generic facts on words, address ranges and C arrays used by several components.
\<close>

unbundle bit_operations_syntax

named_theorems word_arr \<open>rules about offsets inside an address range\<close>
named_theorems kdefs \<open>definitions of straight-line kernel operations\<close>

section \<open>Types\<close>

type_synonym u8 = "8 word"
type_synonym u16 = "16 word"
type_synonym u32 = "32 word"
type_synonym addr = "32 word"
type_synonym mem = "addr \<Rightarrow> u8"

text \<open>
  A C array indexed by a signed integer. The cells outside the declared bounds exist in the
  model, so an access there reads or changes a cell of its own; the invariants of the
  components show that no such access is made.
\<close>

type_synonym 'a carray = "int \<Rightarrow> 'a"

section \<open>Offsets in an address range\<close>

lemma unat_le_minus_one: "(n::'a::len word) \<noteq> 0 \<Longrightarrow> unat (n - 1) = unat n - 1"
  by (rule unat_minus_one)

lemma minus_one_less [simp]: "(n::'a::len word) \<noteq> 0 \<Longrightarrow> unat (n - 1) < unat n"
  by (rule measure_unat)

text \<open>An address lies in a non-empty range iff it is its first byte or lies in the rest.\<close>

lemma range_step [word_arr]:
  fixes a d n :: "'a::len word"
  assumes "n \<noteq> 0"
  shows "a - d < n \<longleftrightarrow> a = d \<or> a - (d + 1) < n - 1"
proof -
  define x where "x = a - d"
  have "a - (d + 1) = x - 1" by (simp add: x_def)
  moreover have "a = d \<longleftrightarrow> x = 0" by (simp add: x_def)
  moreover have "x < n \<longleftrightarrow> x = 0 \<or> x - 1 < n - 1"
    using assms by unat_arith
  ultimately show ?thesis by (simp add: x_def diff_diff_eq)
qed

text \<open>Splitting a range at an inner offset.\<close>

lemma range_split:
  fixes x k n :: "'a::len word"
  assumes "k \<le> n"
  shows "x < n \<longleftrightarrow> x < k \<or> x - k < n - k"
  using assms by unat_arith

section \<open>Words from natural numbers\<close>

lemma unat_lt32: "unat (x :: u32) < 2 ^ 32"
  using unsigned_less [of x, where ?'a = nat] by simp

lemma of_nat_le32: "a \<le> b \<Longrightarrow> b < 2 ^ 32 \<Longrightarrow> (of_nat a :: u32) \<le> of_nat b"
  by (simp add: word_le_nat_alt unat_of_nat)

lemma of_nat_less32: "a < b \<Longrightarrow> b < 2 ^ 32 \<Longrightarrow> (of_nat a :: u32) < of_nat b"
  by (simp add: word_less_nat_alt unat_of_nat)

lemma unat_of_nat32: "n < 2 ^ 32 \<Longrightarrow> unat (of_nat n :: u32) = n"
  by (simp add: unat_of_nat)

text \<open>A count as a number of double words and a rest, as the string routines split it.\<close>

lemma word_split4:
  fixes n :: u32
  shows "4 * drop_bit 2 n + (n AND 3) = n" and "unat (n AND 3) < 4"
    and "unat (n AND 3) = unat n mod 4" and "unat (drop_bit 2 n) = unat n div 4"
proof -
  have m: "n AND 3 = take_bit 2 n"
    by (simp add: take_bit_eq_mask mask_eq_exp_minus_1)
  show "4 * drop_bit 2 n + (n AND 3) = n"
    using bits_ident [of 2 n] by (simp add: m push_bit_eq_mult mult.commute)
  show r: "unat (n AND 3) = unat n mod 4"
    by (simp add: m unsigned_take_bit_eq) (simp add: take_bit_eq_mod)
  show "unat (n AND 3) < 4" by (simp add: r)
  show "unat (drop_bit 2 n) = unat n div 4"
    by (simp add: drop_bit_eq_div unat_div)
qed

section \<open>Counting loops over arrays\<close>

text \<open>\<open>for(i = 0; i < n; i++) a[i] = g(i);\<close>\<close>

definition for_fill :: "nat \<Rightarrow> (nat \<Rightarrow> 'a) \<Rightarrow> 'a carray \<Rightarrow> 'a carray" where
  "for_fill n g a = fold (\<lambda>i b. b(int i := g i)) [0..<n] a"

lemma for_fill_apply:
  "for_fill n g a k = (if 0 \<le> k \<and> k < int n then g (nat k) else a k)"
  by (induction n) (auto simp: for_fill_def)

section \<open>Page numbers and offsets\<close>

lemma page_join_same:
  "drop_bit n x = drop_bit n y \<Longrightarrow> push_bit n (drop_bit n x) OR take_bit n y = (y :: u32)"
  by (rule bit_word_eqI) (auto simp: bit_simps)

lemma take_bit_below:
  assumes "unat (k :: u32) < 2 ^ n"
  shows "take_bit n k = k"
  using assms by (simp add: word_unat_eq_iff unsigned_take_bit_eq take_bit_nat_eq_self)

lemma page_offset:
  fixes p k :: u32
  assumes "take_bit n p = 0" and "take_bit n k = k"
  shows "p + k = p OR k" and "drop_bit n (p + k) = drop_bit n p" and "take_bit n (p + k) = k"
    and "drop_bit n k = 0"
proof -
  have p: "\<not> bit p i" if "i < n" for i
    using assms(1) that by (metis bit_0_eq bit_take_bit_iff bot_apply bot_bool_def)
  have k: "\<not> bit k i" if "n \<le> i" for i
    using assms(2) that by (metis bit_take_bit_iff linorder_not_less)
  show or: "p + k = p OR k"
    using p k by (intro disjunctive_add_eq_or) (auto simp: bit_eq_iff bit_simps, metis linorder_not_less)
  show "drop_bit n k = 0" using k by (auto simp: bit_eq_iff bit_simps)
  then show "drop_bit n (p + k) = drop_bit n p" by (simp add: or)
  show "take_bit n (p + k) = k" by (simp add: or assms)
qed

end
