(* ===== verification/Machine.thy ===== *)
theory Machine
  imports Prelude
begin

text \<open>
  The machine the kernel drives, as far as its code touches it: physical memory, the log of
  the port writes (\<open>outb\<close> of \<open>lib.h\<close>, newest first), the interrupt flag of \<open>EFLAGS\<close>,
  the two stack registers, and a flag that is raised, and never lowered, by a kernel access
  to an unmapped page or outside the bounds of a C array. The kernel's global variables extend this record component
  by component, so an operation of one component applies to the state of every later one.
\<close>

record machine =
  pmem :: mem
  ports :: "(u16 \<times> u8) list"
  iflag :: bool
  esp :: u32
  ebp :: u32
  fault :: bool

definition outb :: "u8 \<Rightarrow> u16 \<Rightarrow> 'a machine_scheme \<Rightarrow> 'a machine_scheme" where
  "outb data port s = s\<lparr>ports := (port, data) # ports s\<rparr>"

definition cli :: "'a machine_scheme \<Rightarrow> 'a machine_scheme" where
  "cli s = s\<lparr>iflag := False\<rparr>"

definition sti :: "'a machine_scheme \<Rightarrow> 'a machine_scheme" where
  "sti s = s\<lparr>iflag := True\<rparr>"

text \<open>\<open>cli_and_save(flags)\<close> returns the flags it saved.\<close>

definition cli_and_save :: "'a machine_scheme \<Rightarrow> bool \<times> 'a machine_scheme" where
  "cli_and_save s = (iflag s, cli s)"

definition restore_flags :: "bool \<Rightarrow> 'a machine_scheme \<Rightarrow> 'a machine_scheme" where
  "restore_flags flags s = s\<lparr>iflag := flags\<rparr>"

lemmas machine_defs [kdefs] = outb_def cli_def sti_def cli_and_save_def restore_flags_def

end
