(* ===== verification/I8259.thy ===== *)
theory I8259
  imports Machine
begin

text \<open>
  The driver of the two cascaded 8259 interrupt controllers, \<open>student-distrib/i8259.c\<close>:
  the two mask bytes it keeps, initialisation, masking, unmasking and the end-of-interrupt
  command. The locale \<open>irq_controller\<close> is the interface the interrupt handlers use: which
  lines are enabled, and what \<open>enable\<close> and \<open>disable\<close> do to every line.
\<close>

section \<open>State and operations\<close>

record pic = machine +
  master_mask :: u8
  slave_mask :: u8

abbreviation (input) MASTER_8259_PORT :: u16 where "MASTER_8259_PORT \<equiv> 0x20"
abbreviation (input) SLAVE_8259_PORT :: u16 where "SLAVE_8259_PORT \<equiv> 0xA0"
abbreviation (input) ICW1 :: u8 where "ICW1 \<equiv> 0x11"
abbreviation (input) ICW2_MASTER :: u8 where "ICW2_MASTER \<equiv> 0x20"
abbreviation (input) ICW2_SLAVE :: u8 where "ICW2_SLAVE \<equiv> 0x28"
abbreviation (input) ICW3_MASTER :: u8 where "ICW3_MASTER \<equiv> 0x04"
abbreviation (input) ICW3_SLAVE :: u8 where "ICW3_SLAVE \<equiv> 0x02"
abbreviation (input) ICW4 :: u8 where "ICW4 \<equiv> 0x01"
abbreviation (input) EOI :: u8 where "EOI \<equiv> 0x60"

text \<open>The static table \<open>mask[8]\<close>.\<close>

definition mask_tab :: "u8 list" where
  "mask_tab = [0x01, 0x02, 0x04, 0x08, 0x10, 0x20, 0x40, 0x80]"

definition i8259_init :: "'a pic_scheme \<Rightarrow> 'a pic_scheme" where
  "i8259_init s0 =
     (let s = s0\<lparr>master_mask := 0xFF, slave_mask := 0xFF\<rparr>;
          s = outb (master_mask s) (MASTER_8259_PORT + 1) s;
          s = outb (slave_mask s) (SLAVE_8259_PORT + 1) s;
          s = outb ICW1 MASTER_8259_PORT s;
          s = outb ICW2_MASTER (MASTER_8259_PORT + 1) s;
          s = outb ICW3_MASTER (MASTER_8259_PORT + 1) s;
          s = outb ICW4 (MASTER_8259_PORT + 1) s;
          s = outb ICW1 SLAVE_8259_PORT s;
          s = outb ICW2_SLAVE (SLAVE_8259_PORT + 1) s;
          s = outb ICW3_SLAVE (SLAVE_8259_PORT + 1) s;
          s = outb ICW4 (SLAVE_8259_PORT + 1) s;
          s = outb (master_mask s) (MASTER_8259_PORT + 1) s
      in outb (slave_mask s) (SLAVE_8259_PORT + 1) s)"

definition enable_irq :: "u32 \<Rightarrow> 'a pic_scheme \<Rightarrow> 'a pic_scheme" where
  "enable_irq irq_num s =
     (if irq_num < 8
      then let s = s\<lparr>master_mask := master_mask s AND NOT (mask_tab ! unat irq_num)\<rparr>
           in outb (master_mask s) (MASTER_8259_PORT + 1) s
      else let s = s\<lparr>slave_mask := slave_mask s AND NOT (mask_tab ! unat (irq_num - 8))\<rparr>
           in outb (slave_mask s) (SLAVE_8259_PORT + 1) s)"

definition disable_irq :: "u32 \<Rightarrow> 'a pic_scheme \<Rightarrow> 'a pic_scheme" where
  "disable_irq irq_num s =
     (if irq_num < 8
      then let s = s\<lparr>master_mask := master_mask s OR mask_tab ! unat irq_num\<rparr>
           in outb (master_mask s) (MASTER_8259_PORT + 1) s
      else let s = s\<lparr>slave_mask := slave_mask s OR mask_tab ! unat (irq_num - 8)\<rparr>
           in outb (slave_mask s) (SLAVE_8259_PORT + 1) s)"

text \<open>The command is computed in 32 bits; \<open>outb\<close> writes its low byte.\<close>

definition send_eoi :: "u32 \<Rightarrow> 'a pic_scheme \<Rightarrow> 'a pic_scheme" where
  "send_eoi irq_num s =
     (if irq_num \<ge> 8
      then outb (EOI OR 0x2) MASTER_8259_PORT
             (outb (EOI OR ucast (irq_num - 8)) SLAVE_8259_PORT s)
      else outb (EOI OR ucast irq_num) MASTER_8259_PORT s)"

section \<open>Lines\<close>

text \<open>A line is enabled when its mask bit is clear, and a slave line only reaches the
  processor through the cascade line 2 of the master.\<close>

definition irq_enabled :: "'a pic_scheme \<Rightarrow> u32 \<Rightarrow> bool" where
  "irq_enabled s k =
     (if k < 8 then \<not> bit (master_mask s) (unat k) else \<not> bit (slave_mask s) (unat (k - 8)))"

definition valid_irq :: "u32 \<Rightarrow> bool" where
  "valid_irq k \<longleftrightarrow> k < 16"

text \<open>What the controllers were last told: the newest byte written to each mask register.\<close>

definition last_out :: "u16 \<Rightarrow> 'a machine_scheme \<Rightarrow> u8 option" where
  "last_out p s = map_option snd (find (\<lambda>(q, _). q = p) (ports s))"

definition pic_synced :: "'a pic_scheme \<Rightarrow> bool" where
  "pic_synced s \<longleftrightarrow>
     last_out (MASTER_8259_PORT + 1) s = Some (master_mask s) \<and>
     last_out (SLAVE_8259_PORT + 1) s = Some (slave_mask s)"

lemma mask_tab_nth: "k < 8 \<Longrightarrow> mask_tab ! k = push_bit k 1"
  by (auto simp: mask_tab_def less_Suc_eq numeral_eq_Suc)

lemma bit_mask_tab: "k < 8 \<Longrightarrow> bit (mask_tab ! k) j \<longleftrightarrow> j = k"
  by (auto simp: mask_tab_nth bit_simps)

section \<open>The interface of an interrupt controller\<close>

locale irq_controller =
  fixes enable disable :: "u32 \<Rightarrow> 's \<Rightarrow> 's"
    and enabled :: "'s \<Rightarrow> u32 \<Rightarrow> bool"
    and valid :: "u32 \<Rightarrow> bool"
  assumes enabled_enable: "valid k \<Longrightarrow> valid j \<Longrightarrow> enabled (enable k s) j \<longleftrightarrow> j = k \<or> enabled s j"
    and enabled_disable: "valid k \<Longrightarrow> valid j \<Longrightarrow> enabled (disable k s) j \<longleftrightarrow> j \<noteq> k \<and> enabled s j"
begin

text \<open>A handler that masks its own line, runs a body that leaves the masks alone and unmasks
  the line again ends with its line open and every other line as it was.\<close>

lemma handler_bracket:
  assumes "valid k" "valid j" and "\<And>t. enabled (body t) j = enabled t j"
  shows "enabled (enable k (body (disable k s))) j \<longleftrightarrow> j = k \<or> enabled s j"
  using assms by (auto simp: enabled_enable enabled_disable)

lemma disable_twice:
  "valid k \<Longrightarrow> valid j \<Longrightarrow> enabled (disable k (disable k s)) j = enabled (disable k s) j"
  by (auto simp: enabled_disable)

text \<open>Enabling a list of lines opens exactly these.\<close>

lemma enable_all:
  "(\<forall>k \<in> set ks. valid k) \<Longrightarrow> valid j \<Longrightarrow>
   enabled (fold enable ks s) j \<longleftrightarrow> j \<in> set ks \<or> enabled s j"
  by (induction ks arbitrary: s) (auto simp: enabled_enable)

end

lemma irq_index:
  assumes "valid_irq k"
  shows "k < 8 \<Longrightarrow> unat k < 8" and "\<not> k < 8 \<Longrightarrow> unat (k - 8) < 8"
  using assms unfolding valid_irq_def by unat_arith+

lemma enabled_enable_irq:
  assumes "valid_irq k" "valid_irq j"
  shows "irq_enabled (enable_irq k s) j \<longleftrightarrow> j = k \<or> irq_enabled s j"
  using irq_index [OF assms(1)] irq_index [OF assms(2)]
  by (auto simp: irq_enabled_def enable_irq_def Let_def outb_def bit_simps bit_mask_tab
      word_unat_eq_iff [symmetric])

lemma enabled_disable_irq:
  assumes "valid_irq k" "valid_irq j"
  shows "irq_enabled (disable_irq k s) j \<longleftrightarrow> j \<noteq> k \<and> irq_enabled s j"
  using irq_index [OF assms(1)] irq_index [OF assms(2)]
  by (auto simp: irq_enabled_def disable_irq_def Let_def outb_def bit_simps bit_mask_tab
      word_unat_eq_iff [symmetric])

interpretation i8259: irq_controller enable_irq disable_irq irq_enabled valid_irq
  by unfold_locales (simp_all add: enabled_enable_irq enabled_disable_irq)

section \<open>The mask registers\<close>

lemma last_out_outb [simp]: "last_out p (outb d q s) = (if q = p then Some d else last_out p s)"
  by (simp add: last_out_def outb_def)

lemma last_out_masks [simp]:
  "last_out p (s\<lparr>master_mask := x\<rparr>) = last_out p s"
  "last_out p (s\<lparr>slave_mask := x\<rparr>) = last_out p s"
  by (simp_all add: last_out_def)

lemma outb_masks [simp]:
  "master_mask (outb d q s) = master_mask s" "slave_mask (outb d q s) = slave_mask s"
  by (simp_all add: outb_def)

lemma pic_synced_enable: "pic_synced s \<Longrightarrow> pic_synced (enable_irq k s)"
  by (simp add: pic_synced_def enable_irq_def Let_def)

lemma pic_synced_disable: "pic_synced s \<Longrightarrow> pic_synced (disable_irq k s)"
  by (simp add: pic_synced_def disable_irq_def Let_def)

lemma pic_synced_eoi: "pic_synced s \<Longrightarrow> pic_synced (send_eoi k s)"
  by (simp add: pic_synced_def send_eoi_def)

lemma pic_synced_init: "pic_synced (i8259_init s)"
  by (simp add: pic_synced_def i8259_init_def Let_def)

lemmas pic_synced_ops = pic_synced_init pic_synced_enable pic_synced_disable pic_synced_eoi

lemma bit_255: "k < 8 \<Longrightarrow> bit (0xFF :: u8) k"
  by (auto simp: less_Suc_eq numeral_eq_Suc)

lemma irq_enabled_init: "valid_irq k \<Longrightarrow> \<not> irq_enabled (i8259_init s) k"
  using irq_index [of k]
  by (auto simp: irq_enabled_def i8259_init_def Let_def outb_def bit_255 simp del: bit_numeral_word_iff)

lemma irq_enabled_eoi [simp]: "irq_enabled (send_eoi k s) j = irq_enabled s j"
  by (simp add: irq_enabled_def send_eoi_def)

lemma irq_enabled_frame [simp]:
  "irq_enabled (s\<lparr>iflag := b\<rparr>) j = irq_enabled s j"
  "irq_enabled (s\<lparr>pmem := m\<rparr>) j = irq_enabled s j"
  "irq_enabled (outb d p s) j = irq_enabled s j"
  by (simp_all add: irq_enabled_def outb_def)

section \<open>Properties\<close>

text \<open>After initialisation and any list of enable requests for valid lines, exactly the
  requested lines are open, and the mask registers of both controllers hold the driver's own
  copies of the masks.\<close>

theorem irq_masks_after_init:
  assumes "\<forall>k \<in> set ks. valid_irq k" and "valid_irq j"
  shows "(irq_enabled (fold enable_irq ks (i8259_init s)) j \<longleftrightarrow> j \<in> set ks) \<and>
    pic_synced (fold enable_irq ks (i8259_init s))"
proof
  show "irq_enabled (fold enable_irq ks (i8259_init s)) j \<longleftrightarrow> j \<in> set ks"
    using assms by (simp add: i8259.enable_all irq_enabled_init)
  have "pic_synced (fold enable_irq ks t)" if "pic_synced t" for t :: "'a pic_scheme"
    using that by (induction ks arbitrary: t) (simp_all add: pic_synced_enable)
  then show "pic_synced (fold enable_irq ks (i8259_init s))"
    by (simp add: pic_synced_init)
qed

definition pic0 :: pic where
  "pic0 = \<lparr>pmem = (\<lambda>_. 0), ports = [], iflag = False, esp = 0, ebp = 0, fault = False,
     master_mask = 0, slave_mask = 0\<rparr>"

theorem irq_masks_after_init_witness:
  "irq_enabled (fold enable_irq [2, 8, 0, 1] (i8259_init pic0)) 8 \<and>
   \<not> irq_enabled (fold enable_irq [2, 8, 0, 1] (i8259_init pic0)) 9"
  using irq_masks_after_init [of "[2, 8, 0, 1]" 8 pic0] irq_masks_after_init [of "[2, 8, 0, 1]" 9 pic0]
  by (simp add: valid_irq_def)

end
