(* ===== verification/CMemory.thy ===== *)
theory CMemory
  imports Prelude
begin

text \<open>
  The block memory routines of \<open>student-distrib/lib.c\<close>: \<open>memcpy\<close>, \<open>memmove\<close>,
  \<open>memset\<close>, \<open>memset_word\<close> and \<open>memset_dword\<close>. They are inline assembly; each label of the
  assembly is one function here, over the registers \<open>edi\<close>, \<open>esi\<close> and \<open>ecx\<close>. The
  results compare them with the one-step reference copies \<open>copied\<close> and \<open>filled\<close>.
\<close>

section \<open>String instructions\<close>

text \<open>\<open>movsb\<close> and \<open>stosb\<close> on one byte, \<open>movsl\<close>/\<open>stosl\<close> on a little-endian
  double word: all source bytes are read before the first byte is written.\<close>

definition movsl :: "mem \<Rightarrow> addr \<Rightarrow> addr \<Rightarrow> mem" where
  "movsl m edi esi =
     m(edi := m esi, edi + 1 := m (esi + 1), edi + 2 := m (esi + 2), edi + 3 := m (esi + 3))"

definition stosl :: "mem \<Rightarrow> addr \<Rightarrow> u32 \<Rightarrow> mem" where
  "stosl m edi eax =
     m(edi := ucast eax, edi + 1 := ucast (drop_bit 8 eax),
       edi + 2 := ucast (drop_bit 16 eax), edi + 3 := ucast (drop_bit 24 eax))"

definition stosw :: "mem \<Rightarrow> addr \<Rightarrow> u32 \<Rightarrow> mem" where
  "stosw m edi eax = m(edi := ucast eax, edi + 1 := ucast (drop_bit 8 eax))"

fun rep_movsb :: "nat \<Rightarrow> bool \<Rightarrow> mem \<Rightarrow> addr \<Rightarrow> addr \<Rightarrow> mem" where
  "rep_movsb 0 df m edi esi = m"
| "rep_movsb (Suc n) df m edi esi =
     (if df then rep_movsb n df (m(edi := m esi)) (edi - 1) (esi - 1)
      else rep_movsb n df (m(edi := m esi)) (edi + 1) (esi + 1))"

fun rep_movsl :: "nat \<Rightarrow> mem \<Rightarrow> addr \<Rightarrow> addr \<Rightarrow> mem" where
  "rep_movsl 0 m edi esi = m"
| "rep_movsl (Suc n) m edi esi = rep_movsl n (movsl m edi esi) (edi + 4) (esi + 4)"

fun rep_stosl :: "nat \<Rightarrow> mem \<Rightarrow> addr \<Rightarrow> u32 \<Rightarrow> mem" where
  "rep_stosl 0 m edi eax = m"
| "rep_stosl (Suc n) m edi eax = rep_stosl n (stosl m edi eax) (edi + 4) eax"

fun rep_stosw :: "nat \<Rightarrow> mem \<Rightarrow> addr \<Rightarrow> u32 \<Rightarrow> mem" where
  "rep_stosw 0 m edi eax = m"
| "rep_stosw (Suc n) m edi eax = rep_stosw n (stosw m edi eax) (edi + 2) eax"

section \<open>memcpy\<close>

text \<open>Label \<open>.memcpy_bottom\<close>: the last \<open>edx\<close> bytes, one at a time.\<close>

fun memcpy_bottom :: "nat \<Rightarrow> mem \<Rightarrow> addr \<Rightarrow> addr \<Rightarrow> mem" where
  "memcpy_bottom 0 m edi esi = m"
| "memcpy_bottom (Suc edx) m edi esi =
     memcpy_bottom edx (m(edi := m esi)) (edi + 1) (esi + 1)"

text \<open>Label \<open>.memcpy_aligned\<close>: \<open>ecx / 4\<close> double words, then \<open>ecx mod 4\<close> bytes.\<close>

definition memcpy_aligned :: "mem \<Rightarrow> addr \<Rightarrow> addr \<Rightarrow> u32 \<Rightarrow> mem" where
  "memcpy_aligned m edi esi ecx =
     (let edx = ecx AND 3; q = drop_bit 2 ecx
      in memcpy_bottom (unat edx) (rep_movsl (unat q) m edi esi) (edi + 4 * q) (esi + 4 * q))"

text \<open>Label \<open>.memcpy_top\<close>: single bytes until the destination is aligned.\<close>

function memcpy_top :: "mem \<Rightarrow> addr \<Rightarrow> addr \<Rightarrow> u32 \<Rightarrow> mem" where
  "memcpy_top m edi esi ecx =
     (if ecx = 0 then m
      else if edi AND 3 = 0 then memcpy_aligned m edi esi ecx
      else memcpy_top (m(edi := m esi)) (edi + 1) (esi + 1) (ecx - 1))"
  by pat_completeness auto
termination
  by (relation "measure (\<lambda>(m, edi, esi, ecx). unat ecx)") auto

declare memcpy_top.simps [simp del]

definition memcpy :: "mem \<Rightarrow> addr \<Rightarrow> addr \<Rightarrow> u32 \<Rightarrow> mem" where
  "memcpy m dest src n = memcpy_top m dest src n"

section \<open>memmove\<close>

text \<open>The direction flag is set when the source starts below the destination. \<open>rep movsb\<close>
  then runs downwards from the last byte.\<close>

definition memmove :: "mem \<Rightarrow> addr \<Rightarrow> addr \<Rightarrow> u32 \<Rightarrow> mem" where
  "memmove m dest src n =
     (if src \<ge> dest then rep_movsb (unat n) False m dest src
      else rep_movsb (unat n) True m (dest + n - 1) (src + n - 1))"

section \<open>memset\<close>

fun memset_bottom :: "nat \<Rightarrow> mem \<Rightarrow> addr \<Rightarrow> u32 \<Rightarrow> mem" where
  "memset_bottom 0 m edi eax = m"
| "memset_bottom (Suc edx) m edi eax = memset_bottom edx (m(edi := ucast eax)) (edi + 1) eax"

definition memset_aligned :: "mem \<Rightarrow> addr \<Rightarrow> u32 \<Rightarrow> u32 \<Rightarrow> mem" where
  "memset_aligned m edi eax ecx =
     (let edx = ecx AND 3; q = drop_bit 2 ecx
      in memset_bottom (unat edx) (rep_stosl (unat q) m edi eax) (edi + 4 * q) eax)"

function memset_top :: "mem \<Rightarrow> addr \<Rightarrow> u32 \<Rightarrow> u32 \<Rightarrow> mem" where
  "memset_top m edi eax ecx =
     (if ecx = 0 then m
      else if edi AND 3 = 0 then memset_aligned m edi eax ecx
      else memset_top (m(edi := ucast eax)) (edi + 1) eax (ecx - 1))"
  by pat_completeness auto
termination
  by (relation "measure (\<lambda>(m, edi, eax, ecx). unat ecx)") auto

declare memset_top.simps [simp del]

definition memset :: "mem \<Rightarrow> addr \<Rightarrow> u32 \<Rightarrow> u32 \<Rightarrow> mem" where
  "memset m s c n =
     (let c = c AND 0xFF
      in memset_top m s (push_bit 24 c OR push_bit 16 c OR push_bit 8 c OR c) n)"

definition memset_word :: "mem \<Rightarrow> addr \<Rightarrow> u32 \<Rightarrow> u32 \<Rightarrow> mem" where
  "memset_word m s c n = rep_stosw (unat n) m s c"

definition memset_dword :: "mem \<Rightarrow> addr \<Rightarrow> u32 \<Rightarrow> u32 \<Rightarrow> mem" where
  "memset_dword m s c n = rep_stosl (unat n) m s c"

section \<open>Reference copy\<close>

text \<open>All \<open>n\<close> bytes at \<open>d\<close> become what the bytes at \<open>s\<close> were.\<close>

definition copied :: "mem \<Rightarrow> addr \<Rightarrow> addr \<Rightarrow> u32 \<Rightarrow> mem" where
  "copied m d s n = (\<lambda>a. if a - d < n then m (s + (a - d)) else m a)"

definition filled :: "mem \<Rightarrow> addr \<Rightarrow> u8 \<Rightarrow> u32 \<Rightarrow> mem" where
  "filled m d b n = (\<lambda>a. if a - d < n then b else m a)"

lemma copied_0 [simp]: "copied m d s 0 = m"
  by (simp add: copied_def)

lemma filled_0 [simp]: "filled m d b 0 = m"
  by (simp add: filled_def)

text \<open>A forward copy may be split anywhere, as long as the destination does not start inside
  the source: the second part still reads unchanged source bytes.\<close>

lemma copied_split:
  assumes "k \<le> n" and "n \<le> d - s"
  shows "copied (copied m d s k) (d + k) (s + k) (n - k) = copied m d s n"
proof
  fix a
  define x where "x = a - d"
  have a: "a - (d + k) = x - k" by (simp add: x_def)
  have src: "s + k + (x - k) = s + x" "s + x - d = x - (d - s)" by simp_all
  have "\<not> x - (d - s) < k" if "x < n" "k \<le> x"
    using that assms by unat_arith
  moreover have "k \<le> x" if "x - k < n - k"
    using that assms by unat_arith
  ultimately show "copied (copied m d s k) (d + k) (s + k) (n - k) a = copied m d s n a"
    using range_split [OF assms(1), of x] assms
    by (auto simp: copied_def a src simp flip: x_def)
qed

lemma copied_1: "m(d := m s) = copied m d s 1"
  by (auto simp: copied_def fun_eq_iff)

lemma copied_4: "movsl m d s = copied m d s 4"
proof
  fix a
  define x where "x = a - d"
  then have a: "a = d + x" by simp
  have "x < 4 \<longleftrightarrow> x = 0 \<or> x = 1 \<or> x = 2 \<or> x = 3"
    by unat_arith
  then show "movsl m d s a = copied m d s 4 a"
    by (auto simp: movsl_def copied_def a)
qed

lemma memcpy_bottom_copied:
  assumes "n < 2 ^ 32" and "of_nat n \<le> d - s"
  shows "memcpy_bottom n m d s = copied m d s (of_nat n)"
  using assms
proof (induction n arbitrary: m d s)
  case 0
  then show ?case by simp
next
  case (Suc n)
  have pos: "1 \<le> (of_nat (Suc n) :: addr)"
    using of_nat_le32 [of 1 "Suc n"] Suc.prems(1) by simp
  have "(of_nat n :: addr) \<le> of_nat (Suc n)"
    using of_nat_le32 [of n "Suc n"] Suc.prems(1) by simp
  with Suc.prems have "memcpy_bottom n (m(d := m s)) (d + 1) (s + 1) =
      copied (m(d := m s)) (d + 1) (s + 1) (of_nat n)"
    by (intro Suc.IH) auto
  also have "\<dots> = copied (copied m d s 1) (d + 1) (s + 1) (of_nat (Suc n) - 1)"
    by (simp add: copied_1)
  also have "\<dots> = copied m d s (of_nat (Suc n))"
    by (rule copied_split [OF pos Suc.prems(2)])
  finally show ?case by simp
qed

lemma rep_movsl_copied:
  assumes "4 * n < 2 ^ 32" and "of_nat (4 * n) \<le> d - s"
  shows "rep_movsl n m d s = copied m d s (of_nat (4 * n))"
  using assms
proof (induction n arbitrary: m d s)
  case 0
  then show ?case by simp
next
  case (Suc n)
  have four: "4 \<le> (of_nat (4 * Suc n) :: addr)"
    using of_nat_le32 [of 4 "4 * Suc n"] Suc.prems(1) by simp
  have "(of_nat (4 * n) :: addr) \<le> of_nat (4 * Suc n)"
    using of_nat_le32 [of "4 * n" "4 * Suc n"] Suc.prems(1) by simp
  with Suc.prems have "rep_movsl n (movsl m d s) (d + 4) (s + 4) =
      copied (movsl m d s) (d + 4) (s + 4) (of_nat (4 * n))"
    by (intro Suc.IH) (auto simp del: of_nat_mult)
  also have "\<dots> = copied (copied m d s 4) (d + 4) (s + 4) (of_nat (4 * Suc n) - 4)"
    by (simp add: copied_4)
  also have "\<dots> = copied m d s (of_nat (4 * Suc n))"
    by (rule copied_split [OF four Suc.prems(2)])
  finally show ?case by simp
qed

lemma memcpy_aligned_copied:
  assumes "n \<le> d - s"
  shows "memcpy_aligned m d s n = copied m d s n"
proof -
  let ?q = "drop_bit 2 n" and ?r = "n AND 3"
  have n: "4 * ?q + ?r = n" by (rule word_split4)
  have q: "4 * unat ?q < 2 ^ 32"
    using unat_lt32 [of n] by (simp add: word_split4)
  have q4: "of_nat (4 * unat ?q) = 4 * ?q" by simp
  have le: "4 * ?q \<le> n"
    using unat_lt32 [of n] of_nat_le32 [of "4 * unat ?q" "unat n"]
    unfolding q4 by (simp add: word_split4)
  have r: "n - 4 * ?q = ?r" by (metis n add_diff_cancel_left')
  have "?r \<le> n" by (rule word_and_le2)
  with assms have "memcpy_bottom (unat ?r) (copied m d s (4 * ?q)) (d + 4 * ?q) (s + 4 * ?q) =
      copied (copied m d s (4 * ?q)) (d + 4 * ?q) (s + 4 * ?q) (n - 4 * ?q)"
    using memcpy_bottom_copied [of "unat ?r"] unat_lt32 [of ?r] by (simp add: r)
  also have "\<dots> = copied m d s n"
    by (rule copied_split [OF le assms])
  finally show ?thesis
    using rep_movsl_copied [OF q, of d s m] le assms q4
    by (simp add: memcpy_aligned_def Let_def)
qed

lemma memcpy_top_copied: "n \<le> d - s \<Longrightarrow> memcpy_top m d s n = copied m d s n"
proof (induction m d s n rule: memcpy_top.induct)
  case (1 m d s n)
  show ?case
  proof (cases "n = 0 \<or> d AND 3 = 0")
    case True
    with "1.prems" show ?thesis
      by (auto simp: memcpy_top.simps [of m d s n] memcpy_aligned_copied)
  next
    case False
    then have one: "1 \<le> n" by unat_arith
    with "1.prems" have "n - 1 \<le> (d + 1) - (s + 1)" by unat_arith
    with False "1.IH" have "memcpy_top m d s n = copied (copied m d s 1) (d + 1) (s + 1) (n - 1)"
      by (simp add: memcpy_top.simps [of m d s n] copied_1)
    also have "\<dots> = copied m d s n"
      by (rule copied_split [OF one "1.prems"])
    finally show ?thesis .
  qed
qed

lemma memcpy_copied: "n \<le> d - s \<Longrightarrow> memcpy m d s n = copied m d s n"
  by (simp add: memcpy_def memcpy_top_copied)

section \<open>Overlapping copies\<close>

lemma rep_movsb_up: "rep_movsb n False m d s = memcpy_bottom n m d s"
  by (induction n arbitrary: m d s) auto

text \<open>A downward copy is right when the source does not start inside the destination.\<close>

lemma rep_movsb_down:
  assumes "n < 2 ^ 32" and "of_nat n \<le> s - d"
  shows "rep_movsb n True m (d + of_nat n - 1) (s + of_nat n - 1) = copied m d s (of_nat n)"
  using assms
proof (induction n arbitrary: m)
  case 0
  then show ?case by simp
next
  case (Suc n)
  let ?k = "of_nat n :: addr" and ?m = "m(d + of_nat n := m (s + of_nat n))"
  have k: "?k < s - d"
    using Suc.prems by (simp add: word_less_nat_alt word_le_nat_alt unat_of_nat del: of_nat_Suc)
  have "rep_movsb (Suc n) True m (d + of_nat (Suc n) - 1) (s + of_nat (Suc n) - 1)
      = rep_movsb n True ?m (d + ?k - 1) (s + ?k - 1)"
    by simp
  also have "\<dots> = copied ?m d s ?k"
    using Suc.prems k by (intro Suc.IH) auto
  also have "\<dots> = copied m d s (of_nat (Suc n))"
  proof
    fix a
    define x where "x = a - d"
    then have a: "a = d + x" by simp
    have "?k + 1 \<noteq> 0" using k by unat_arith
    then have split: "x < 1 + ?k \<longleftrightarrow> x < ?k \<or> x = ?k" by unat_arith
    have "s + x \<noteq> d + ?k" if "x < ?k"
    proof
      assume "s + x = d + ?k"
      then have "s - d = ?k - x" by (simp add: algebra_simps)
      with that k show False by unat_arith
    qed
    with split show "copied ?m d s ?k a = copied m d s (of_nat (Suc n)) a"
      by (auto simp: copied_def a)
  qed
  finally show ?case .
qed

lemma copied_same [simp]: "copied m d d n = m"
  by (simp add: copied_def fun_eq_iff)

lemma rep_movsb_same: "rep_movsb n False m d d = m"
  by (induction n arbitrary: d) auto

lemma memmove_copied:
  assumes "unat d + unat n \<le> 2 ^ 32" and "unat s + unat n \<le> 2 ^ 32"
  shows "memmove m d s n = copied m d s n"
proof (cases "d \<le> s")
  case True
  show ?thesis
  proof (cases "d = s")
    case True
    then show ?thesis by (simp add: memmove_def rep_movsb_same)
  next
    case False
    with True assms have "n \<le> d - s"
      by (auto simp: word_le_nat_alt unat_sub_if' word_unat_eq_iff)
    with True show ?thesis
      using memcpy_bottom_copied [of "unat n" d s m] unat_lt32 [of n]
      by (simp add: memmove_def rep_movsb_up)
  qed
next
  case False
  with assms have "n \<le> s - d"
    by (auto simp: word_le_nat_alt unat_sub_if' word_unat_eq_iff)
  with False show ?thesis
    using rep_movsb_down [of "unat n" s d m] unat_lt32 [of n]
    by (simp add: memmove_def)
qed

section \<open>Filling\<close>

lemma filled_split:
  assumes "k \<le> n"
  shows "filled (filled m d b k) (d + k) b (n - k) = filled m d b n"
proof
  fix a
  define x where "x = a - d"
  have a: "a - (d + k) = x - k" by (simp add: x_def)
  show "filled (filled m d b k) (d + k) b (n - k) a = filled m d b n a"
    using range_split [OF assms, of x] by (auto simp: filled_def a simp flip: x_def)
qed

lemma filled_1: "m(d := b) = filled m d b 1"
  by (auto simp: filled_def fun_eq_iff)

definition splat :: "u8 \<Rightarrow> u32" where
  "splat b = (let c = ucast b in push_bit 24 c OR push_bit 16 c OR push_bit 8 c OR c)"

lemma splat_bytes [simp]:
  "ucast (splat b) = b" "ucast (drop_bit 8 (splat b)) = b"
  "ucast (drop_bit 16 (splat b)) = b" "ucast (drop_bit 24 (splat b)) = b"
  by (rule bit_word_eqI; auto simp: splat_def Let_def bit_simps dest: bit_imp_le_length)+

lemma filled_4: "stosl m d (splat b) = filled m d b 4"
proof
  fix a
  define x where "x = a - d"
  then have a: "a = d + x" by simp
  have "x < 4 \<longleftrightarrow> x = 0 \<or> x = 1 \<or> x = 2 \<or> x = 3"
    by unat_arith
  then show "stosl m d (splat b) a = filled m d b 4 a"
    by (auto simp: stosl_def filled_def a)
qed

lemma memset_bottom_filled:
  assumes "n < 2 ^ 32"
  shows "memset_bottom n m d (splat b) = filled m d b (of_nat n)"
  using assms
proof (induction n arbitrary: m d)
  case 0
  then show ?case by simp
next
  case (Suc n)
  have one: "1 \<le> (of_nat (Suc n) :: addr)"
    using of_nat_le32 [of 1 "Suc n"] Suc.prems by simp
  from filled_split [OF one, of m d b] Suc show ?case
    by (simp add: filled_1)
qed

lemma rep_stosl_filled:
  assumes "4 * n < 2 ^ 32"
  shows "rep_stosl n m d (splat b) = filled m d b (of_nat (4 * n))"
  using assms
proof (induction n arbitrary: m d)
  case 0
  then show ?case by simp
next
  case (Suc n)
  have four: "4 \<le> (of_nat (4 * Suc n) :: addr)"
    using of_nat_le32 [of 4 "4 * Suc n"] Suc.prems by simp
  from filled_split [OF four, of m d b] Suc show ?case
    by (simp add: filled_4)
qed

lemma memset_aligned_filled: "memset_aligned m d (splat b) n = filled m d b n"
proof -
  let ?q = "drop_bit 2 n" and ?r = "n AND 3"
  have n: "4 * ?q + ?r = n" by (rule word_split4)
  have q: "4 * unat ?q < 2 ^ 32"
    using unat_lt32 [of n] by (simp add: word_split4)
  have q4: "of_nat (4 * unat ?q) = 4 * ?q" by simp
  have le: "4 * ?q \<le> n"
    using unat_lt32 [of n] of_nat_le32 [of "4 * unat ?q" "unat n"]
    unfolding q4 by (simp add: word_split4)
  have r: "n - 4 * ?q = ?r" by (metis n add_diff_cancel_left')
  show ?thesis
    using filled_split [OF le, of m d b] rep_stosl_filled [OF q, of m d b] q4 unat_lt32 [of ?r]
    by (simp add: memset_aligned_def Let_def memset_bottom_filled r)
qed

lemma memset_top_filled: "memset_top m d (splat b) n = filled m d b n"
proof (induction "unat n" arbitrary: m d n rule: less_induct)
  case less
  show ?case
  proof (cases "n = 0 \<or> d AND 3 = 0")
    case True
    then show ?thesis
      by (auto simp: memset_top.simps [of m d _ n] memset_aligned_filled)
  next
    case False
    then have one: "1 \<le> n" by unat_arith
    from False have "memset_top (m(d := b)) (d + 1) (splat b) (n - 1) =
        filled (m(d := b)) (d + 1) b (n - 1)"
      by (intro less.hyps) simp
    with False show ?thesis
      using filled_split [OF one, of m d b]
      by (simp add: memset_top.simps [of m d _ n] filled_1)
  qed
qed

lemma memset_filled: "memset m d c n = filled m d (ucast c) n"
proof -
  have "c AND 0xFF = ucast (ucast c :: u8)"
    by (rule bit_word_eqI) (auto simp: bit_simps numeral_eq_Suc less_Suc_eq)
  then have "memset m d c n = memset_top m d (splat (ucast c)) n"
    by (simp add: memset_def splat_def Let_def)
  then show ?thesis by (simp add: memset_top_filled)
qed

end
