(* ===== verification/Paging.thy ===== *)
theory Paging
  imports I8259 CMemory
begin

text \<open>
  The paging unit of the kernel, \<open>student-distrib/paging.c\<close>: the page directory, the two
  page tables, and the operations that change them. \<open>translate\<close> is the processor's side of
  the contract (Intel SDM vol. 3, 32-bit paging with 4 MB pages): which physical address a
  virtual address reaches, in kernel mode and in user mode. All the setters return 0.
\<close>

section \<open>State and operations\<close>

text \<open>The three static arrays, their addresses, which the linker chooses, and the control
  registers.\<close>

record paging = pic +
  page_directory :: "u32 carray"
  first_page_table :: "u32 carray"
  second_page_table :: "u32 carray"
  page_directory_addr :: addr
  first_page_table_addr :: addr
  second_page_table_addr :: addr
  cr0 :: u32
  cr3 :: u32
  cr4 :: u32

abbreviation (input) TABLE_ENTRIES :: nat where "TABLE_ENTRIES \<equiv> 1024"
abbreviation (input) RW_NOT_PRESENT :: u32 where "RW_NOT_PRESENT \<equiv> 0x02"
abbreviation (input) RW_PRESENT :: u32 where "RW_PRESENT \<equiv> 0x03"
abbreviation (input) USER_MODE :: u32 where "USER_MODE \<equiv> 0x07"
abbreviation (input) KERNEL_ADDR :: u32 where "KERNEL_ADDR \<equiv> 0x400000"
abbreviation (input) PAGE_SIZE :: u32 where "PAGE_SIZE \<equiv> 4096"
abbreviation (input) PAGE_INDEX :: u32 where "PAGE_INDEX \<equiv> 0x3FF"
abbreviation (input) NOT_PRESENT :: u32 where "NOT_PRESENT \<equiv> 0xFFFFFFFE"
abbreviation (input) VIDEO_MEM_ADDR :: u32 where "VIDEO_MEM_ADDR \<equiv> 0xB8000"
abbreviation (input) USER_VIDEO_MEM :: u32 where "USER_VIDEO_MEM \<equiv> 0x4500000"
abbreviation (input) FIRST_SHELL :: u32 where "FIRST_SHELL \<equiv> 0xB9000"
abbreviation (input) SECOND_SHELL :: u32 where "SECOND_SHELL \<equiv> 0xBA000"
abbreviation (input) THIRD_SHELL :: u32 where "THIRD_SHELL \<equiv> 0xBB000"
abbreviation (input) USER_PROG :: u32 where "USER_PROG \<equiv> 0x8000000"
abbreviation (input) FOUR_MB :: u32 where "FOUR_MB \<equiv> 0x400000"
abbreviation (input) EIGHT_MB :: u32 where "EIGHT_MB \<equiv> 0x800000"
abbreviation (input) EIGHT_KB :: u32 where "EIGHT_KB \<equiv> 0x2000"

text \<open>Addresses are \<open>int32_t\<close> parameters, so \<open>>>\<close> is the arithmetic shift.\<close>

definition dir_index :: "u32 \<Rightarrow> int" where
  "dir_index virtual = sint (signed_drop_bit 22 virtual)"

definition table_index :: "u32 \<Rightarrow> int" where
  "table_index virtual = sint (signed_drop_bit 12 virtual AND PAGE_INDEX)"

definition set_page_dir_entry :: "u32 \<Rightarrow> u32 \<Rightarrow> 'a paging_scheme \<Rightarrow> 'a paging_scheme" where
  "set_page_dir_entry virtual physical s =
     s\<lparr>page_directory := (page_directory s)(dir_index virtual := physical OR 0x087)\<rparr>"

definition set_page_table1_entry :: "u32 \<Rightarrow> u32 \<Rightarrow> 'a paging_scheme \<Rightarrow> 'a paging_scheme" where
  "set_page_table1_entry virtual physical s =
     s\<lparr>first_page_table := (first_page_table s)(table_index virtual := physical OR USER_MODE)\<rparr>"

definition set_page_table2_entry :: "u32 \<Rightarrow> u32 \<Rightarrow> 'a paging_scheme \<Rightarrow> 'a paging_scheme" where
  "set_page_table2_entry virtual physical s =
     s\<lparr>second_page_table := (second_page_table s)(table_index virtual := physical OR USER_MODE)\<rparr>"

definition disable_page_entry :: "u32 \<Rightarrow> 'a paging_scheme \<Rightarrow> 'a paging_scheme" where
  "disable_page_entry virtual s =
     s\<lparr>second_page_table := (second_page_table s)
         (table_index virtual := second_page_table s (table_index virtual) AND NOT_PRESENT)\<rparr>"

definition get_dir :: "u32 \<Rightarrow> 'a paging_scheme \<Rightarrow> u32" where
  "get_dir i s = page_directory s (uint i)"

definition get_page :: "u32 \<Rightarrow> 'a paging_scheme \<Rightarrow> u32" where
  "get_page i s = first_page_table s (uint i)"

definition init_page_directory :: "'a paging_scheme \<Rightarrow> 'a paging_scheme" where
  "init_page_directory s =
     s\<lparr>page_directory :=
         (for_fill TABLE_ENTRIES (\<lambda>i. RW_NOT_PRESENT) (page_directory s))
           (0 := first_page_table_addr s OR RW_PRESENT,
            uint (drop_bit 22 KERNEL_ADDR) := KERNEL_ADDR OR 0x083,
            uint (drop_bit 22 USER_VIDEO_MEM) := second_page_table_addr s OR USER_MODE)\<rparr>"

text \<open>\<open>mark_present tbl a\<close> is \<open>tbl[a >> PT_OFFSET] |= RW_PRESENT\<close>.\<close>

definition mark_present :: "u32 \<Rightarrow> u32 carray \<Rightarrow> u32 carray" where
  "mark_present a t = (let i = uint (drop_bit 12 a) in t(i := t i OR RW_PRESENT))"

definition init_page_table :: "'a paging_scheme \<Rightarrow> 'a paging_scheme" where
  "init_page_table s =
     s\<lparr>first_page_table :=
         mark_present THIRD_SHELL (mark_present SECOND_SHELL (mark_present FIRST_SHELL
           (mark_present VIDEO_MEM_ADDR
             (for_fill TABLE_ENTRIES (\<lambda>i. of_nat i * PAGE_SIZE OR RW_NOT_PRESENT)
               (first_page_table s))))),
       second_page_table :=
         for_fill TABLE_ENTRIES (\<lambda>i. of_nat i * PAGE_SIZE OR RW_NOT_PRESENT)
           (second_page_table s)\<rparr>"

definition enable_paging :: "'a paging_scheme \<Rightarrow> 'a paging_scheme" where
  "enable_paging s =
     s\<lparr>cr4 := cr4 s OR 0x10, cr3 := page_directory_addr s, cr0 := cr0 s OR 0x80000001\<rparr>"

definition init_paging :: "'a paging_scheme \<Rightarrow> 'a paging_scheme" where
  "init_paging s = enable_paging (init_page_table (init_page_directory s))"

section \<open>Address translation\<close>

definition table_at :: "'a paging_scheme \<Rightarrow> addr \<Rightarrow> u32 carray option" where
  "table_at s a =
     (if a = first_page_table_addr s then Some (first_page_table s)
      else if a = second_page_table_addr s then Some (second_page_table s) else None)"

text \<open>An entry grants an access when it is present and, for a user access, its user bit is set.\<close>

definition grants :: "bool \<Rightarrow> u32 \<Rightarrow> bool" where
  "grants user e \<longleftrightarrow> bit e 0 \<and> (user \<longrightarrow> bit e 2)"

definition page_join :: "nat \<Rightarrow> u32 \<Rightarrow> u32 \<Rightarrow> u32" where
  "page_join n e va = push_bit n (drop_bit n e) OR take_bit n va"

definition paging_on :: "'a paging_scheme \<Rightarrow> bool" where
  "paging_on s \<longleftrightarrow> bit (cr0 s) 31 \<and> bit (cr4 s) 4 \<and> cr3 s = page_directory_addr s"

text \<open>Without paging, an address is physical.\<close>

definition translate :: "bool \<Rightarrow> 'a paging_scheme \<Rightarrow> addr \<Rightarrow> addr option" where
  "translate user s va =
     (let pde = page_directory s (uint (drop_bit 22 va))
      in if \<not> bit (cr0 s) 31 then Some va
         else if \<not> grants user pde then None
         else if bit pde 7 then Some (page_join 22 pde va)
         else case table_at s (push_bit 12 (drop_bit 12 pde)) of
                None \<Rightarrow> None
              | Some t \<Rightarrow>
                  let pte = t (uint (drop_bit 12 va AND PAGE_INDEX))
                  in if grants user pte then Some (page_join 12 pte va) else None)"

text \<open>The part of the set-up that no later operation changes: paging is on and the
  directory's entries 0, 1 and 17 lead to the first table, the kernel page and the second
  table, entry 32 is absent or a 4 MB page, and nothing else is mapped.\<close>

definition paging_wf :: "'a paging_scheme \<Rightarrow> bool" where
  "paging_wf s \<longleftrightarrow>
     paging_on s \<and>
     take_bit 12 (first_page_table_addr s) = 0 \<and> take_bit 12 (second_page_table_addr s) = 0 \<and>
     first_page_table_addr s \<noteq> second_page_table_addr s \<and>
     page_directory s 0 = first_page_table_addr s OR RW_PRESENT \<and>
     page_directory s 1 = KERNEL_ADDR OR 0x083 \<and>
     page_directory s 17 = second_page_table_addr s OR USER_MODE \<and>
     (page_directory s 32 = RW_NOT_PRESENT \<or> bit (page_directory s 32) 7) \<and>
     (\<forall>k \<in> {0..<1024} - {0, 1, 17, 32}. page_directory s k = RW_NOT_PRESENT)"

section \<open>Indices and entries\<close>

lemma kernel_indices [simp]:
  "dir_index USER_PROG = 32" "table_index VIDEO_MEM_ADDR = 184"
  "table_index USER_VIDEO_MEM = 256"
  by (simp_all add: dir_index_def table_index_def)

lemma table_entry:
  assumes "take_bit 12 a = (0::u32)" and "b \<in> {RW_PRESENT, USER_MODE}"
  shows "push_bit 12 (drop_bit 12 (a OR b)) = a" and "\<not> bit (a OR b) 7"
    and "grants False (a OR b)" and "grants True (a OR b) \<longleftrightarrow> b = USER_MODE"
proof -
  have "drop_bit 12 b = 0" using assms(2) by auto
  moreover have "push_bit 12 (drop_bit 12 a) = a"
    using bits_ident [of 12 a] assms(1) by simp
  ultimately show "push_bit 12 (drop_bit 12 (a OR b)) = a" by simp
  have low: "\<not> bit a i" if "i < 12" for i
    using assms(1) that by (metis bit_0_eq bit_take_bit_iff bot_apply bot_bool_def)
  show "\<not> bit (a OR b) 7" using low [of 7] assms(2) by (auto simp: bit_or_iff)
  show "grants False (a OR b)" using assms(2) by (auto simp: grants_def bit_or_iff)
  show "grants True (a OR b) \<longleftrightarrow> b = USER_MODE"
    using low [of 2] assms(2) by (auto simp: grants_def bit_or_iff)
qed

lemma page_join_same_page [simp]: "drop_bit n e = drop_bit n va \<Longrightarrow> page_join n e va = va"
  by (simp add: page_join_def page_join_same)

lemma index_in_table:
  assumes "drop_bit 22 (va :: u32) = 0"
  shows "drop_bit 12 va AND PAGE_INDEX = drop_bit 12 va"
proof -
  have "take_bit 22 va = va" using bits_ident [of 22 va] assms by simp
  then have "drop_bit 12 va = take_bit 10 (drop_bit 12 va)"
    using drop_bit_take_bit [of 12 22 va] by simp
  then show ?thesis by (simp add: take_bit_eq_mask mask_eq_exp_minus_1)
qed

section \<open>Translation in the four mapped regions\<close>

lemma translate_low:
  assumes "paging_wf s" and "drop_bit 22 va = 0"
  shows "translate user s va =
    (let pte = first_page_table s (uint (drop_bit 12 va))
     in if \<not> user \<and> bit pte 0 then Some (page_join 12 pte va) else None)"
  using assms table_entry [of "first_page_table_addr s" RW_PRESENT]
  by (cases user) (auto simp: translate_def paging_wf_def paging_on_def Let_def table_at_def index_in_table grants_def)

lemma translate_kernel:
  assumes "paging_wf s" and "drop_bit 22 va = 1"
  shows "translate user s va = (if user then None else Some va)"
proof -
  have "uint (drop_bit 22 va) = 1" using assms(2) by simp
  moreover have "drop_bit 22 (KERNEL_ADDR OR 0x083) = drop_bit 22 va" using assms(2) by simp
  ultimately show ?thesis
    using assms by (auto simp: translate_def paging_wf_def paging_on_def Let_def grants_def)
qed

lemma translate_user_page:
  assumes "paging_wf s" and "page_directory s 32 = physical OR 0x087" and "drop_bit 22 va = 32"
  shows "translate user s va = Some (page_join 22 physical va)"
proof -
  have "uint (drop_bit 22 va) = 32" using assms(3) by simp
  then show ?thesis
    using assms by (simp add: translate_def paging_wf_def paging_on_def Let_def grants_def page_join_def bit_or_iff)
qed

lemma translate_second:
  assumes "paging_wf s" and "drop_bit 22 va = 17"
  shows "translate user s va =
    (let pte = second_page_table s (uint (drop_bit 12 va AND PAGE_INDEX))
     in if grants user pte then Some (page_join 12 pte va) else None)"
  using assms table_entry [of "second_page_table_addr s" USER_MODE]
  by (cases user) (auto simp: translate_def paging_wf_def paging_on_def Let_def table_at_def)

text \<open>The directory index of a page is the upper part of its page number.\<close>

lemma dir_of_page: "drop_bit 12 (va :: u32) = k \<Longrightarrow> drop_bit 22 va = drop_bit 10 k"
  by (drule arg_cong [where f = "drop_bit 10"]) simp

lemma dir_index_cases:
  obtains "drop_bit 22 (va :: u32) = 0" | "drop_bit 22 va = 1" | "drop_bit 22 va = 17"
    | "drop_bit 22 va = 32" | "uint (drop_bit 22 va) \<in> {0..<1024} - {0, 1, 17, 32}"
proof -
  have "uint va < 2 ^ 32" using unsigned_less [of va, where ?'a = int] by simp
  then have "uint (drop_bit 22 va) < 1024" by (simp add: drop_bit_eq_div uint_div)
  moreover have "drop_bit 22 va = k \<longleftrightarrow> uint (drop_bit 22 va) = uint k" for k
    by (simp add: word_uint_eq_iff)
  ultimately show thesis using that by auto
qed

lemma translate_unmapped:
  assumes "paging_wf s" and "uint (drop_bit 22 va) \<in> {0..<1024} - {0, 1, 17, 32}"
  shows "translate user s va = None"
proof -
  have "page_directory s (uint (drop_bit 22 va)) = RW_NOT_PRESENT"
    using assms by (simp add: paging_wf_def)
  then show ?thesis using assms(1) by (simp add: translate_def grants_def paging_wf_def paging_on_def)
qed

section \<open>The initial address space\<close>

definition tables_placed :: "'a paging_scheme \<Rightarrow> bool" where
  "tables_placed s \<longleftrightarrow>
     take_bit 12 (first_page_table_addr s) = 0 \<and> take_bit 12 (second_page_table_addr s) = 0 \<and>
     first_page_table_addr s \<noteq> second_page_table_addr s"

lemma paging_wf_init: "tables_placed s \<Longrightarrow> paging_wf (init_paging s)"
  by (auto simp: paging_wf_def tables_placed_def paging_on_def init_paging_def enable_paging_def
      init_page_table_def init_page_directory_def for_fill_apply bit_or_iff)

lemma first_page_table_init:
  assumes "0 \<le> k" "k < 1024"
  shows "first_page_table (init_paging s) k =
    word_of_int k * PAGE_SIZE OR (if k \<in> {184..187} then RW_PRESENT else RW_NOT_PRESENT)"
proof -
  have "k = 184 \<or> k = 185 \<or> k = 186 \<or> k = 187 \<or> k \<notin> {184..187}" by auto
  with assms show ?thesis
    by (elim disjE)
      (simp_all add: init_paging_def enable_paging_def init_page_table_def init_page_directory_def
        mark_present_def for_fill_apply Let_def)
qed

lemma second_page_table_init:
  "0 \<le> k \<Longrightarrow> k < 1024 \<Longrightarrow>
   second_page_table (init_paging s) k = word_of_int k * PAGE_SIZE OR RW_NOT_PRESENT"
  by (simp add: init_paging_def enable_paging_def init_page_table_def for_fill_apply)

lemma page_addr_low_bit [simp]: "\<not> bit (x * PAGE_SIZE) 0"
proof -
  have "x * PAGE_SIZE = push_bit 12 x" by (simp add: push_bit_eq_mult)
  then show ?thesis by (simp add: bit_push_bit_iff)
qed

lemma page_number_low:
  assumes "drop_bit 22 (va :: u32) = 0"
  shows "uint (drop_bit 12 va) < 1024"
proof -
  have "drop_bit 12 va \<le> PAGE_INDEX"
    by (subst index_in_table [OF assms, symmetric]) (rule word_and_le1)
  then show ?thesis by (simp add: word_le_def)
qed

lemma low_entry_init:
  fixes va :: u32 and s :: "'a paging_scheme"
  assumes "drop_bit 22 va = 0"
  defines "pte \<equiv> first_page_table (init_paging s) (uint (drop_bit 12 va))"
  shows "bit pte 0 \<longleftrightarrow> drop_bit 12 va \<in> {0xB8, 0xB9, 0xBA, 0xBB}"
    and "bit pte 0 \<Longrightarrow> drop_bit 12 pte = drop_bit 12 va"
proof -
  have pte: "pte = drop_bit 12 va * PAGE_SIZE OR
      (if uint (drop_bit 12 va) \<in> {184..187} then RW_PRESENT else RW_NOT_PRESENT)"
    unfolding pte_def using page_number_low [OF assms(1)] by (subst first_page_table_init) simp_all
  have mem: "uint (drop_bit 12 va) \<in> {184..187} \<longleftrightarrow> drop_bit 12 va \<in> {0xB8, 0xB9, 0xBA, 0xBB}"
    by (auto simp: word_uint_eq_iff)
  show bit0: "bit pte 0 \<longleftrightarrow> drop_bit 12 va \<in> {0xB8, 0xB9, 0xBA, 0xBB}"
    unfolding pte mem by (simp add: bit_or_iff)
  show "drop_bit 12 pte = drop_bit 12 va" if "bit pte 0"
    using that unfolding bit0 unfolding pte mem by auto
qed

lemma translate_init:
  assumes "tables_placed s"
  shows "translate user (init_paging s) va =
    (if \<not> user \<and> (drop_bit 12 va \<in> {0xB8, 0xB9, 0xBA, 0xBB} \<or> drop_bit 22 va = 1)
     then Some va else None)"
proof -
  note wf = paging_wf_init [OF assms]
  have video: "drop_bit 22 va = 0" if "drop_bit 12 va \<in> {0xB8, 0xB9, 0xBA, 0xBB}"
    using that by (auto dest!: dir_of_page)
  show ?thesis
  proof (cases rule: dir_index_cases [of va])
    case 1
    then show ?thesis
      using low_entry_init [OF 1, of s] by (auto simp: translate_low [OF wf 1] Let_def)
  next
    case 2
    with video show ?thesis by (auto simp: translate_kernel [OF wf 2])
  next
    case 3
    have "uint (drop_bit 12 va AND PAGE_INDEX) < 1024"
      using word_and_le1 [of "drop_bit 12 va" PAGE_INDEX] by (simp add: word_le_def)
    with 3 video show ?thesis
      by (auto simp: translate_second [OF wf 3] second_page_table_init Let_def grants_def bit_or_iff)
  next
    case 4
    have "page_directory (init_paging s) 32 = RW_NOT_PRESENT"
      by (simp add: init_paging_def enable_paging_def init_page_table_def init_page_directory_def
          for_fill_apply)
    with 4 video wf show ?thesis by (auto simp: translate_def grants_def paging_wf_def paging_on_def)
  next
    case 5
    then show ?thesis using video translate_unmapped [OF wf 5] by auto
  qed
qed

section \<open>Remapping one virtual page\<close>

text \<open>The three setters are only used on one virtual page each: the program page, the video
  page and the user's video page. The interface says what a remapping does to every address.\<close>

locale page_window =
  fixes remap :: "u32 \<Rightarrow> 's \<Rightarrow> 's"
    and look :: "'s \<Rightarrow> addr \<Rightarrow> addr option"
    and inside :: "addr \<Rightarrow> bool"
    and bits :: nat
    and wf :: "'s \<Rightarrow> bool"
  assumes wf_remap: "wf s \<Longrightarrow> wf (remap p s)"
    and look_inside: "wf s \<Longrightarrow> inside va \<Longrightarrow> look (remap p s) va = Some (page_join bits p va)"
    and look_outside: "wf s \<Longrightarrow> \<not> inside va \<Longrightarrow> look (remap p s) va = look s va"
begin

lemma look_remap:
  "wf s \<Longrightarrow> look (remap p s) va = (if inside va then Some (page_join bits p va) else look s va)"
  by (simp add: look_inside look_outside)

text \<open>The last remapping wins.\<close>

lemma look_remap_twice: "wf s \<Longrightarrow> look (remap q (remap p s)) va = look (remap q s) va"
  by (simp add: look_remap wf_remap)

text \<open>Two different frames never share a physical byte.\<close>

lemma frames_disjoint:
  assumes "wf s" "wf t" "inside a" "inside b" and "drop_bit bits p \<noteq> drop_bit bits q"
  shows "look (remap p s) a \<noteq> look (remap q t) b"
proof
  have d: "drop_bit bits (page_join bits x v) = drop_bit bits x" for x v :: u32
    by (rule bit_word_eqI) (auto simp: page_join_def bit_simps dest: bit_imp_le_length)
  assume "look (remap p s) a = look (remap q t) b"
  with assms have "page_join bits p a = page_join bits q b" by (simp add: look_inside)
  with d assms(5) show False by metis
qed

end

lemma setter_tables [simp]:
  "first_page_table (set_page_dir_entry v p s) = first_page_table s"
  "second_page_table (set_page_dir_entry v p s) = second_page_table s"
  "page_directory (set_page_table1_entry v p s) = page_directory s"
  "second_page_table (set_page_table1_entry v p s) = second_page_table s"
  "page_directory (set_page_table2_entry v p s) = page_directory s"
  "first_page_table (set_page_table2_entry v p s) = first_page_table s"
  "page_directory (set_page_dir_entry v p s) = (page_directory s)(dir_index v := p OR 0x087)"
  "first_page_table (set_page_table1_entry v p s) =
     (first_page_table s)(table_index v := p OR USER_MODE)"
  "second_page_table (set_page_table2_entry v p s) =
     (second_page_table s)(table_index v := p OR USER_MODE)"
  by (simp_all add: set_page_dir_entry_def set_page_table1_entry_def set_page_table2_entry_def)

lemma wf_set_page_dir: "paging_wf s \<Longrightarrow> paging_wf (set_page_dir_entry USER_PROG p s)"
  by (auto simp: paging_wf_def paging_on_def set_page_dir_entry_def bit_or_iff)

lemma wf_set_table1: "paging_wf s \<Longrightarrow> paging_wf (set_page_table1_entry v p s)"
  by (simp add: paging_wf_def paging_on_def set_page_table1_entry_def)

lemma wf_set_table2: "paging_wf s \<Longrightarrow> paging_wf (set_page_table2_entry v p s)"
  by (simp add: paging_wf_def paging_on_def set_page_table2_entry_def)

lemmas paging_wf_setters = wf_set_page_dir wf_set_table1 wf_set_table2

interpretation prog_page: page_window "set_page_dir_entry USER_PROG" "translate user"
    "\<lambda>va. drop_bit 22 va = 32" 22 paging_wf for user
proof
  fix s :: "'a paging_scheme" and p va
  assume "paging_wf s"
  show "paging_wf (set_page_dir_entry USER_PROG p s)"
    using \<open>paging_wf s\<close> by (rule wf_set_page_dir)
  show "translate user (set_page_dir_entry USER_PROG p s) va = Some (page_join 22 p va)"
    if "drop_bit 22 va = 32"
    using that by (rule translate_user_page [OF wf_set_page_dir [OF \<open>paging_wf s\<close>], rotated])
      (simp add: set_page_dir_entry_def)
  show "translate user (set_page_dir_entry USER_PROG p s) va = translate user s va"
    if "drop_bit 22 va \<noteq> 32"
  proof -
    have "uint (drop_bit 22 va) \<noteq> 32" using that by (simp add: word_uint_eq_iff)
    then show ?thesis
      by (simp add: translate_def set_page_dir_entry_def table_at_def Let_def)
  qed
qed

lemma drop_join_user [simp]: "drop_bit 12 (p OR USER_MODE) = drop_bit 12 p"
  by simp

interpretation video_page: page_window "set_page_table1_entry VIDEO_MEM_ADDR" "translate False"
    "\<lambda>va. drop_bit 12 va = 0xB8" 12 paging_wf
proof
  fix s :: "'a paging_scheme" and p va
  assume wf: "paging_wf s"
  note wf' = wf_set_table1 [OF wf, of VIDEO_MEM_ADDR p]
  show "paging_wf (set_page_table1_entry VIDEO_MEM_ADDR p s)" by (rule wf')
  show "translate False (set_page_table1_entry VIDEO_MEM_ADDR p s) va = Some (page_join 12 p va)"
    if "drop_bit 12 va = 0xB8"
    using that dir_of_page [OF that]
    by (subst translate_low [OF wf'])
      (simp_all add: Let_def page_join_def bit_or_iff)
  show "translate False (set_page_table1_entry VIDEO_MEM_ADDR p s) va = translate False s va"
    if "drop_bit 12 va \<noteq> 0xB8"
  proof (cases rule: dir_index_cases [of va])
    case 1
    have "uint (drop_bit 12 va) \<noteq> 184" using that by (simp add: word_uint_eq_iff)
    then show ?thesis
      by (simp add: translate_low [OF wf' 1] translate_low [OF wf 1])
  next
    case 2
    then show ?thesis by (simp add: translate_kernel [OF wf'] translate_kernel [OF wf])
  next
    case 3
    then show ?thesis
      by (simp add: translate_second [OF wf'] translate_second [OF wf])
  next
    case 4
    then show ?thesis using wf
      by (auto simp: translate_def set_page_table1_entry_def paging_wf_def grants_def Let_def)
  next
    case 5
    then show ?thesis by (simp add: translate_unmapped [OF wf'] translate_unmapped [OF wf])
  qed
qed

interpretation user_video: page_window "set_page_table2_entry USER_VIDEO_MEM" "translate user"
    "\<lambda>va. drop_bit 12 va = 0x4500" 12 paging_wf for user
proof
  fix s :: "'a paging_scheme" and p va
  assume wf: "paging_wf s"
  note wf' = wf_set_table2 [OF wf, of USER_VIDEO_MEM p]
  show "paging_wf (set_page_table2_entry USER_VIDEO_MEM p s)" by (rule wf')
  show "translate user (set_page_table2_entry USER_VIDEO_MEM p s) va = Some (page_join 12 p va)"
    if "drop_bit 12 va = 0x4500"
    using that dir_of_page [OF that]
    by (subst translate_second [OF wf'])
      (simp_all add: Let_def page_join_def bit_or_iff grants_def)
  show "translate user (set_page_table2_entry USER_VIDEO_MEM p s) va = translate user s va"
    if outside: "drop_bit 12 va \<noteq> 0x4500"
  proof (cases rule: dir_index_cases [of va])
    case 1
    then show ?thesis
      by (simp add: translate_low [OF wf' 1] translate_low [OF wf 1])
  next
    case 2
    then show ?thesis by (simp add: translate_kernel [OF wf'] translate_kernel [OF wf])
  next
    case 3
    have "drop_bit 12 va AND PAGE_INDEX \<noteq> 256"
    proof
      assume "drop_bit 12 va AND PAGE_INDEX = 256"
      then have "take_bit 10 (drop_bit 12 va) = 256"
        by (simp add: take_bit_eq_mask mask_eq_exp_minus_1)
      moreover have "drop_bit 10 (drop_bit 12 va) = 17" using 3 by simp
      ultimately have "drop_bit 12 va = 0x4500"
        using bits_ident [of 10 "drop_bit 12 va"] by simp
      with outside show False by simp
    qed
    then have "uint (drop_bit 12 va AND PAGE_INDEX) \<noteq> 256" by (simp add: word_uint_eq_iff)
    with 3 show ?thesis
      by (simp add: translate_second [OF wf'] translate_second [OF wf])
  next
    case 4
    then show ?thesis using wf
      by (auto simp: translate_def set_page_table2_entry_def paging_wf_def grants_def Let_def)
  next
    case 5
    then show ?thesis by (simp add: translate_unmapped [OF wf'] translate_unmapped [OF wf])
  qed
qed

section \<open>Kernel accesses\<close>

text \<open>A byte store and a byte load of the kernel at a virtual address. The code reloads
  \<open>CR3\<close> after every change of a mapping, so the tables are what the processor uses.\<close>

definition raise_fault :: "'a machine_scheme \<Rightarrow> 'a machine_scheme" where
  "raise_fault s = s\<lparr>fault := True\<rparr>"

definition kstore :: "addr \<Rightarrow> u8 \<Rightarrow> 'a paging_scheme \<Rightarrow> 'a paging_scheme" where
  "kstore va b s =
     (case translate False s va of
        None \<Rightarrow> raise_fault s
      | Some pa \<Rightarrow> s\<lparr>pmem := (pmem s)(pa := b)\<rparr>)"

definition kload :: "addr \<Rightarrow> 'a paging_scheme \<Rightarrow> u8 option" where
  "kload va s = map_option (pmem s) (translate False s va)"

text \<open>\<open>memcpy\<close> of one whole page between page-aligned virtual addresses: a page is contiguous
  in physical memory, so the routine runs on the two frames.\<close>

definition page_copy :: "addr \<Rightarrow> addr \<Rightarrow> 'a paging_scheme \<Rightarrow> 'a paging_scheme" where
  "page_copy dest src s =
     (case (translate False s dest, translate False s src) of
        (Some d, Some c) \<Rightarrow> s\<lparr>pmem := memcpy (pmem s) d c PAGE_SIZE\<rparr>
      | _ \<Rightarrow> raise_fault s)"

section \<open>Properties\<close>

text \<open>The 4 MB frame of a process: \<open>EIGHT_MB + (pid - 1)*FOUR_MB\<close>.\<close>

definition prog_frame :: "int \<Rightarrow> u32" where
  "prog_frame pid = EIGHT_MB + word_of_int (pid - 1) * FOUR_MB"

lemma pid_cases:
  assumes "1 \<le> p" "p \<le> (6::int)"
  obtains "p = 1" | "p = 2" | "p = 3" | "p = 4" | "p = 5" | "p = 6"
  using assms by fastforce

lemma drop_prog_frame: "1 \<le> p \<Longrightarrow> p \<le> 6 \<Longrightarrow> drop_bit 22 (prog_frame p) = word_of_int (p + 1)"
  by (erule (1) pid_cases) (simp_all add: prog_frame_def)

definition paging0 :: paging where
  "paging0 = \<lparr>pmem = (\<lambda>_. 0), ports = [], iflag = False, esp = 0, ebp = 0, fault = False,
     master_mask = 0, slave_mask = 0, page_directory = (\<lambda>_. 0), first_page_table = (\<lambda>_. 0),
     second_page_table = (\<lambda>_. 0), page_directory_addr = 0x410000,
     first_page_table_addr = 0x411000, second_page_table_addr = 0x412000,
     cr0 = 0, cr3 = 0, cr4 = 0\<rparr>"

lemma tables_placed_0: "tables_placed paging0"
  by (simp add: tables_placed_def paging0_def)

lemma page_join_frame:
  assumes "1 \<le> p" "p \<le> 6"
  shows "page_join 22 (prog_frame p) a = prog_frame p + take_bit 22 a"
proof -
  have "push_bit 22 (drop_bit 22 (prog_frame p)) = prog_frame p"
    using assms by (elim pid_cases) (simp_all add: prog_frame_def)
  then show ?thesis
    unfolding page_join_def
    by (subst disjunctive_add_eq_or) (auto simp: bit_eq_iff bit_simps simp del: bit_numeral_word_iff)
qed



text \<open>C26: Process isolation. Once the program page is mapped to the frame of process \<open>p\<close>, every
  user address of that page reaches its byte of the frame of \<open>p\<close>, and with the page mapped for
  another process no address of it reaches the same byte.\<close>

theorem program_pages_isolated:
  fixes s t :: "'a paging_scheme"
  assumes "paging_wf s" and "paging_wf t" and "1 \<le> p" "p \<le> 6" "1 \<le> q" "q \<le> 6" "p \<noteq> q"
    and "drop_bit 22 a = 32" "drop_bit 22 b = 32"
  shows "translate True (set_page_dir_entry USER_PROG (prog_frame p) s) a \<noteq>
      translate True (set_page_dir_entry USER_PROG (prog_frame q) t) b \<and>
    translate True (set_page_dir_entry USER_PROG (prog_frame p) s) a =
      Some (prog_frame p + take_bit 22 a)"
proof
  have "(word_of_int (p + 1) :: u32) \<noteq> word_of_int (q + 1)"
    using assms(3-7) by (elim pid_cases) simp_all
  then show "translate True (set_page_dir_entry USER_PROG (prog_frame p) s) a \<noteq>
      translate True (set_page_dir_entry USER_PROG (prog_frame q) t) b"
    using assms(3-6)
    by (intro prog_page.frames_disjoint [OF assms(1,2,8,9)]) (simp add: drop_prog_frame)
  show "translate True (set_page_dir_entry USER_PROG (prog_frame p) s) a =
      Some (prog_frame p + take_bit 22 a)"
    using assms by (simp add: prog_page.look_inside page_join_frame)
qed

theorem program_pages_isolated_witness:
  "translate True (set_page_dir_entry USER_PROG (prog_frame 1) (init_paging paging0)) 0x8048000 \<noteq>
     translate True (set_page_dir_entry USER_PROG (prog_frame 4) (init_paging paging0)) 0x8048000"
  using program_pages_isolated [OF paging_wf_init [OF tables_placed_0] paging_wf_init [OF tables_placed_0],
      of 1 4 "0x8048000" "0x8048000"] by (simp del: not_Some_eq not_None_eq) (erule conjE, simp)

end
