(* ===== verification/Console.thy ===== *)
theory Console
  imports Paging
begin

text \<open>
  The screen of \<open>student-distrib/lib.c\<close>: the three terminals, the cursor and the character
  output. Every access to the screen goes through the virtual page at \<open>0xB8000\<close>, which the
  scheduler maps to the physical screen or to the buffer of a background terminal.
\<close>

section \<open>State\<close>

abbreviation (input) NUM_COLS :: int where "NUM_COLS \<equiv> 80"
abbreviation (input) NUM_ROWS :: int where "NUM_ROWS \<equiv> 25"
abbreviation (input) BUF_LENGTH :: int where "BUF_LENGTH \<equiv> 128"
abbreviation (input) VIDEO :: addr where "VIDEO \<equiv> 0xB8000"
abbreviation (input) ATTRIB :: u8 where "ATTRIB \<equiv> 0x7"
abbreviation (input) PORT_3D4 :: u16 where "PORT_3D4 \<equiv> 0x3D4"
abbreviation (input) PORT_3D5 :: u16 where "PORT_3D5 \<equiv> 0x3D5"

text \<open>\<open>shell_t\<close>; the fields \<open>x\<close> and \<open>y\<close> are \<open>scr_x\<close> and \<open>scr_y\<close> here.\<close>

record shell =
  vid_mem :: addr
  scr_x :: int
  scr_y :: int
  kb_buf :: "u8 carray"
  line_buffer_flag :: int
  buf_index :: int
  shift_pressed :: u8
  caps_lock :: u8
  ctrl_pressed :: u8
  alt_pressed :: u8
  shell_vid_map :: int

record console = paging +
  terminals :: "shell carray"
  cur_terminal :: int
  print_terminal :: int
  current_line :: int

definition upd_term :: "int \<Rightarrow> (shell \<Rightarrow> shell) \<Rightarrow> 'a console_scheme \<Rightarrow> 'a console_scheme" where
  "upd_term i f s = s\<lparr>terminals := (terminals s)(i := f (terminals s i))\<rparr>"

section \<open>Operations\<close>

definition reset_shell :: "addr \<Rightarrow> shell \<Rightarrow> shell" where
  "reset_shell v t =
     t\<lparr>scr_x := 0, scr_y := 0, vid_mem := v, line_buffer_flag := 0, buf_index := 0,
       shift_pressed := 0, caps_lock := 0, ctrl_pressed := 0, alt_pressed := 0,
       shell_vid_map := 0\<rparr>"

definition init_shell :: "'a console_scheme \<Rightarrow> 'a console_scheme" where
  "init_shell s =
     upd_term 2 (reset_shell THIRD_SHELL)
       (upd_term 1 (reset_shell SECOND_SHELL) (upd_term 0 (reset_shell FIRST_SHELL) s))"

definition move_cursor :: "int \<Rightarrow> int \<Rightarrow> 'a machine_scheme \<Rightarrow> 'a machine_scheme" where
  "move_cursor screen_x screen_y s =
     (let pos = (word_of_int (screen_y * NUM_COLS + screen_x) :: u32);
          s = outb 0x0F PORT_3D4 s;
          s = outb (ucast (pos AND 0xFF)) PORT_3D5 s;
          s = outb 0x0E PORT_3D4 s
      in outb (ucast (signed_drop_bit 8 pos AND 0xFF)) PORT_3D5 s)"

text \<open>\<open>move_cursor(terminals[cur_terminal].x, terminals[cur_terminal].y)\<close>\<close>

definition show_cursor :: "'a console_scheme \<Rightarrow> 'a console_scheme" where
  "show_cursor s =
     (let t = terminals s (cur_terminal s) in move_cursor (scr_x t) (scr_y t) s)"

definition change_shell :: "int \<Rightarrow> 'a console_scheme \<Rightarrow> int \<times> 'a console_scheme" where
  "change_shell nxt s =
     (if nxt < 0 \<or> nxt \<ge> 3 then (- 1, s)
      else
        let s = page_copy (vid_mem (terminals s (cur_terminal s))) VIDEO s;
            s = s\<lparr>cur_terminal := nxt\<rparr>;
            s = page_copy VIDEO (vid_mem (terminals s nxt)) s
        in (0, move_cursor (scr_x (terminals s nxt)) (scr_y (terminals s nxt)) s))"

text \<open>The address of cell \<open>i\<close>: \<open>video_mem + (i << 1)\<close>.\<close>

definition cell :: "int \<Rightarrow> addr" where
  "cell i = VIDEO + word_of_int (2 * i)"

definition put_cell :: "u8 \<Rightarrow> int \<Rightarrow> 'a paging_scheme \<Rightarrow> 'a paging_scheme" where
  "put_cell c i s = kstore (cell i + 1) ATTRIB (kstore (cell i) c s)"

definition clear :: "'a paging_scheme \<Rightarrow> 'a paging_scheme" where
  "clear s = fold (put_cell 0x20) [0..NUM_ROWS * NUM_COLS - 1] s"

definition copy_cell :: "int \<Rightarrow> 'a paging_scheme \<Rightarrow> 'a paging_scheme" where
  "copy_cell i s =
     (case kload (cell (i + NUM_COLS)) s of
        None \<Rightarrow> raise_fault s
      | Some c \<Rightarrow> put_cell c i s)"

definition scroll_up :: "'a paging_scheme \<Rightarrow> 'a paging_scheme" where
  "scroll_up s =
     fold (put_cell 0x20) [NUM_ROWS * NUM_COLS - NUM_COLS..NUM_ROWS * NUM_COLS - 1]
       (fold copy_cell [0..NUM_ROWS * NUM_COLS - NUM_COLS - 1] s)"

definition new_line :: "'a console_scheme \<Rightarrow> 'a console_scheme" where
  "new_line s =
     (let p = print_terminal s;
          s = (if scr_y (terminals s p) = NUM_ROWS - 1
               then upd_term p (\<lambda>t. t\<lparr>scr_x := 0\<rparr>) (scroll_up s)
               else upd_term p (\<lambda>t. t\<lparr>scr_y := scr_y t + 1, scr_x := 0\<rparr>) s)
      in show_cursor s)"

definition reset_screen :: "'a console_scheme \<Rightarrow> 'a console_scheme" where
  "reset_screen s =
     show_cursor
       ((upd_term (cur_terminal s) (\<lambda>t. t\<lparr>scr_y := 0, scr_x := 0\<rparr>) s)\<lparr>current_line := 0\<rparr>)"

definition back_space :: "'a console_scheme \<Rightarrow> 'a console_scheme" where
  "back_space s =
     (let c = cur_terminal s;
          s = upd_term c (\<lambda>t. t\<lparr>scr_x := scr_x t - 1\<rparr>) s;
          s = (if scr_x (terminals s c) < 0
               then upd_term c (\<lambda>t. t\<lparr>scr_x := NUM_COLS - 1, scr_y := scr_y t - 1\<rparr>) s
               else s);
          t = terminals s c
      in show_cursor (kstore (cell (NUM_COLS * scr_y t + scr_x t)) 0x20 s))"

text \<open>C's division truncates towards zero; the column is never negative here.\<close>

definition putc :: "u8 \<Rightarrow> 'a console_scheme \<Rightarrow> 'a console_scheme" where
  "putc c s =
     (let p = print_terminal s in
      show_cursor
        (if c = 0x0A \<or> c = 0x0D
         then let s = new_line s in s\<lparr>current_line := scr_y (terminals s p)\<rparr>
         else
           let t = terminals s p;
               s = put_cell c (NUM_COLS * scr_y t + scr_x t) s;
               s = upd_term p (\<lambda>t. t\<lparr>scr_x := scr_x t + 1\<rparr>) s;
               s = (if scr_x (terminals s p) = NUM_COLS then new_line s else s)
           in upd_term p
                (\<lambda>t. t\<lparr>scr_y := (scr_y t + scr_x t div NUM_COLS) mod NUM_ROWS\<rparr>) s))"

text \<open>The string is the array of bytes from the pointer on; a missing terminator would read
  past it.\<close>

fun puts_from :: "u8 list \<Rightarrow> int \<Rightarrow> 'a console_scheme \<Rightarrow> int \<times> 'a console_scheme" where
  "puts_from [] index s = (index, raise_fault s)"
| "puts_from (c # cs) index s =
     (if c = 0 then (index, s) else puts_from cs (index + 1) (putc c s))"

definition puts :: "u8 list \<Rightarrow> 'a console_scheme \<Rightarrow> int \<times> 'a console_scheme" where
  "puts str s = puts_from str 0 s"

definition test_interrupts :: "'a paging_scheme \<Rightarrow> 'a paging_scheme" where
  "test_interrupts s =
     fold (\<lambda>i s. case kload (cell i) s of
             None \<Rightarrow> raise_fault s
           | Some c \<Rightarrow> kstore (cell i) (c + 1) s)
       [0..NUM_ROWS * NUM_COLS - 1] s"

section \<open>The video page\<close>

declare upto_rec_numeral [simp del]

definition vframe :: "'a paging_scheme \<Rightarrow> addr" where
  "vframe s = push_bit 12 (drop_bit 12 (first_page_table s 184))"

definition video_ok :: "'a paging_scheme \<Rightarrow> bool" where
  "video_ok s \<longleftrightarrow> paging_wf s \<and> bit (first_page_table s 184) 0"

lemma vframe_aligned: "take_bit 12 (vframe s) = 0"
  by (simp add: vframe_def take_bit_push_bit)


lemma video_offset:
  assumes "0 \<le> k" "k < 4096"
  shows "page_join 12 e (VIDEO + word_of_int k) = push_bit 12 (drop_bit 12 e) + word_of_int k"
    and "drop_bit 12 (VIDEO + word_of_int k) = 0xB8" and "drop_bit 22 (VIDEO + word_of_int k) = 0"
proof -
  have k: "take_bit 12 (word_of_int k :: u32) = word_of_int k"
    using assms by (intro take_bit_below) (simp add: unat_eq_nat_uint uint_word_of_int_eq take_bit_int_eq_self)
  note v = page_offset [of 12 VIDEO, OF _ k]
  show "drop_bit 12 (VIDEO + word_of_int k) = 0xB8" using v(2) by simp
  from dir_of_page [OF this] show "drop_bit 22 (VIDEO + word_of_int k) = 0" by simp
  have "take_bit 12 (push_bit 12 (drop_bit 12 e)) = 0" by (simp add: take_bit_push_bit)
  from page_offset(1) [OF this k] v(3)
  show "page_join 12 e (VIDEO + word_of_int k) = push_bit 12 (drop_bit 12 e) + word_of_int k"
    by (simp add: page_join_def)
qed

lemma translate_video:
  assumes "video_ok s" and "0 \<le> k" "k < 4096"
  shows "translate False s (VIDEO + word_of_int k) = Some (vframe s + word_of_int k)"
  using assms
  by (simp add: video_ok_def translate_low [OF _ video_offset(3)] video_offset vframe_def Let_def)

text \<open>The screen's page leads to the frame \<open>f\<close>: the one in the page table, or the screen itself before paging is on.\<close>

definition screen_at :: "addr \<Rightarrow> 'a paging_scheme \<Rightarrow> bool" where
  "screen_at f s \<longleftrightarrow> (\<forall>k. 0 \<le> k \<and> k < 4096 \<longrightarrow> translate False s (VIDEO + word_of_int k) = Some (f + word_of_int k))"

lemma video_screen: "video_ok s \<Longrightarrow> screen_at (vframe s) s"
  by (simp add: screen_at_def translate_video)

lemma boot_screen: "\<not> bit (cr0 s) 31 \<Longrightarrow> screen_at VIDEO s"
  by (simp add: screen_at_def translate_def)

lemma screen_at_frame [simp]:
  "screen_at f (s\<lparr>pmem := m\<rparr>) = screen_at f s" "screen_at f (s\<lparr>ports := p\<rparr>) = screen_at f s"
  by (simp_all add: screen_at_def translate_def table_at_def Let_def)

lemma screen_at_console [simp]:
  "screen_at f (s\<lparr>terminals := t\<rparr>) = screen_at f s" "screen_at f (s\<lparr>current_line := c\<rparr>) = screen_at f s"
  by (simp_all add: screen_at_def translate_def table_at_def Let_def)

lemma video_frame [simp]:
  "paging_wf (s\<lparr>pmem := m\<rparr>) = paging_wf s" "paging_wf (s\<lparr>fault := b\<rparr>) = paging_wf s"
  "paging_wf (s\<lparr>ports := p\<rparr>) = paging_wf s" "paging_wf (s\<lparr>iflag := i\<rparr>) = paging_wf s"
  "video_ok (s\<lparr>pmem := m\<rparr>) = video_ok s" "video_ok (s\<lparr>ports := p\<rparr>) = video_ok s"
  "vframe (s\<lparr>pmem := m\<rparr>) = vframe s" "vframe (s\<lparr>ports := p\<rparr>) = vframe s"
  by (simp_all add: paging_wf_def paging_on_def video_ok_def vframe_def)

lemma video_frame_console [simp]:
  "paging_wf (s\<lparr>terminals := t\<rparr>) = paging_wf s" "paging_wf (s\<lparr>cur_terminal := c\<rparr>) = paging_wf s"
  "paging_wf (s\<lparr>print_terminal := c\<rparr>) = paging_wf s" "paging_wf (s\<lparr>current_line := c\<rparr>) = paging_wf s"
  "video_ok (s\<lparr>terminals := t\<rparr>) = video_ok s" "video_ok (s\<lparr>cur_terminal := c\<rparr>) = video_ok s"
  "video_ok (s\<lparr>print_terminal := c\<rparr>) = video_ok s" "video_ok (s\<lparr>current_line := c\<rparr>) = video_ok s"
  "vframe (s\<lparr>terminals := t\<rparr>) = vframe s" "vframe (s\<lparr>cur_terminal := c\<rparr>) = vframe s"
  "vframe (s\<lparr>print_terminal := c\<rparr>) = vframe s" "vframe (s\<lparr>current_line := c\<rparr>) = vframe s"
  by (simp_all add: paging_wf_def paging_on_def video_ok_def vframe_def)

text \<open>On a mapped video page the screen operations are functions on physical memory: one cell,
  a run of blank cells and a run of cells copied from the next row.\<close>

definition set_cell :: "addr \<Rightarrow> u8 \<Rightarrow> int \<Rightarrow> mem \<Rightarrow> mem" where
  "set_cell f c i m = m(f + word_of_int (2 * i) := c, f + word_of_int (2 * i + 1) := ATTRIB)"

lemma kstore_screen:
  "screen_at f s \<Longrightarrow> 0 \<le> k \<Longrightarrow> k < 4096 \<Longrightarrow>
   kstore (VIDEO + word_of_int k) c s = s\<lparr>pmem := (pmem s)(f + word_of_int k := c)\<rparr>"
  by (simp add: kstore_def screen_at_def)

lemmas kstore_video = kstore_screen [OF video_screen]

lemma put_cell_mem:
  assumes "screen_at f s" "0 \<le> i" "i < 2000"
  shows "put_cell c i s = s\<lparr>pmem := set_cell f c i (pmem s)\<rparr>"
proof -
  have "cell i + 1 = VIDEO + word_of_int (2 * i + 1)" by (simp add: cell_def)
  moreover have "kstore (cell i) c s = s\<lparr>pmem := (pmem s)(f + word_of_int (2 * i) := c)\<rparr>"
    unfolding cell_def using assms by (intro kstore_screen) simp_all
  moreover have "kstore (VIDEO + word_of_int (2 * i + 1)) ATTRIB (s\<lparr>pmem := q\<rparr>) =
      s\<lparr>pmem := q(f + word_of_int (2 * i + 1) := ATTRIB)\<rparr>" for q
    using assms by (subst kstore_screen [of f]) simp_all
  ultimately show ?thesis by (simp only: put_cell_def set_cell_def)
qed

lemma copy_cell_mem:
  assumes "screen_at f s" "0 \<le> i" "i < 1920"
  shows "copy_cell i s = s\<lparr>pmem := set_cell f (pmem s (f + word_of_int (2 * (i + 80)))) i (pmem s)\<rparr>"
proof -
  have "kload (cell (i + NUM_COLS)) s = Some (pmem s (f + word_of_int (2 * (i + 80))))"
    using assms(1) [unfolded screen_at_def, rule_format, of "2 * (i + 80)"] assms(2,3) by (simp add: kload_def cell_def)
  then show ?thesis using put_cell_mem [OF assms(1), of i] assms by (simp add: copy_cell_def)
qed

text \<open>A loop whose body is a function on memory while the page stays mapped is one.\<close>

lemma fold_mem:
  fixes s :: "'a paging_scheme"
  assumes "\<And>i (s::'a paging_scheme). i \<in> set is \<Longrightarrow> screen_at f s \<Longrightarrow> g i s = s\<lparr>pmem := h i (pmem s)\<rparr>"
    and "screen_at f s"
  shows "fold g is s = s\<lparr>pmem := fold h is (pmem s)\<rparr>"
  using assms
proof (induction "is" arbitrary: s)
  case Nil
  then show ?case by simp
next
  case (Cons i "is")
  then show ?case by simp
qed

definition glyph :: "addr \<Rightarrow> mem \<Rightarrow> int \<Rightarrow> u8" where
  "glyph f m i = m (f + word_of_int (2 * i))"

lemma cell_offsets:
  assumes "0 \<le> i" "i < 4096" "0 \<le> j" "j < 4096"
  shows "f + word_of_int i = f + (word_of_int j :: addr) \<longleftrightarrow> i = j"
proof -
  have "(word_of_int i :: addr) = word_of_int j \<longleftrightarrow> i = j"
    using assms by (simp add: word_of_int_eq_iff take_bit_int_eq_self)
  then show ?thesis by simp
qed

lemma glyph_set_cell:
  assumes "0 \<le> i" "i < 2000" "0 \<le> j" "j < 2000"
  shows "glyph f (set_cell f c i m) j = (if j = i then c else glyph f m j)"
proof -
  have "f + word_of_int (2 * j) = f + word_of_int (2 * i) \<longleftrightarrow> j = i"
    and "f + word_of_int (2 * j) \<noteq> f + word_of_int (2 * i + 1)"
    using assms by (subst cell_offsets; presburger)+
  then show ?thesis by (simp add: glyph_def set_cell_def del: of_int_mult of_int_add add_left_cancel)
qed

text \<open>Only the 4000 bytes of the screen change.\<close>

definition same_outside :: "addr \<Rightarrow> mem \<Rightarrow> mem \<Rightarrow> bool" where
  "same_outside f m m' \<longleftrightarrow> (\<forall>a. a - f \<ge> 4000 \<longrightarrow> m' a = m a)"

lemma same_outside_refl [simp]: "same_outside f m m"
  by (simp add: same_outside_def)

lemma same_outside_trans: "same_outside f m m' \<Longrightarrow> same_outside f m' m'' \<Longrightarrow> same_outside f m m''"
  by (simp add: same_outside_def)

lemma same_outside_cell:
  assumes "0 \<le> i" "i < 2000"
  shows "same_outside f m (set_cell f c i m)"
proof -
  have "(word_of_int k :: addr) < 4000" if "0 \<le> k" "k < 4000" for k
    using that by (simp add: word_less_def uint_word_of_int_eq take_bit_int_eq_self)
  from this [of "2 * i"] this [of "2 * i + 1"] show ?thesis
    using assms by (auto simp: same_outside_def set_cell_def linorder_not_less [symmetric])
qed

lemma fold_outside:
  assumes "\<And>i m. i \<in> set is \<Longrightarrow> same_outside f m (h i m)"
  shows "same_outside f m (fold h is m)"
  using assms
  by (induction "is" arbitrary: m) (auto intro: same_outside_trans)

lemma glyph_blank_cells:
  assumes "\<forall>i \<in> set is. 0 \<le> i \<and> i < 2000" and "0 \<le> j" "j < 2000"
  shows "glyph f (fold (set_cell f c) is m) j = (if j \<in> set is then c else glyph f m j)"
  using assms by (induction "is" arbitrary: m) (auto simp: glyph_set_cell)

definition copy_up :: "addr \<Rightarrow> int \<Rightarrow> mem \<Rightarrow> mem" where
  "copy_up f i m = set_cell f (glyph f m (i + 80)) i m"

lemma glyph_copy_one:
  "0 \<le> i \<Longrightarrow> i < 2000 \<Longrightarrow> 0 \<le> j \<Longrightarrow> j < 2000 \<Longrightarrow>
   glyph f (copy_up f i m) j = (if j = i then glyph f m (i + 80) else glyph f m j)"
  by (simp add: copy_up_def glyph_set_cell)

lemma glyph_copy_up:
  assumes "\<forall>i \<in> set is. 0 \<le> i \<and> i < 1920" and "sorted_wrt (<) is" and "0 \<le> j" "j < 2000"
  shows "glyph f (fold (copy_up f) is m) j = (if j \<in> set is then glyph f m (j + 80) else glyph f m j)"
  using assms(1,2)
proof (induction "is" arbitrary: m)
  case Nil
  then show ?case by simp
next
  case (Cons i "is")
  then have "glyph f (fold (copy_up f) (i # is) m) j =
      (if j \<in> set is then glyph f (copy_up f i m) (j + 80) else glyph f (copy_up f i m) j)"
    by simp
  moreover have "j + 80 \<noteq> i" if "j \<in> set is" using Cons.prems that by force
  moreover have "j < 1920" if "j \<in> set is" using Cons.prems that by simp
  ultimately show ?case
    using Cons.prems assms(3,4) by (auto simp: glyph_copy_one)
qed

lemma clear_screen: "screen_at f s \<Longrightarrow> clear s = s\<lparr>pmem := fold (set_cell f 0x20) [0..1999] (pmem s)\<rparr>"
  unfolding clear_def by (subst fold_mem [where h = "set_cell f 0x20" and f = f]) (auto simp: put_cell_mem)

lemmas clear_mem = clear_screen [OF video_screen]

definition scroll_mem :: "addr \<Rightarrow> mem \<Rightarrow> mem" where
  "scroll_mem f m = fold (set_cell f 0x20) [1920..1999] (fold (copy_up f) [0..1919] m)"

lemma scroll_up_mem:
  assumes "screen_at f s"
  shows "scroll_up s = s\<lparr>pmem := scroll_mem f (pmem s)\<rparr>"
proof -
  have "fold copy_cell [0..1919] s = s\<lparr>pmem := fold (copy_up f) [0..1919] (pmem s)\<rparr>"
    using assms by (intro fold_mem [where f = f]) (simp_all add: copy_cell_mem copy_up_def glyph_def)
  moreover have "fold (put_cell 0x20) [1920..1999] t =
      t\<lparr>pmem := fold (set_cell f 0x20) [1920..1999] (pmem t)\<rparr>" if "screen_at f t" for t :: "'a paging_scheme"
    using that by (intro fold_mem [where f = f]) (simp_all add: put_cell_mem)
  ultimately show ?thesis
    using assms by (simp add: scroll_up_def scroll_mem_def)
qed

lemma glyph_scroll:
  assumes "0 \<le> j" "j < 2000"
  shows "glyph f (scroll_mem f m) j = (if j < 1920 then glyph f m (j + 80) else 0x20)"
  using assms by (simp add: scroll_mem_def glyph_blank_cells glyph_copy_up)

lemma scroll_outside: "same_outside f m (scroll_mem f m)"
  unfolding scroll_mem_def
  by (rule same_outside_trans; rule fold_outside) (auto simp: copy_up_def intro: same_outside_cell)

section \<open>The character device\<close>

text \<open>The abstract screen: 2000 characters and a position. A character goes to the position,
  a line end moves to the start of the next row, and past the last cell the rows move up.\<close>

type_synonym tty = "u8 carray \<times> int"

definition tty_scroll :: "tty \<Rightarrow> tty" where
  "tty_scroll = (\<lambda>(g, p).
     if p < 2000 then (g, p)
     else (\<lambda>i. if 0 \<le> i \<and> i < 2000 then (if i < 1920 then g (i + 80) else 0x20) else 0, 1920))"

definition tty_put :: "u8 \<Rightarrow> tty \<Rightarrow> tty" where
  "tty_put c = (\<lambda>(g, p).
     tty_scroll (if c = 0x0A \<or> c = 0x0D then (g, (p div 80 + 1) * 80) else (g(p := c), p + 1)))"

definition tty_of :: "'a console_scheme \<Rightarrow> tty" where
  "tty_of s =
     (let t = terminals s (print_terminal s)
      in (\<lambda>i. if 0 \<le> i \<and> i < 2000 then glyph (vframe s) (pmem s) i else 0,
          80 * scr_y t + scr_x t))"

definition tty_at :: "addr \<Rightarrow> 'a console_scheme \<Rightarrow> tty" where
  "tty_at f s =
     (let t = terminals s (print_terminal s)
      in (\<lambda>i. if 0 \<le> i \<and> i < 2000 then glyph f (pmem s) i else 0, 80 * scr_y t + scr_x t))"

lemma tty_of_at: "tty_of s = tty_at (vframe s) s"
  by (simp add: tty_of_def tty_at_def)

definition on_screen :: "shell \<Rightarrow> bool" where
  "on_screen t \<longleftrightarrow> 0 \<le> scr_x t \<and> scr_x t < 80 \<and> 0 \<le> scr_y t \<and> scr_y t < 25"

definition term_no :: "int \<Rightarrow> bool" where
  "term_no k \<longleftrightarrow> 0 \<le> k \<and> k < 3"

definition console_inv :: "'a console_scheme \<Rightarrow> bool" where
  "console_inv s \<longleftrightarrow>
     video_ok s \<and> \<not> fault s \<and> term_no (cur_terminal s) \<and> term_no (print_terminal s) \<and>
     (\<forall>k. term_no k \<longrightarrow> on_screen (terminals s k))"

text \<open>What an operation on the printing terminal leaves alone: everything but the screen's
  bytes in the frame of the screen, that terminal's cursor, the cursor ports and \<open>current_line\<close>.\<close>

definition prints_at :: "addr \<Rightarrow> 'a console_scheme \<Rightarrow> 'a console_scheme \<Rightarrow> bool" where
  "prints_at f s s' \<longleftrightarrow>
     (\<exists>m q l x y. same_outside f (pmem s) m \<and>
        s' = s\<lparr>pmem := m, ports := q, current_line := l, terminals := (terminals s)
          (print_terminal s := (terminals s (print_terminal s))\<lparr>scr_x := x, scr_y := y\<rparr>)\<rparr>)"

lemma prints_at_refl [simp]: "prints_at f s s"
  unfolding prints_at_def
  by (rule exI [of _ "pmem s"], rule exI [of _ "ports s"], rule exI [of _ "current_line s"],
      rule exI [of _ "scr_x (terminals s (print_terminal s))"],
      rule exI [of _ "scr_y (terminals s (print_terminal s))"]) simp

definition prints_only :: "'a console_scheme \<Rightarrow> 'a console_scheme \<Rightarrow> bool" where
  "prints_only s s' \<longleftrightarrow>
     (\<exists>m q l x y. same_outside (vframe s) (pmem s) m \<and>
        s' = s\<lparr>pmem := m, ports := q, current_line := l, terminals := (terminals s)
          (print_terminal s := (terminals s (print_terminal s))\<lparr>scr_x := x, scr_y := y\<rparr>)\<rparr>)"

lemma prints_only_refl [simp]: "prints_only s s"
  using prints_at_refl [of "vframe s" s] by (simp only: prints_only_def prints_at_def)

lemma prints_onlyI:
  assumes "s' = s\<lparr>pmem := m, ports := q, terminals := (terminals s)
      (print_terminal s := (terminals s (print_terminal s))\<lparr>scr_x := x, scr_y := y\<rparr>)\<rparr>"
    and "same_outside (vframe s) (pmem s) m"
  shows "prints_only s s'"
proof -
  have "s' = s\<lparr>pmem := m, ports := q, current_line := current_line s, terminals := (terminals s)
      (print_terminal s := (terminals s (print_terminal s))\<lparr>scr_x := x, scr_y := y\<rparr>)\<rparr>"
    using assms(1) by (intro console.equality) simp_all
  with assms(2) show ?thesis unfolding prints_only_def by blast
qed

lemma prints_only_trans: "prints_only s t \<Longrightarrow> prints_only t u \<Longrightarrow> prints_only s u"
  unfolding prints_only_def by clarsimp (blast intro: same_outside_trans)

lemma prints_at_trans: "prints_at f s t \<Longrightarrow> prints_at f t u \<Longrightarrow> prints_at f s u"
  unfolding prints_at_def by clarsimp (blast intro: same_outside_trans)

lemma show_cursor_eq: obtains q where "show_cursor s = s\<lparr>ports := q\<rparr>"
  by (simp add: show_cursor_def move_cursor_def outb_def Let_def)

lemma new_line_eq:
  fixes s :: "'a console_scheme"
  assumes "screen_at f s"
  defines "t \<equiv> terminals s (print_terminal s)"
  obtains q where "new_line s =
    s\<lparr>pmem := if scr_y t = 24 then scroll_mem f (pmem s) else pmem s, ports := q,
      terminals := (terminals s)(print_terminal s :=
        t\<lparr>scr_x := 0, scr_y := if scr_y t = 24 then 24 else scr_y t + 1\<rparr>)\<rparr>"
proof -
  obtain q where "new_line s =
      (if scr_y t = 24 then upd_term (print_terminal s) (\<lambda>t. t\<lparr>scr_x := 0\<rparr>) (scroll_up s)
       else upd_term (print_terminal s) (\<lambda>t. t\<lparr>scr_y := scr_y t + 1, scr_x := 0\<rparr>) s)\<lparr>ports := q\<rparr>"
    unfolding new_line_def t_def Let_def by (rule show_cursor_eq) simp
  then show thesis
    by (intro that [of q])
      (auto simp: t_def upd_term_def scroll_up_mem [OF assms(1)] intro!: console.equality shell.equality
        arg_cong [where f = "fun_upd (terminals s) (print_terminal s)"])
qed

text \<open>The effect of one character: on memory and on the cursor.\<close>

definition put_mem :: "u8 \<Rightarrow> addr \<Rightarrow> int \<Rightarrow> int \<Rightarrow> mem \<Rightarrow> mem" where
  "put_mem c f x y m =
     (let m = (if c = 0x0A \<or> c = 0x0D then m else set_cell f c (80 * y + x) m)
      in if y = 24 \<and> (c = 0x0A \<or> c = 0x0D \<or> x = 79) then scroll_mem f m else m)"

definition put_x :: "u8 \<Rightarrow> int \<Rightarrow> int" where
  "put_x c x = (if c = 0x0A \<or> c = 0x0D \<or> x = 79 then 0 else x + 1)"

definition put_y :: "u8 \<Rightarrow> int \<Rightarrow> int \<Rightarrow> int" where
  "put_y c x y = (if c = 0x0A \<or> c = 0x0D \<or> x = 79 then (if y = 24 then 24 else y + 1) else y)"

lemma putc_eq:
  fixes s :: "'a console_scheme" and c :: u8
  assumes "screen_at f s" and "on_screen (terminals s (print_terminal s))"
  defines "t \<equiv> terminals s (print_terminal s)"
  obtains q l where "putc c s =
    s\<lparr>pmem := put_mem c f (scr_x t) (scr_y t) (pmem s), ports := q, current_line := l,
      terminals := (terminals s)(print_terminal s :=
        t\<lparr>scr_x := put_x c (scr_x t), scr_y := put_y c (scr_x t) (scr_y t)\<rparr>)\<rparr>"
proof (cases "c = 0x0A \<or> c = 0x0D")
  case True
  obtain q where n: "new_line s =
    s\<lparr>pmem := if scr_y t = 24 then scroll_mem f (pmem s) else pmem s, ports := q,
      terminals := (terminals s)(print_terminal s :=
        t\<lparr>scr_x := 0, scr_y := if scr_y t = 24 then 24 else scr_y t + 1\<rparr>)\<rparr>"
    using new_line_eq [OF assms(1)] unfolding t_def by blast
  obtain q' l where "putc c s = (new_line s)\<lparr>current_line := l, ports := q'\<rparr>"
    unfolding putc_def Let_def using True by (simp only: if_True) (rule show_cursor_eq)
  then show thesis
    using True assms(2) unfolding n
    by (intro that [of l q'] console.equality) (auto simp: put_mem_def put_x_def put_y_def t_def on_screen_def)
next
  case False
  define s1 where "s1 = s\<lparr>pmem := set_cell f c (80 * scr_y t + scr_x t) (pmem s),
    terminals := (terminals s)(print_terminal s := t\<lparr>scr_x := scr_x t + 1\<rparr>)\<rparr>"
  have xy: "0 \<le> scr_x t" "scr_x t < 80" "0 \<le> scr_y t" "scr_y t < 25"
    using assms(2) by (simp_all add: on_screen_def t_def)
  then have pc: "put_cell c (80 * scr_y t + scr_x t) s =
      s\<lparr>pmem := set_cell f c (80 * scr_y t + scr_x t) (pmem s)\<rparr>"
    using assms(1) by (intro put_cell_mem) auto
  have s1: "screen_at f s1" "print_terminal s1 = print_terminal s"
    "terminals s1 (print_terminal s) = t\<lparr>scr_x := scr_x t + 1\<rparr>"
    using assms(1) by (simp_all add: s1_def)
  define s2 where "s2 = (if scr_x t = 79 then new_line s1 else s1)"
  obtain q where s2: "s2 =
      s\<lparr>pmem := put_mem c f (scr_x t) (scr_y t) (pmem s), ports := q,
        terminals := (terminals s)(print_terminal s :=
          t\<lparr>scr_x := put_x c (scr_x t), scr_y := put_y c (scr_x t) (scr_y t)\<rparr>)\<rparr>"
  proof (cases "scr_x t = 79")
    case True
    obtain q where n: "new_line s1 =
        s1\<lparr>pmem := if scr_y (terminals s1 (print_terminal s1)) = 24
            then scroll_mem f (pmem s1) else pmem s1, ports := q,
          terminals := (terminals s1)(print_terminal s1 := (terminals s1 (print_terminal s1))
            \<lparr>scr_x := 0, scr_y := if scr_y (terminals s1 (print_terminal s1)) = 24 then 24
               else scr_y (terminals s1 (print_terminal s1)) + 1\<rparr>)\<rparr>"
      by (rule new_line_eq [OF s1(1)])
    have "s2 = new_line s1" using True by (simp add: s2_def)
    then show thesis
      using True False xy unfolding n s1
      by (intro that [of q] console.equality) (simp_all add: s1_def put_mem_def put_x_def put_y_def)
  next
    case False
    then show thesis
      using \<open>\<not> (c = 0x0A \<or> c = 0x0D)\<close> xy
      by (intro that [of "ports s"] console.equality) (auto simp: s2_def s1_def put_mem_def put_x_def put_y_def)
  qed
  have "putc c s = show_cursor (upd_term (print_terminal s)
      (\<lambda>t. t\<lparr>scr_y := (scr_y t + scr_x t div 80) mod 25\<rparr>) s2)"
    unfolding putc_def Let_def t_def [symmetric] pc s2_def s1_def
    using False by (simp add: upd_term_def t_def [symmetric])
  moreover have "upd_term (print_terminal s)
      (\<lambda>t. t\<lparr>scr_y := (scr_y t + scr_x t div 80) mod 25\<rparr>) s2 = s2"
    using xy False
    by (intro console.equality) (auto simp: upd_term_def s2 put_x_def put_y_def intro!: shell.equality)
  moreover obtain q' where "show_cursor s2 = s2\<lparr>ports := q'\<rparr>" by (rule show_cursor_eq)
  ultimately show thesis
    by (intro that [of "current_line s" q'] console.equality) (simp_all add: s2)
qed

lemma put_xy:
  assumes "0 \<le> x" "x < 80" "0 \<le> y" "y < 25"
  shows "0 \<le> put_x c x" "put_x c x < 80" "0 \<le> put_y c x y" "put_y c x y < 25"
  using assms by (auto simp: put_x_def put_y_def)

lemma glyph_put_mem:
  assumes "0 \<le> x" "x < 80" "0 \<le> y" "y < 25" and "0 \<le> i" "i < 2000"
  shows "glyph f (put_mem c f x y m) i =
    (let g = (if c = 0x0A \<or> c = 0x0D then glyph f m else (glyph f m)(80 * y + x := c))
     in if y = 24 \<and> (c = 0x0A \<or> c = 0x0D \<or> x = 79)
        then if i < 1920 then g (i + 80) else 0x20 else g i)"
  using assms by (simp add: put_mem_def Let_def glyph_scroll glyph_set_cell)

lemma put_mem_outside:
  "0 \<le> x \<Longrightarrow> x < 80 \<Longrightarrow> 0 \<le> y \<Longrightarrow> y < 25 \<Longrightarrow> same_outside f m (put_mem c f x y m)"
  by (auto simp: put_mem_def Let_def intro!: scroll_outside same_outside_cell same_outside_trans [OF _ scroll_outside])

lemma putc_at:
  assumes "screen_at f s" "on_screen (terminals s (print_terminal s))"
  shows "tty_at f (putc c s) = tty_put c (tty_at f s)" and "prints_at f s (putc c s)"
    and "on_screen (terminals (putc c s) (print_terminal s))"
proof -
  define t where "t = terminals s (print_terminal s)"
  have xy: "0 \<le> scr_x t" "scr_x t < 80" "0 \<le> scr_y t" "scr_y t < 25"
    using assms(2) by (simp_all add: on_screen_def t_def)
  obtain q l where p: "putc c s =
    s\<lparr>pmem := put_mem c f (scr_x t) (scr_y t) (pmem s), ports := q, current_line := l,
      terminals := (terminals s)(print_terminal s :=
        t\<lparr>scr_x := put_x c (scr_x t), scr_y := put_y c (scr_x t) (scr_y t)\<rparr>)\<rparr>"
    unfolding t_def by (rule putc_eq [OF assms])
  show "on_screen (terminals (putc c s) (print_terminal s))"
    using put_xy [OF xy] unfolding p by (simp add: on_screen_def)
  show "prints_at f s (putc c s)"
    unfolding prints_at_def p t_def
    by (intro exI conjI, rule put_mem_outside [OF xy [unfolded t_def]]) (rule refl)
  have d: "(80 * scr_y t + scr_x t) div 80 = scr_y t" using xy by simp
  have "fst (tty_at f (putc c s)) = fst (tty_put c (tty_at f s))"
    using xy unfolding p
    by (auto simp: tty_at_def Let_def tty_put_def tty_scroll_def t_def [symmetric] glyph_put_mem fun_eq_iff d)
  moreover have "snd (tty_at f (putc c s)) = snd (tty_put c (tty_at f s))"
    using xy unfolding p
    by (auto simp: tty_at_def Let_def tty_put_def tty_scroll_def t_def [symmetric] put_x_def put_y_def d)
  ultimately show "tty_at f (putc c s) = tty_put c (tty_at f s)" by (simp add: prod_eq_iff)
qed

lemma putc_step:
  assumes "console_inv s"
  shows "tty_of (putc c s) = tty_put c (tty_of s)" and "console_inv (putc c s)"
    and "prints_only s (putc c s)"
proof -
  have a: "screen_at (vframe s) s" "on_screen (terminals s (print_terminal s))"
    using assms video_screen by (auto simp: console_inv_def)
  note p = putc_at [OF a, of c]
  show "prints_only s (putc c s)" using p(2) by (simp add: prints_only_def prints_at_def)
  obtain m q l x y where e: "putc c s = s\<lparr>pmem := m, ports := q, current_line := l, terminals := (terminals s)
      (print_terminal s := (terminals s (print_terminal s))\<lparr>scr_x := x, scr_y := y\<rparr>)\<rparr>"
    using p(2) by (auto simp: prints_at_def)
  show "tty_of (putc c s) = tty_put c (tty_of s)" using p(1) by (simp add: tty_of_at e)
  show "console_inv (putc c s)" using assms p(3) by (simp add: console_inv_def e)
qed

text \<open>A device that takes one character at a time and implements an abstract step for it.\<close>

locale char_device =
  fixes put :: "u8 \<Rightarrow> 's \<Rightarrow> 's"
    and abs_put :: "u8 \<Rightarrow> 'a \<Rightarrow> 'a"
    and view :: "'s \<Rightarrow> 'a"
    and inv :: "'s \<Rightarrow> bool"
    and frame :: "'s \<Rightarrow> 's \<Rightarrow> bool"
  assumes view_put: "inv s \<Longrightarrow> view (put c s) = abs_put c (view s)"
    and inv_put: "inv s \<Longrightarrow> inv (put c s)"
    and frame_put: "inv s \<Longrightarrow> frame s (put c s)"
    and frame_refl: "frame s s"
    and frame_trans: "frame s t \<Longrightarrow> frame t u \<Longrightarrow> frame s u"
begin

lemma inv_puts: "inv s \<Longrightarrow> inv (fold put cs s)"
  by (induction cs arbitrary: s) (simp_all add: inv_put)

lemma view_puts: "inv s \<Longrightarrow> view (fold put cs s) = fold abs_put cs (view s)"
  by (induction cs arbitrary: s) (simp_all add: view_put inv_put)

lemma frame_puts: "inv s \<Longrightarrow> frame s (fold put cs s)"
proof (induction cs arbitrary: s)
  case Nil
  then show ?case by (simp add: frame_refl)
next
  case (Cons c cs)
  then show ?case using frame_trans [OF frame_put, of s c] by (simp add: inv_put)
qed

end

interpretation screen: char_device putc tty_put tty_of console_inv prints_only
  by unfold_locales (auto simp: putc_step intro: prints_only_trans)

lemma puts_from_eq:
  "puts_from (cs @ 0 # rest) index s =
   (if 0 \<in> set cs then puts_from (cs @ [0]) index s else (index + int (length cs), fold putc cs s))"
proof (induction cs arbitrary: index s)
  case Nil
  then show ?case by simp
next
  case (Cons c cs)
  then show ?case by (cases "c = 0") auto
qed

section \<open>The screens of the three terminals\<close>

text \<open>What a terminal shows: the physical screen for the terminal in view, its buffer otherwise.\<close>

definition screen_of :: "'a console_scheme \<Rightarrow> int \<Rightarrow> addr" where
  "screen_of s k = (if k = cur_terminal s then VIDEO else vid_mem (terminals s k))"

definition shown :: "'a console_scheme \<Rightarrow> int \<Rightarrow> u32 \<Rightarrow> u8" where
  "shown s k i = pmem s (screen_of s k + i)"

text \<open>The buffers lie at the pages after the screen and are mapped to themselves.\<close>

definition buffers_ok :: "'a console_scheme \<Rightarrow> bool" where
  "buffers_ok s \<longleftrightarrow>
     (\<forall>k. term_no k \<longrightarrow>
        vid_mem (terminals s k) = 0xB9000 + word_of_int k * PAGE_SIZE \<and>
        translate False s (vid_mem (terminals s k)) = Some (vid_mem (terminals s k)))"

lemma term_no_cases:
  assumes "term_no k"
  obtains "k = 0" | "k = 1" | "k = 2"
  using assms unfolding term_no_def by fastforce

lemma translate_frame [simp]:
  "translate u (s\<lparr>pmem := m\<rparr>) = translate u s" "translate u (s\<lparr>ports := q\<rparr>) = translate u s"
  by (simp_all add: fun_eq_iff translate_def table_at_def Let_def)

lemma translate_frame_console [simp]:
  "translate u (s\<lparr>cur_terminal := c\<rparr>) = translate u s"
  "translate u (s\<lparr>terminals := ts\<rparr>) = translate u s"
  "translate u (s\<lparr>print_terminal := c\<rparr>) = translate u s"
  "translate u (s\<lparr>current_line := c\<rparr>) = translate u s"
  by (simp_all add: fun_eq_iff translate_def table_at_def Let_def)

definition screen_pages :: "addr set" where
  "screen_pages = {0xB8000, 0xB9000, 0xBA000, 0xBB000}"

lemma copied_page:
  assumes "q \<in> screen_pages" "d \<in> screen_pages" "i < PAGE_SIZE"
  shows "copied m d c PAGE_SIZE (q + i) = (if q = d then m (c + i) else m (q + i))"
proof -
  have "q + i - d < PAGE_SIZE \<longleftrightarrow> q = d"
    using assms unfolding screen_pages_def by (elim insertE emptyE; simp; unat_arith)
  then show ?thesis by (simp add: copied_def)
qed

lemma page_copy_copied:
  assumes "translate False s d = Some d" "translate False s c = Some c"
    and "d \<in> screen_pages" "c \<in> screen_pages" "c \<noteq> d"
  shows "page_copy d c s = s\<lparr>pmem := copied (pmem s) d c PAGE_SIZE\<rparr>"
proof -
  have "PAGE_SIZE \<le> d - c"
    using assms(3-5) unfolding screen_pages_def by (elim insertE emptyE; simp)
  then show ?thesis using assms by (simp add: page_copy_def memcpy_copied)
qed

lemma buffer_page:
  assumes "buffers_ok s" "term_no k"
  shows "vid_mem (terminals s k) \<in> screen_pages" "vid_mem (terminals s k) \<noteq> VIDEO"
    "translate False s (vid_mem (terminals s k)) = Some (vid_mem (terminals s k))"
    "term_no j \<Longrightarrow> vid_mem (terminals s k) = vid_mem (terminals s j) \<longleftrightarrow> k = j"
proof -
  have v: "vid_mem (terminals s i) = 0xB9000 + word_of_int i * PAGE_SIZE" if "term_no i" for i
    using assms(1) that by (simp add: buffers_ok_def)
  show "vid_mem (terminals s k) \<in> screen_pages" "vid_mem (terminals s k) \<noteq> VIDEO"
    using v [OF assms(2)] assms(2) by (auto simp: screen_pages_def elim!: term_no_cases)
  show "translate False s (vid_mem (terminals s k)) = Some (vid_mem (terminals s k))"
    using assms unfolding buffers_ok_def by blast
  show "vid_mem (terminals s k) = vid_mem (terminals s j) \<longleftrightarrow> k = j" if "term_no j"
    using v [OF assms(2)] v [OF that] assms(2) that by (auto elim!: term_no_cases)
qed

lemma video_page_in [simp]: "VIDEO \<in> screen_pages" by (simp add: screen_pages_def)

lemma change_shell_eq:
  fixes s :: "'a console_scheme"
  assumes "video_ok s" "buffers_ok s" "vframe s = VIDEO" "term_no nxt" "term_no (cur_terminal s)"
  defines "m \<equiv> copied (pmem s) (vid_mem (terminals s (cur_terminal s))) VIDEO PAGE_SIZE"
  obtains q where "change_shell nxt s =
    (0, s\<lparr>pmem := copied m VIDEO (vid_mem (terminals s nxt)) PAGE_SIZE, ports := q, cur_terminal := nxt\<rparr>)"
proof -
  have tv: "translate False s VIDEO = Some VIDEO"
    using translate_video [OF assms(1), of 0] assms(3) by simp
  note b = buffer_page [OF assms(2)]
  have 1: "page_copy (vid_mem (terminals s (cur_terminal s))) VIDEO s = s\<lparr>pmem := m\<rparr>"
    unfolding m_def using b [OF assms(5)] tv by (intro page_copy_copied) auto
  have 2: "page_copy VIDEO (vid_mem (terminals s nxt)) (s\<lparr>pmem := m, cur_terminal := nxt\<rparr>) =
      s\<lparr>pmem := copied m VIDEO (vid_mem (terminals s nxt)) PAGE_SIZE, cur_terminal := nxt\<rparr>"
    using b [OF assms(4)] tv by (subst page_copy_copied) auto
  show thesis
    using assms(4)
    by (intro that [of "ports (snd (change_shell nxt s))"])
      (auto simp: change_shell_def term_no_def 1 2 Let_def move_cursor_def outb_def intro!: console.equality)
qed

lemma shown_change_shell:
  assumes "video_ok s" "buffers_ok s" "vframe s = VIDEO" "term_no nxt" "term_no (cur_terminal s)"
    and "term_no k" "i < PAGE_SIZE"
  shows "shown (snd (change_shell nxt s)) k i = shown s k i"
proof -
  obtain q where e: "change_shell nxt s =
    (0, s\<lparr>pmem := copied (copied (pmem s) (vid_mem (terminals s (cur_terminal s))) VIDEO PAGE_SIZE)
        VIDEO (vid_mem (terminals s nxt)) PAGE_SIZE, ports := q, cur_terminal := nxt\<rparr>)"
    by (rule change_shell_eq [OF assms(1-5)])
  show ?thesis
    using buffer_page [OF assms(2,4)] buffer_page [OF assms(2,5)] buffer_page [OF assms(2,6)] assms(4-7)
    by (auto simp: e shown_def screen_of_def copied_page)
qed


section \<open>Erasing a character\<close>

definition tty_back :: "tty \<Rightarrow> tty" where
  "tty_back = (\<lambda>(g, p). (g(p - 1 := 0x20), p - 1))"

lemma back_space_eq:
  fixes s :: "'a console_scheme"
  assumes "video_ok s" and "on_screen (terminals s (cur_terminal s))"
  defines "t \<equiv> terminals s (cur_terminal s)"
  assumes "0 < 80 * scr_y t + scr_x t"
  obtains q where "back_space s =
    s\<lparr>pmem := (pmem s)(vframe s + word_of_int (2 * (80 * scr_y t + scr_x t - 1)) := 0x20), ports := q,
      terminals := (terminals s)(cur_terminal s :=
        t\<lparr>scr_x := if scr_x t = 0 then 79 else scr_x t - 1,
          scr_y := if scr_x t = 0 then scr_y t - 1 else scr_y t\<rparr>)\<rparr>"
proof -
  define s1 where "s1 = s\<lparr>terminals := (terminals s)(cur_terminal s :=
        t\<lparr>scr_x := if scr_x t = 0 then 79 else scr_x t - 1,
          scr_y := if scr_x t = 0 then scr_y t - 1 else scr_y t\<rparr>)\<rparr>"
  have xy: "0 \<le> scr_x t" "scr_x t < 80" "0 \<le> scr_y t" "scr_y t < 25"
    using assms(2) by (simp_all add: on_screen_def t_def)
  have "back_space s = show_cursor (kstore (cell (80 * scr_y t + scr_x t - 1)) 0x20 s1)"
    using xy unfolding back_space_def Let_def s1_def
    by (cases "scr_x t = 0") (simp_all add: upd_term_def t_def [symmetric] algebra_simps)
  moreover have "kstore (cell (80 * scr_y t + scr_x t - 1)) 0x20 s1 =
      s1\<lparr>pmem := (pmem s)(vframe s + word_of_int (2 * (80 * scr_y t + scr_x t - 1)) := 0x20)\<rparr>"
    unfolding cell_def using xy assms(1,4) by (subst kstore_video) (simp_all add: s1_def)
  moreover obtain q where "show_cursor (kstore (cell (80 * scr_y t + scr_x t - 1)) 0x20 s1) =
      (kstore (cell (80 * scr_y t + scr_x t - 1)) 0x20 s1)\<lparr>ports := q\<rparr>"
    by (rule show_cursor_eq)
  ultimately show thesis
    by (intro that [of q] console.equality) (simp_all add: s1_def)
qed


lemma glyph_upd:
  "0 \<le> i \<Longrightarrow> i < 2000 \<Longrightarrow> 0 \<le> j \<Longrightarrow> j < 2000 \<Longrightarrow>
   glyph f (m(f + word_of_int (2 * j) := c)) i = (if i = j then c else glyph f m i)"
  using cell_offsets [of "2 * i" "2 * j" f] by (simp add: glyph_def)

lemma back_space_step:
  assumes "console_inv s" and "print_terminal s = cur_terminal s" and "0 < snd (tty_of s)"
  shows "tty_of (back_space s) = tty_back (tty_of s)" and "console_inv (back_space s)"
    and "prints_only s (back_space s)"
proof -
  define t where "t = terminals s (cur_terminal s)"
  from assms have v: "video_ok s" and on: "on_screen t"
    by (simp_all add: console_inv_def t_def)
  then have xy: "0 \<le> scr_x t" "scr_x t < 80" "0 \<le> scr_y t" "scr_y t < 25"
    by (simp_all add: on_screen_def)
  have pos: "0 < 80 * scr_y t + scr_x t" using assms(2,3) by (simp add: tty_of_def Let_def t_def)
  then have y0: "0 < scr_y t" if "scr_x t = 0" using that by simp
  obtain q where b: "back_space s =
    s\<lparr>pmem := (pmem s)(vframe s + word_of_int (2 * (80 * scr_y t + scr_x t - 1)) := 0x20), ports := q,
      terminals := (terminals s)(cur_terminal s :=
        t\<lparr>scr_x := if scr_x t = 0 then 79 else scr_x t - 1,
          scr_y := if scr_x t = 0 then scr_y t - 1 else scr_y t\<rparr>)\<rparr>"
    unfolding t_def by (rule back_space_eq [OF v on [unfolded t_def] pos [unfolded t_def]])
  show "console_inv (back_space s)"
    using assms(1) xy y0 unfolding b by (simp add: console_inv_def on_screen_def)
  have "same_outside (vframe s) (pmem s)
      ((pmem s)(vframe s + word_of_int (2 * (80 * scr_y t + scr_x t - 1)) := 0x20))"
    using xy pos unfolding same_outside_def linorder_not_less [symmetric]
    by (auto simp: word_less_def uint_word_of_int_eq take_bit_int_eq_self simp del: of_int_mult of_int_diff of_int_add)
  then show "prints_only s (back_space s)"
    using b [folded assms(2)] unfolding t_def assms(2) [symmetric] by (rule prints_onlyI [rotated])
  define p where "p = 80 * scr_y t + scr_x t - 1"
  have p: "0 \<le> p" "p < 2000" using xy pos by (simp_all add: p_def)
  have "fst (tty_of (back_space s)) = fst (tty_back (tty_of s))"
    using assms(2) p unfolding b p_def [symmetric]
    by (auto simp: tty_of_def Let_def tty_back_def t_def [symmetric] p_def [symmetric] fun_eq_iff
        glyph_upd simp del: of_int_mult)
  moreover have "snd (tty_of (back_space s)) = snd (tty_back (tty_of s))"
    using assms(2) unfolding b by (simp add: tty_of_def Let_def tty_back_def t_def [symmetric])
  ultimately show "tty_of (back_space s) = tty_back (tty_of s)" by (simp add: prod_eq_iff)
qed

section \<open>The console after the boot\<close>

lemma init_shell_fields [simp]:
  "translate u (init_shell s) = translate u s" "vframe (init_shell s) = vframe s"
  "video_ok (init_shell s) = video_ok s" "fault (init_shell s) = fault s"
  "cur_terminal (init_shell s) = cur_terminal s" "print_terminal (init_shell s) = print_terminal s"
  by (simp_all add: init_shell_def upd_term_def)

lemma terminals_init_shell:
  "term_no k \<Longrightarrow> terminals (init_shell s) k =
     reset_shell (0xB9000 + word_of_int k * PAGE_SIZE) (terminals s k)"
  by (erule term_no_cases) (simp_all add: init_shell_def upd_term_def)

lemma init_paging_fields [simp]:
  "cur_terminal (init_paging s) = cur_terminal s" "print_terminal (init_paging s) = print_terminal s"
  "fault (init_paging s) = fault s" "terminals (init_paging s) = terminals s"
  by (simp_all add: init_paging_def enable_paging_def init_page_table_def init_page_directory_def)

lemma console_boot:
  assumes "tables_placed s" "\<not> fault s" "term_no (cur_terminal s)" "term_no (print_terminal s)"
  shows "console_inv (init_shell (init_paging s))" "buffers_ok (init_shell (init_paging s))"
    "vframe (init_shell (init_paging s)) = VIDEO"
proof -
  have pte: "first_page_table (init_paging s) 184 = 0xB8003"
    by (simp add: first_page_table_init)
  show "vframe (init_shell (init_paging s)) = VIDEO"
    by (simp only: init_shell_fields) (simp add: vframe_def pte)
  have "video_ok (init_paging s)"
    using paging_wf_init [OF assms(1)] by (simp add: video_ok_def pte)
  then show "console_inv (init_shell (init_paging s))"
    using assms by (simp add: console_inv_def terminals_init_shell reset_shell_def on_screen_def)
  show "buffers_ok (init_shell (init_paging s))"
    unfolding buffers_ok_def
    by (auto simp: terminals_init_shell reset_shell_def translate_init [OF assms(1)] elim!: term_no_cases)
qed

definition console0 :: console where
  "console0 = \<lparr>pmem = (\<lambda>_. 0), ports = [], iflag = False, esp = 0, ebp = 0, fault = False,
     master_mask = 0, slave_mask = 0, page_directory = (\<lambda>_. 0), first_page_table = (\<lambda>_. 0),
     second_page_table = (\<lambda>_. 0), page_directory_addr = 0x410000,
     first_page_table_addr = 0x411000, second_page_table_addr = 0x412000,
     cr0 = 0, cr3 = 0, cr4 = 0,
     terminals = (\<lambda>_. \<lparr>vid_mem = 0, scr_x = 0, scr_y = 0, kb_buf = (\<lambda>_. 0), line_buffer_flag = 0,
       buf_index = 0, shift_pressed = 0, caps_lock = 0, ctrl_pressed = 0, alt_pressed = 0,
       shell_vid_map = 0\<rparr>),
     cur_terminal = 0, print_terminal = 0, current_line = 0\<rparr>"

lemma console0_boot:
  "console_inv (init_shell (init_paging console0))" "buffers_ok (init_shell (init_paging console0))"
  "vframe (init_shell (init_paging console0)) = VIDEO"
  by (rule console_boot; simp add: console0_def tables_placed_def term_no_def)+

section \<open>Properties\<close>

text \<open>C8: The console implements the abstract screen. Printing any byte advances the printing
  terminal's characters and cursor exactly as the abstract step says (line ends, wrapping at
  the last column, scrolling at the last row), keeps the console invariant (no fault, every
  cursor on the screen) and changes nothing but the screen's bytes of the mapped frame, that
  terminal's cursor, the cursor ports and \<open>current_line\<close>.\<close>

theorem putc_refines_tty:
  assumes "console_inv s"
  shows "tty_of (putc c s) = tty_put c (tty_of s) \<and> console_inv (putc c s) \<and> prints_only s (putc c s)"
  using putc_step [OF assms] by simp

theorem putc_refines_tty_witness:
  "snd (tty_of (putc 0x41 (init_shell (init_paging console0)))) = 1"
proof -
  have "snd (tty_of (init_shell (init_paging console0))) = 0"
    by (simp add: tty_of_def Let_def terminals_init_shell reset_shell_def console0_def term_no_def)
  then show ?thesis
    using putc_refines_tty [OF console0_boot(1), of "0x41"]
    by (cases "tty_of (init_shell (init_paging console0))") (simp add: tty_put_def tty_scroll_def)
qed

text \<open>\<open>puts\<close> on a C string prints exactly its characters before the terminator, in order,
  and returns their number; whatever follows the terminator is not read.\<close>

theorem puts_prints_string:
  assumes "0 \<notin> set cs" and "console_inv s"
  shows "fst (puts (cs @ 0 # rest) s) = int (length cs) \<and>
    tty_of (snd (puts (cs @ 0 # rest) s)) = fold tty_put cs (tty_of s) \<and>
    console_inv (snd (puts (cs @ 0 # rest) s)) \<and> prints_only s (snd (puts (cs @ 0 # rest) s))"
  using assms
  by (simp add: puts_def puts_from_eq screen.view_puts screen.inv_puts screen.frame_puts)

theorem puts_prints_string_witness:
  "fst (puts ([0x68, 0x69] @ 0 # [0x7A]) (init_shell (init_paging console0))) = 2"
  using puts_prints_string [OF _ console0_boot(1), of "[0x68, 0x69]" "[0x7A]"] by simp

text \<open>C30: Switching the viewed terminal loses nothing. While the video page shows the physical
  screen, \<open>change_shell\<close> to any terminal number below 3 succeeds, makes that terminal the viewed
  one, and every byte that any of the three terminals shows stays what it was.\<close>

theorem change_shell_keeps_screens:
  assumes "console_inv s" and "buffers_ok s" and "vframe s = VIDEO"
    and "term_no nxt" and "term_no k" and "i < PAGE_SIZE"
  shows "fst (change_shell nxt s) = 0 \<and> cur_terminal (snd (change_shell nxt s)) = nxt \<and>
    console_inv (snd (change_shell nxt s)) \<and>
    shown (snd (change_shell nxt s)) k i = shown s k i"
proof -
  have v: "video_ok s" and c: "term_no (cur_terminal s)"
    using assms(1) by (simp_all add: console_inv_def)
  obtain q where e: "change_shell nxt s =
    (0, s\<lparr>pmem := copied (copied (pmem s) (vid_mem (terminals s (cur_terminal s))) VIDEO PAGE_SIZE)
        VIDEO (vid_mem (terminals s nxt)) PAGE_SIZE, ports := q, cur_terminal := nxt\<rparr>)"
    by (rule change_shell_eq [OF v assms(2-4) c])
  show ?thesis
    using shown_change_shell [OF v assms(2-4) c assms(5,6)] assms(1,4)
    by (simp add: e console_inv_def)
qed

theorem change_shell_keeps_screens_witness:
  "cur_terminal (snd (change_shell 2 (init_shell (init_paging console0)))) = 2 \<and>
   shown (snd (change_shell 2 (init_shell (init_paging console0)))) 0 5 =
     shown (init_shell (init_paging console0)) 0 5"
  using change_shell_keeps_screens [OF console0_boot, of 2 0 5] by (simp add: term_no_def)

end
