(* ===== verification/Scheduler.thy ===== *)
theory Scheduler
  imports Console
begin

text \<open>
  The scheduler of \<open>student-distrib/pit.c\<close>: the three scheduling slots, one per terminal, and
  the timer interrupt that moves round them. A switch saves the stack registers of the old
  slot, maps the pages of the new one and resumes it, or enters user mode when the slot has
  never run.
\<close>

section \<open>State\<close>

text \<open>\<open>sched_node\<close>; the fields that other structures have too carry the prefix \<open>sn\<close>.\<close>

record sched_node =
  sn_process_num :: int
  video_buffer :: addr
  sn_vid_map :: int
  sn_esp :: u32
  sn_ebp :: u32

text \<open>The scheduler's globals, the stack fields of the TSS, the entry point of the shell, and
  the local \<open>flags\<close> of the timer handler. That local lives in the handler's stack frame, at a
  fixed distance from the stack pointer \<open>switch_process\<close> saves, so it is kept per stack pointer:
  after a switch the handler goes on with the frame of the slot it resumed.\<close>

record sched = console +
  sched_arr :: "sched_node carray"
  cur_sched_term :: int
  prev_sched_term :: int
  tss_esp0 :: u32
  tss_ss0 :: u16
  program_addr_test :: u32
  pit_flags :: "u32 \<Rightarrow> bool"

text \<open>Where control goes: back to the caller, or to user mode at an address.\<close>

datatype 's control = Return 's | User_mode u32 's

primrec final :: "'s control \<Rightarrow> 's" where
  "final (Return s) = s"
| "final (User_mode _ s) = s"

definition upd_sched :: "int \<Rightarrow> (sched_node \<Rightarrow> sched_node) \<Rightarrow> 'a sched_scheme \<Rightarrow> 'a sched_scheme" where
  "upd_sched i f s = s\<lparr>sched_arr := (sched_arr s)(i := f (sched_arr s i))\<rparr>"

abbreviation (input) PIT_IRQ_NUM :: u32 where "PIT_IRQ_NUM \<equiv> 0"
abbreviation (input) PIT_CHANNEL0 :: u16 where "PIT_CHANNEL0 \<equiv> 0x40"
abbreviation (input) PIT_COMMAND_PORT :: u16 where "PIT_COMMAND_PORT \<equiv> 0x43"
abbreviation (input) SCHED_SIZE :: int where "SCHED_SIZE \<equiv> 3"
abbreviation (input) USER_ESP :: u32 where "USER_ESP \<equiv> 0x83FFFFF"
abbreviation (input) OSCILLATOR_FREQ :: u32 where "OSCILLATOR_FREQ \<equiv> 1193182"
abbreviation (input) INTERRUPT_INTERVAL :: u32 where "INTERRUPT_INTERVAL \<equiv> 100"

section \<open>Operations\<close>

definition pit_init :: "'a sched_scheme \<Rightarrow> 'a sched_scheme" where
  "pit_init s =
     (let divisor = OSCILLATOR_FREQ div INTERRUPT_INTERVAL;
          divisor_low = divisor AND 0xFF;
          divisor_high = drop_bit 8 divisor AND 0xFF;
          s = upd_sched 0 (\<lambda>n. n\<lparr>sn_process_num := 1, video_buffer := FIRST_SHELL, sn_vid_map := 0,
                sn_esp := EIGHT_MB, sn_ebp := EIGHT_MB\<rparr>) s;
          s = upd_sched 1 (\<lambda>n. n\<lparr>sn_process_num := 2, video_buffer := SECOND_SHELL, sn_vid_map := 0,
                sn_esp := - 1, sn_ebp := - 1\<rparr>) s;
          s = upd_sched 2 (\<lambda>n. n\<lparr>sn_process_num := 3, video_buffer := THIRD_SHELL, sn_vid_map := 0,
                sn_esp := - 1, sn_ebp := - 1\<rparr>) s;
          s = outb 0x36 PIT_COMMAND_PORT s;
          s = outb (ucast divisor_low) PIT_CHANNEL0 s;
          s = outb (ucast divisor_high) PIT_CHANNEL0 s
      in enable_irq PIT_IRQ_NUM s)"

text \<open>The jump to \<open>context_switch\<close> of \<open>linkage.S\<close>: interrupts on, and \<open>iret\<close> to the address with
  the user stack.\<close>

definition context_switch :: "u32 \<Rightarrow> 'a machine_scheme \<Rightarrow> 'a machine_scheme control" where
  "context_switch ecx s = User_mode ecx (s\<lparr>iflag := True, esp := USER_ESP\<rparr>)"

definition kernel_stack_top :: "int \<Rightarrow> u32" where
  "kernel_stack_top pid = EIGHT_MB - word_of_int (pid - 1) * EIGHT_KB"

definition map_slot :: "'a sched_scheme \<Rightarrow> 'a sched_scheme" where
  "map_slot s =
     (let n = sched_arr s (cur_sched_term s);
          s = s\<lparr>tss_esp0 := kernel_stack_top (sn_process_num n)\<rparr>;
          s = set_page_dir_entry USER_PROG (prog_frame (sn_process_num n)) s;
          frame = (if cur_sched_term s = cur_terminal s then VIDEO_MEM_ADDR else video_buffer n);
          s = (if sn_vid_map n = 1 then set_page_table2_entry USER_VIDEO_MEM frame s else s);
          s = set_page_table1_entry VIDEO_MEM_ADDR frame s
      in s\<lparr>print_terminal := cur_sched_term s\<rparr>)"

definition switch_process :: "'a sched_scheme \<Rightarrow> 'a sched_scheme control" where
  "switch_process s =
     (let s = map_slot s;
          s = upd_sched (prev_sched_term s) (\<lambda>n. n\<lparr>sn_esp := esp s, sn_ebp := ebp s\<rparr>) s;
          n = sched_arr s (cur_sched_term s)
      in if sn_esp n = - 1 then context_switch (program_addr_test s) (enable_irq PIT_IRQ_NUM s)
         else Return (s\<lparr>esp := sn_esp n, ebp := sn_ebp n\<rparr>))"

definition pit_interrupt_handler :: "'a sched_scheme \<Rightarrow> 'a sched_scheme control" where
  "pit_interrupt_handler s =
     (let (flags, s) = cli_and_save s;
          s = s\<lparr>pit_flags := (pit_flags s)(esp s := flags)\<rparr>;
          s = disable_irq PIT_IRQ_NUM s;
          s = send_eoi PIT_IRQ_NUM s
      in if prev_sched_term s = - 1
         then Return (restore_flags (pit_flags s (esp s)) (enable_irq PIT_IRQ_NUM s))
         else
           let s = s\<lparr>prev_sched_term := cur_sched_term s\<rparr>;
               s = s\<lparr>cur_sched_term := (cur_sched_term s + 1) mod SCHED_SIZE\<rparr>
           in case switch_process s of
                User_mode a s \<Rightarrow> User_mode a s
              | Return s \<Rightarrow>
                  Return (restore_flags (pit_flags s (esp s)) (enable_irq PIT_IRQ_NUM s)))"

section \<open>One tick\<close>

definition next_slot :: "int \<Rightarrow> int" where
  "next_slot k = (k + 1) mod SCHED_SIZE"

lemma next_slot_simps [simp]: "next_slot 0 = 1" "next_slot 1 = 2" "next_slot 2 = 0"
  by (simp_all add: next_slot_def)

lemma next_slot: "term_no k \<Longrightarrow> term_no (next_slot k)" "term_no k \<Longrightarrow> next_slot k \<noteq> k"
  "term_no k \<Longrightarrow> next_slot (next_slot (next_slot k)) = k"
  "term_no k \<Longrightarrow> next_slot (next_slot k) \<noteq> k"
  by (erule term_no_cases; simp add: term_no_def)+

text \<open>The frame the video page of the slot must map to.\<close>

definition slot_frame :: "'a sched_scheme \<Rightarrow> int \<Rightarrow> addr" where
  "slot_frame s k = (if k = cur_terminal s then VIDEO_MEM_ADDR else video_buffer (sched_arr s k))"

lemma map_slot_eq:
  fixes s :: "'a sched_scheme"
  defines "c \<equiv> cur_sched_term s"
  defines "n \<equiv> sched_arr s c"
  shows "map_slot s =
    s\<lparr>print_terminal := c, tss_esp0 := kernel_stack_top (sn_process_num n),
      page_directory := (page_directory s)(32 := prog_frame (sn_process_num n) OR 0x087),
      first_page_table := (first_page_table s)(184 := slot_frame s c OR USER_MODE),
      second_page_table := (if sn_vid_map n = 1
        then (second_page_table s)(256 := slot_frame s c OR USER_MODE) else second_page_table s)\<rparr>"
  unfolding map_slot_def Let_def slot_frame_def n_def c_def
  by (intro sched.equality)
    (simp_all add: set_page_dir_entry_def set_page_table1_entry_def set_page_table2_entry_def)

lemma pit_irq_ops:
  "enable_irq 0 s = s\<lparr>master_mask := master_mask s AND NOT 1, ports := (0x21, master_mask s AND NOT 1) # ports s\<rparr>"
  "disable_irq 0 s = s\<lparr>master_mask := master_mask s OR 1, ports := (0x21, master_mask s OR 1) # ports s\<rparr>"
  "send_eoi 0 s = s\<lparr>ports := (0x20, 0x60) # ports s\<rparr>"
  by (simp_all add: enable_irq_def disable_irq_def send_eoi_def outb_def Let_def mask_tab_def)

definition ticked :: "'a sched_scheme \<Rightarrow> 'a sched_scheme" where
  "ticked s =
     (let c = next_slot (cur_sched_term s); n = sched_arr s c in
      s\<lparr>ports := (0x21, (master_mask s OR 1) AND NOT 1) # (0x20, 0x60) # (0x21, master_mask s OR 1) # ports s,
        master_mask := (master_mask s OR 1) AND NOT 1, prev_sched_term := cur_sched_term s,
        cur_sched_term := c, print_terminal := c, tss_esp0 := kernel_stack_top (sn_process_num n),
        page_directory := (page_directory s)(32 := prog_frame (sn_process_num n) OR 0x087),
        first_page_table := (first_page_table s)(184 := slot_frame s c OR USER_MODE),
        second_page_table := (if sn_vid_map n = 1
          then (second_page_table s)(256 := slot_frame s c OR USER_MODE) else second_page_table s),
        pit_flags := (pit_flags s)(esp s := iflag s),
        sched_arr := (sched_arr s)(cur_sched_term s :=
          (sched_arr s (cur_sched_term s))\<lparr>sn_esp := esp s, sn_ebp := ebp s\<rparr>)\<rparr>)"

lemma pit_handler_eq:
  fixes s :: "'a sched_scheme"
  assumes "prev_sched_term s \<noteq> - 1" and "term_no (cur_sched_term s)"
  defines "n \<equiv> sched_arr s (next_slot (cur_sched_term s))"
  shows "pit_interrupt_handler s =
    (if sn_esp n = - 1
     then User_mode (program_addr_test s) ((ticked s)\<lparr>iflag := True, esp := USER_ESP\<rparr>)
     else Return ((ticked s)\<lparr>esp := sn_esp n, ebp := sn_ebp n,
            iflag := pit_flags (ticked s) (sn_esp n)\<rparr>))"
proof -
  define c where "c = next_slot (cur_sched_term s)"
  have c: "(cur_sched_term s + 1) mod 3 = c" by (simp add: c_def next_slot_def)
  have ne: "c \<noteq> cur_sched_term s" using assms(2) by (simp add: c_def next_slot)
  show ?thesis
    using assms(1) ne unfolding n_def c_def [symmetric]
    by (cases "sn_esp (sched_arr s c) = - 1")
      (auto simp: pit_interrupt_handler_def cli_and_save_def cli_def restore_flags_def pit_irq_ops
        switch_process_def map_slot_eq upd_sched_def c context_switch_def ticked_def Let_def
        c_def [symmetric] slot_frame_def intro!: sched.equality)
qed

lemma pit_tick:
  fixes s :: "'a sched_scheme"
  assumes "prev_sched_term s \<noteq> - 1" and "term_no (cur_sched_term s)"
  defines "c \<equiv> next_slot (cur_sched_term s)"
  defines "n \<equiv> sched_arr s c"
  defines "s' \<equiv> final (pit_interrupt_handler s)"
  shows "cur_sched_term s' = c" "prev_sched_term s' = cur_sched_term s" "print_terminal s' = c"
    "sched_arr s' = (sched_arr s)(cur_sched_term s :=
       (sched_arr s (cur_sched_term s))\<lparr>sn_esp := esp s, sn_ebp := ebp s\<rparr>)"
    "page_directory s' = (page_directory s)(32 := prog_frame (sn_process_num n) OR 0x087)"
    "first_page_table s' = (first_page_table s)(184 := slot_frame s c OR USER_MODE)"
    "second_page_table s' = (if sn_vid_map n = 1
       then (second_page_table s)(256 := slot_frame s c OR USER_MODE) else second_page_table s)"
    "tss_esp0 s' = kernel_stack_top (sn_process_num n)"
    "pmem s' = pmem s" "terminals s' = terminals s" "cur_terminal s' = cur_terminal s"
    "fault s' = fault s" "pit_flags s' = (pit_flags s)(esp s := iflag s)"
    "program_addr_test s' = program_addr_test s"
    "sn_esp n \<noteq> - 1 \<Longrightarrow> esp s' = sn_esp n" "sn_esp n \<noteq> - 1 \<Longrightarrow> ebp s' = sn_ebp n"
    "sn_esp n \<noteq> - 1 \<Longrightarrow> iflag s' = pit_flags s' (sn_esp n)"
    "sn_esp n \<noteq> - 1 \<Longrightarrow> pit_interrupt_handler s = Return s'"
    "sn_esp n = - 1 \<Longrightarrow> pit_interrupt_handler s = User_mode (program_addr_test s) s' \<and>
       iflag s' \<and> esp s' = USER_ESP"
proof -
  show
    "cur_sched_term s' = c" "prev_sched_term s' = cur_sched_term s" "print_terminal s' = c"
    "sched_arr s' = (sched_arr s)(cur_sched_term s :=
       (sched_arr s (cur_sched_term s))\<lparr>sn_esp := esp s, sn_ebp := ebp s\<rparr>)"
    "page_directory s' = (page_directory s)(32 := prog_frame (sn_process_num n) OR 0x087)"
    "first_page_table s' = (first_page_table s)(184 := slot_frame s c OR USER_MODE)"
    "second_page_table s' = (if sn_vid_map n = 1
       then (second_page_table s)(256 := slot_frame s c OR USER_MODE) else second_page_table s)"
    "tss_esp0 s' = kernel_stack_top (sn_process_num n)"
    "pmem s' = pmem s" "terminals s' = terminals s" "cur_terminal s' = cur_terminal s"
    "fault s' = fault s" "pit_flags s' = (pit_flags s)(esp s := iflag s)"
    "program_addr_test s' = program_addr_test s"
    "sn_esp n \<noteq> - 1 \<Longrightarrow> esp s' = sn_esp n" "sn_esp n \<noteq> - 1 \<Longrightarrow> ebp s' = sn_ebp n"
    "sn_esp n \<noteq> - 1 \<Longrightarrow> iflag s' = pit_flags s' (sn_esp n)"
    "sn_esp n \<noteq> - 1 \<Longrightarrow> pit_interrupt_handler s = Return s'"
    "sn_esp n = - 1 \<Longrightarrow> pit_interrupt_handler s = User_mode (program_addr_test s) s' \<and>
       iflag s' \<and> esp s' = USER_ESP"
    unfolding s'_def using pit_handler_eq [OF assms(1,2)]
    by (simp_all add: Let_def ticked_def n_def c_def)
qed


section \<open>Invariants\<close>

text \<open>The slots agree with the terminals, and every slot runs a process number in range.\<close>

definition slots_ok :: "'a sched_scheme \<Rightarrow> bool" where
  "slots_ok s \<longleftrightarrow>
     (\<forall>k. term_no k \<longrightarrow>
        video_buffer (sched_arr s k) = vid_mem (terminals s k) \<and>
        1 \<le> sn_process_num (sched_arr s k) \<and> sn_process_num (sched_arr s k) \<le> 6)"

definition sched_inv :: "'a sched_scheme \<Rightarrow> bool" where
  "sched_inv s \<longleftrightarrow> console_inv s \<and> buffers_ok s \<and> term_no (cur_sched_term s) \<and> slots_ok s"

text \<open>The running process prints on its own terminal: the printing terminal is the scheduled
  one and the video page maps to what that terminal shows.\<close>

definition display_ok :: "'a sched_scheme \<Rightarrow> bool" where
  "display_ok s \<longleftrightarrow> print_terminal s = cur_sched_term s \<and> vframe s = screen_of s (cur_sched_term s)"

text \<open>The user's view of the running process: its program page is its own frame.\<close>

definition runs_process :: "'a sched_scheme \<Rightarrow> int \<Rightarrow> bool" where
  "runs_process s pid \<longleftrightarrow>
     page_directory s 32 = prog_frame pid OR 0x087 \<and> tss_esp0 s = kernel_stack_top pid"

lemma translate_frame_sched [simp]:
  "translate u (s\<lparr>iflag := b\<rparr>) = translate u s" "translate u (s\<lparr>esp := e\<rparr>) = translate u s"
  "translate u (s\<lparr>ebp := e\<rparr>) = translate u s"
  by (simp_all add: fun_eq_iff translate_def table_at_def Let_def)

lemma low_translate_same:
  assumes "paging_wf s" "paging_wf t" "drop_bit 22 a = 0" "drop_bit 12 a \<noteq> 0xB8"
    and "\<And>k. k \<noteq> 184 \<Longrightarrow> first_page_table t k = first_page_table s k"
  shows "translate False t a = translate False s a"
proof -
  have "uint (drop_bit 12 a) \<noteq> 184" using assms(4) by (simp add: word_uint_eq_iff)
  then show ?thesis using assms by (simp add: translate_low Let_def)
qed

lemma buffers_ok_same:
  assumes "buffers_ok s" "paging_wf s" "paging_wf t" "terminals t = terminals s"
    and "\<And>k. k \<noteq> 184 \<Longrightarrow> first_page_table t k = first_page_table s k"
  shows "buffers_ok t"
  unfolding buffers_ok_def
proof (intro allI impI conjI)
  fix k assume k: "term_no k"
  then show v: "vid_mem (terminals t k) = 0xB9000 + word_of_int k * PAGE_SIZE"
    using assms(1,4) by (simp add: buffers_ok_def)
  have "drop_bit 22 (vid_mem (terminals t k)) = 0" "drop_bit 12 (vid_mem (terminals t k)) \<noteq> 0xB8"
    using k v by (auto elim!: term_no_cases)
  then have "translate False t (vid_mem (terminals t k)) = translate False s (vid_mem (terminals t k))"
    using assms(5) by (intro low_translate_same [OF assms(2,3)])
  then show "translate False t (vid_mem (terminals t k)) = Some (vid_mem (terminals t k))"
    using buffer_page(3) [OF assms(1) k] by (simp only: assms(4))
qed

lemma screen_page_frame:
  "p \<in> screen_pages \<Longrightarrow> push_bit 12 (drop_bit 12 (p OR USER_MODE)) = p"
  by (auto simp: screen_pages_def)

lemma screen_of_page:
  "buffers_ok s \<Longrightarrow> term_no k \<Longrightarrow> screen_of s k \<in> screen_pages"
  by (simp add: screen_of_def buffer_page)

lemma slot_frame_screen: "slots_ok s \<Longrightarrow> term_no k \<Longrightarrow> slot_frame s k = screen_of s k"
  by (simp add: slot_frame_def screen_of_def slots_ok_def)

lemma tick_inv:
  assumes "sched_inv s" "prev_sched_term s \<noteq> - 1"
  defines "s' \<equiv> final (pit_interrupt_handler s)"
  shows "sched_inv s'" "display_ok s'"
    "runs_process s' (sn_process_num (sched_arr s' (cur_sched_term s')))"
proof -
  have ti: "term_no (cur_sched_term s)" and inv: "console_inv s" "buffers_ok s" "slots_ok s"
    using assms(1) by (simp_all add: sched_inv_def)
  note tick = pit_tick(1-12) [OF assms(2) ti, folded s'_def]
  note c = next_slot [OF ti]
  have wf: "paging_wf s" using inv(1) by (simp add: console_inv_def video_ok_def)
  have cr: "cr0 s' = cr0 s" "cr3 s' = cr3 s" "cr4 s' = cr4 s" "page_directory_addr s' = page_directory_addr s"
    "first_page_table_addr s' = first_page_table_addr s" "second_page_table_addr s' = second_page_table_addr s"
    unfolding s'_def using pit_handler_eq [OF assms(2) ti] by (simp_all add: ticked_def Let_def)
  have wf': "paging_wf s'"
    using wf unfolding paging_wf_def paging_on_def cr tick(5) by (simp add: bit_or_iff)
  show "runs_process s' (sn_process_num (sched_arr s' (cur_sched_term s')))"
    using c by (simp add: runs_process_def tick)
  have fr: "first_page_table s' 184 = screen_of s (next_slot (cur_sched_term s)) OR USER_MODE"
    using slot_frame_screen [OF inv(3) c(1)] by (simp add: tick)
  have vf: "vframe s' = screen_of s (next_slot (cur_sched_term s))"
    using screen_page_frame [OF screen_of_page [OF inv(2) c(1)]] by (simp only: vframe_def fr)
  then show "display_ok s'" by (simp add: display_ok_def tick screen_of_def)
  have "video_ok s'" using wf' by (simp add: video_ok_def fr bit_or_iff)
  then have "console_inv s'" using inv(1) c by (simp add: console_inv_def tick)
  moreover have "buffers_ok s'" by (rule buffers_ok_same [OF inv(2) wf wf']) (simp_all add: tick)
  moreover have "slots_ok s'" using inv(3) by (simp add: slots_ok_def tick)
  ultimately show "sched_inv s'" using c by (simp add: sched_inv_def tick)
qed

lemma screens_apart:
  assumes "q \<in> screen_pages" "f \<in> screen_pages" "i < PAGE_SIZE" "q \<noteq> f"
  shows "4000 \<le> q + i - f"
  using assms unfolding screen_pages_def by (elim insertE emptyE; simp; unat_arith)

lemma screens_distinct:
  "buffers_ok s \<Longrightarrow> term_no j \<Longrightarrow> term_no k \<Longrightarrow> screen_of s j = screen_of s k \<longleftrightarrow> j = k"
  using buffer_page(2) [of s j] buffer_page(2) [of s k] buffer_page(4) [of s j k]
  by (auto simp: screen_of_def)

text \<open>Printing on the scheduled terminal does not show on another one.\<close>

lemma other_screens:
  assumes "prints_only s s'" "sched_inv s" "display_ok s" "term_no k" "k \<noteq> cur_sched_term s" "i < PAGE_SIZE"
  shows "shown s' k i = shown s k i"
proof -
  obtain m q l x y where o: "same_outside (vframe s) (pmem s) m"
    and s': "s' = s\<lparr>pmem := m, ports := q, current_line := l, terminals := (terminals s)
      (print_terminal s := (terminals s (print_terminal s))\<lparr>scr_x := x, scr_y := y\<rparr>)\<rparr>"
    using assms(1) unfolding prints_only_def by blast
  have b: "buffers_ok s" and c: "term_no (cur_sched_term s)"
    using assms(2) by (simp_all add: sched_inv_def)
  have "4000 \<le> screen_of s k + i - vframe s"
    using screens_apart [OF screen_of_page [OF b assms(4)] screen_of_page [OF b c] assms(6)]
      screens_distinct [OF b assms(4) c] assms(3,5) by (simp add: display_ok_def)
  then have "m (screen_of s k + i) = pmem s (screen_of s k + i)"
    using o by (simp add: same_outside_def)
  moreover have "screen_of s' k = screen_of s k" by (simp add: s' screen_of_def)
  ultimately show ?thesis by (simp add: shown_def s')
qed

section \<open>Round robin\<close>

text \<open>A run of the machine as the scheduler sees it: timer ticks, and between them any activity
  that leaves the scheduled slot alone.\<close>

datatype 's event = Tick | Act "'s \<Rightarrow> 's"

primrec run_event :: "('s \<Rightarrow> 's) \<Rightarrow> 's event \<Rightarrow> 's \<Rightarrow> 's" where
  "run_event tick Tick s = tick s"
| "run_event tick (Act f) s = f s"

primrec ticks :: "'s event list \<Rightarrow> nat" where
  "ticks [] = 0"
| "ticks (e # es) = (case e of Tick \<Rightarrow> 1 | Act _ \<Rightarrow> 0) + ticks es"

definition quiet :: "('s \<Rightarrow> bool) \<Rightarrow> ('s \<Rightarrow> int) \<Rightarrow> 's event \<Rightarrow> bool" where
  "quiet ok current e \<longleftrightarrow>
     (\<forall>f. e = Act f \<longrightarrow> (\<forall>s. ok s \<longrightarrow> ok (f s) \<and> current (f s) = current s))"

locale round_robin =
  fixes tick :: "'s \<Rightarrow> 's"
    and current :: "'s \<Rightarrow> int"
    and inv :: "'s \<Rightarrow> bool"
  assumes current_range: "inv s \<Longrightarrow> term_no (current s)"
    and current_tick: "inv s \<Longrightarrow> current (tick s) = next_slot (current s)"
    and inv_tick: "inv s \<Longrightarrow> inv (tick s)"
begin

lemma run_position:
  "(\<forall>e \<in> set es. quiet inv current e) \<Longrightarrow> inv s \<Longrightarrow>
   current (fold (run_event tick) es s) = (current s + int (ticks es)) mod 3"
proof (induction es arbitrary: s)
  case Nil
  then show ?case using current_range by (fastforce simp: term_no_def)
next
  case (Cons e es)
  then show ?case
    by (cases e) (auto simp: inv_tick current_tick next_slot_def quiet_def mod_simps algebra_simps)
qed

text \<open>Every slot gets its turn within any three consecutive ticks.\<close>

lemma run_fair:
  assumes "\<forall>e \<in> set es. quiet inv current e" "inv s" "term_no k" "2 \<le> ticks es"
  shows "\<exists>m \<le> length es. current (fold (run_event tick) (take m es) s) = k"
proof -
  define d where "d = nat ((k - current s) mod 3)"
  have "d \<le> ticks es" using assms(4) unfolding d_def by linarith
  have prefix: "\<exists>m \<le> length es. ticks (take m es) = d" if "d \<le> ticks es" for d and es :: "'s event list"
    using that
  proof (induction es arbitrary: d)
    case Nil
    then show ?case by simp
  next
    case (Cons e es)
    show ?case
    proof (cases d)
      case 0
      then show ?thesis by (intro exI [of _ 0]) simp
    next
      case (Suc d')
      define d1 where "d1 = d - (case e of Tick \<Rightarrow> 1 | Act _ \<Rightarrow> 0)"
      have "d1 \<le> ticks es" using Cons.prems Suc by (auto simp: d1_def split: event.splits)
      from Cons.IH [OF this] obtain m where "m \<le> length es" "ticks (take m es) = d1" by blast
      then show ?thesis using Suc
        by (intro exI [of _ "Suc m"]) (auto simp: d1_def split: event.splits)
    qed
  qed
  from prefix [OF \<open>d \<le> ticks es\<close>] obtain m where m: "m \<le> length es" "ticks (take m es) = d" by blast
  have "(current s + int d) mod 3 = k"
    using assms(3) by (simp add: d_def term_no_def mod_simps)
  moreover have "\<forall>e \<in> set (take m es). quiet inv current e"
    using assms(1) by (meson in_set_takeD)
  ultimately show ?thesis
    using m assms(2) by (intro exI [of _ m]) (simp add: run_position)
qed

end

definition pit_tick_state :: "'a sched_scheme \<Rightarrow> 'a sched_scheme" where
  "pit_tick_state s = final (pit_interrupt_handler s)"

definition scheduling :: "'a sched_scheme \<Rightarrow> bool" where
  "scheduling s \<longleftrightarrow> sched_inv s \<and> prev_sched_term s \<noteq> - 1"

interpretation pit: round_robin pit_tick_state cur_sched_term scheduling
proof
  fix s :: "'a sched_scheme" assume s: "scheduling s"
  then show ti: "term_no (cur_sched_term s)" by (simp add: scheduling_def sched_inv_def)
  show "cur_sched_term (pit_tick_state s) = next_slot (cur_sched_term s)"
    using s ti by (simp add: scheduling_def pit_tick_state_def pit_tick)
  have "cur_sched_term s \<noteq> - 1" using ti by (simp add: term_no_def)
  then show "scheduling (pit_tick_state s)"
    using s ti tick_inv [of s] by (simp add: scheduling_def pit_tick_state_def pit_tick)
qed


section \<open>The scheduler after the boot\<close>

lemma pit_init_slots:
  "sched_arr (pit_init s) =
   (sched_arr s)
     (0 := (sched_arr s 0)\<lparr>sn_process_num := 1, video_buffer := FIRST_SHELL, sn_vid_map := 0,
         sn_esp := EIGHT_MB, sn_ebp := EIGHT_MB\<rparr>,
      1 := (sched_arr s 1)\<lparr>sn_process_num := 2, video_buffer := SECOND_SHELL, sn_vid_map := 0,
         sn_esp := - 1, sn_ebp := - 1\<rparr>,
      2 := (sched_arr s 2)\<lparr>sn_process_num := 3, video_buffer := THIRD_SHELL, sn_vid_map := 0,
         sn_esp := - 1, sn_ebp := - 1\<rparr>)"
  by (simp add: pit_init_def Let_def upd_sched_def outb_def pit_irq_ops)

lemma pit_init_frame:
  obtains q m a where "pit_init s = s\<lparr>sched_arr := a, master_mask := m, ports := q\<rparr>"
  by (simp add: pit_init_def Let_def upd_sched_def outb_def pit_irq_ops)

lemma buffers_ok_frame [simp]:
  "buffers_ok (s\<lparr>sched_arr := a\<rparr>) = buffers_ok s" "buffers_ok (s\<lparr>ports := q\<rparr>) = buffers_ok s"
  "buffers_ok (s\<lparr>master_mask := m\<rparr>) = buffers_ok s" "buffers_ok (s\<lparr>prev_sched_term := p\<rparr>) = buffers_ok s"
  "buffers_ok (s\<lparr>esp := e\<rparr>) = buffers_ok s"
  by (simp_all add: buffers_ok_def translate_def table_at_def Let_def)

lemma console_inv_frame [simp]:
  "console_inv (s\<lparr>sched_arr := a\<rparr>) = console_inv s" "console_inv (s\<lparr>ports := q\<rparr>) = console_inv s"
  "console_inv (s\<lparr>master_mask := m\<rparr>) = console_inv s" "console_inv (s\<lparr>prev_sched_term := p\<rparr>) = console_inv s"
  "console_inv (s\<lparr>esp := e\<rparr>) = console_inv s"
  by (simp_all add: console_inv_def video_ok_def paging_wf_def paging_on_def)

lemma sched_boot:
  assumes "tables_placed s" "\<not> fault s" "term_no (cur_terminal s)" "term_no (print_terminal s)"
    "term_no (cur_sched_term s)"
  shows "sched_inv (pit_init (init_shell (init_paging s)))"
proof -
  define t where "t = init_shell (init_paging s)"
  note b = console_boot [OF assms(1-4), folded t_def]
  have c: "cur_sched_term t = cur_sched_term s"
    by (simp add: t_def init_shell_def upd_term_def init_paging_def enable_paging_def
        init_page_table_def init_page_directory_def)
  obtain q m a where p: "pit_init t = t\<lparr>sched_arr := a, master_mask := m, ports := q\<rparr>"
    by (rule pit_init_frame)
  have "slots_ok (pit_init t)"
    unfolding slots_ok_def pit_init_slots
    using b(2) by (auto simp: p buffers_ok_def elim!: term_no_cases)
  then show ?thesis
    unfolding t_def [symmetric] using b assms(5) by (simp add: sched_inv_def p c)
qed

definition sched0 :: sched where
  "sched0 = \<lparr>pmem = (\<lambda>_. 0), ports = [], iflag = False, esp = 0, ebp = 0, fault = False,
     master_mask = 0, slave_mask = 0, page_directory = (\<lambda>_. 0), first_page_table = (\<lambda>_. 0),
     second_page_table = (\<lambda>_. 0), page_directory_addr = 0x410000,
     first_page_table_addr = 0x411000, second_page_table_addr = 0x412000,
     cr0 = 0, cr3 = 0, cr4 = 0, terminals = terminals console0,
     cur_terminal = 0, print_terminal = 0, current_line = 0,
     sched_arr = (\<lambda>_. \<lparr>sn_process_num = 0, video_buffer = 0, sn_vid_map = 0, sn_esp = 0, sn_ebp = 0\<rparr>),
     cur_sched_term = 0, prev_sched_term = - 1, tss_esp0 = 0, tss_ss0 = 0, program_addr_test = 0,
     pit_flags = (\<lambda>_. False)\<rparr>"

definition sched1 :: sched where
  "sched1 = (pit_init (init_shell (init_paging sched0)))\<lparr>prev_sched_term := 0, esp := 0x7FFF00\<rparr>"

lemma scheduling1: "scheduling sched1"
  unfolding sched1_def scheduling_def sched_inv_def
  using sched_boot [of sched0]
  by (simp add: sched0_def tables_placed_def term_no_def sched_inv_def slots_ok_def)

lemma cur_sched1: "cur_sched_term sched1 = 0"
  unfolding sched1_def
  by (simp add: pit_init_def Let_def upd_sched_def outb_def pit_irq_ops init_shell_def upd_term_def
      init_paging_def enable_paging_def init_page_table_def init_page_directory_def sched0_def)

section \<open>Properties\<close>

lemma fun_upd_back: "a \<noteq> b \<Longrightarrow> f(a := x, b := f b) = f(a := x)"
  by auto

lemma program_page:
  assumes "paging_wf s" "page_directory s 32 = prog_frame p OR 0x087" "1 \<le> p" "p \<le> 6"
    and "drop_bit 22 a = 32"
  shows "translate u s a = Some (prog_frame p + take_bit 22 a)"
  using translate_user_page [OF assms(1,2,5)] page_join_frame [OF assms(3,4)] by simp



text \<open>C29: Fairness. In any run of ticks and activity that keeps the scheduling invariant and the
  scheduled slot, once two ticks have passed every terminal has been the scheduled one.\<close>

theorem scheduler_fair:
  assumes "\<forall>e \<in> set es. quiet scheduling cur_sched_term e" and "scheduling s"
    and "term_no k" and "2 \<le> ticks es"
  shows "\<exists>m \<le> length es. cur_sched_term (fold (run_event pit_tick_state) (take m es) s) = k"
  using assms by (rule pit.run_fair)

definition demo_run :: "sched event list" where
  "demo_run = [Tick, Act (\<lambda>s. s\<lparr>esp := 4\<rparr>), Tick]"

theorem scheduler_fair_witness:
  "\<exists>m \<le> length demo_run. cur_sched_term (fold (run_event pit_tick_state) (take m demo_run) sched1) = 2"
proof (rule scheduler_fair)
  show "\<forall>e \<in> set demo_run. quiet scheduling cur_sched_term e"
    by (auto simp: demo_run_def quiet_def scheduling_def sched_inv_def slots_ok_def)
qed (simp_all add: demo_run_def scheduling1 term_no_def)

text \<open>C25: A full rotation resumes a process exactly. When the three slots have run and have
  different stacks, three ticks in a row return with the stack registers and the interrupt flag
  the process had, its slot scheduled again, memory and terminals as they were, and nothing in
  the slots changed but the registers saved for its own.\<close>

theorem rotation_resumes:
  fixes s :: "'a sched_scheme"
  assumes "scheduling s"
  defines "k1 \<equiv> next_slot (cur_sched_term s)"
  defines "k2 \<equiv> next_slot (next_slot (cur_sched_term s))"
  assumes "distinct [- 1, esp s, sn_esp (sched_arr s k1), sn_esp (sched_arr s k2)]"
  defines "s' \<equiv> pit_tick_state (pit_tick_state (pit_tick_state s))"
  shows "esp s' = esp s \<and> ebp s' = ebp s \<and> iflag s' = iflag s \<and>
    cur_sched_term s' = cur_sched_term s \<and> pmem s' = pmem s \<and> terminals s' = terminals s \<and>
    sched_arr s' = (sched_arr s)(cur_sched_term s :=
      (sched_arr s (cur_sched_term s))\<lparr>sn_esp := esp s, sn_ebp := ebp s\<rparr>)"
proof -
  define s1 where "s1 = pit_tick_state s"
  define s2 where "s2 = pit_tick_state s1"
  have r: "scheduling s" "scheduling s1" "scheduling s2"
    using assms(1) by (simp_all add: s1_def s2_def pit.inv_tick)
  have p: "prev_sched_term s \<noteq> - 1" "prev_sched_term s1 \<noteq> - 1" "prev_sched_term s2 \<noteq> - 1"
    using r by (simp_all add: scheduling_def)
  note t1 = pit_tick [OF p(1) pit.current_range [OF r(1)], folded pit_tick_state_def s1_def]
  note t2 = pit_tick [OF p(2) pit.current_range [OF r(2)], folded pit_tick_state_def s2_def]
  note t3 = pit_tick [OF p(3) pit.current_range [OF r(3)], folded pit_tick_state_def]
  have k: "term_no (cur_sched_term s)" by (rule pit.current_range [OF r(1)])
  note d = next_slot [OF k] next_slot [OF next_slot(1) [OF k]]
  have s': "s' = pit_tick_state s2" by (simp add: s'_def s1_def s2_def)
  have e: "sn_esp (sched_arr s k1) \<noteq> - 1" "sn_esp (sched_arr s k2) \<noteq> - 1" "esp s \<noteq> - 1"
    "sn_esp (sched_arr s k1) \<noteq> esp s" "sn_esp (sched_arr s k2) \<noteq> esp s"
    using assms(4) by auto
  have 1: "cur_sched_term s1 = k1" "esp s1 = sn_esp (sched_arr s k1)" "ebp s1 = sn_ebp (sched_arr s k1)"
    "sched_arr s1 = (sched_arr s)(cur_sched_term s :=
      (sched_arr s (cur_sched_term s))\<lparr>sn_esp := esp s, sn_ebp := ebp s\<rparr>)"
    "pit_flags s1 = (pit_flags s)(esp s := iflag s)" "pmem s1 = pmem s" "terminals s1 = terminals s"
    using t1 e(1) by (simp_all add: k1_def)
  have k12: "next_slot k1 = k2" "next_slot k2 = cur_sched_term s" "k1 \<noteq> cur_sched_term s"
    "k2 \<noteq> cur_sched_term s" "k2 \<noteq> k1"
    using d by (simp_all add: k1_def k2_def)
  have 2: "cur_sched_term s2 = k2" "esp s2 = sn_esp (sched_arr s k2)" "ebp s2 = sn_ebp (sched_arr s k2)"
    "sched_arr s2 = sched_arr s1" "pmem s2 = pmem s" "terminals s2 = terminals s"
    "pit_flags s2 (esp s) = iflag s"
    using t2(1,4,9,10,13,15,16) e k12 by (simp_all add: 1 fun_upd_back)
  show ?thesis
    unfolding s' using t3(1,4,9,10,13,15-17) e k12
    by (simp add: 1 2 fun_upd_back)
qed


theorem rotation_resumes_witness:
  "esp (pit_tick_state (pit_tick_state (pit_tick_state
     (sched1\<lparr>sched_arr := \<lambda>k. (sched_arr sched1 k)\<lparr>sn_esp := word_of_int (0x700000 + k)\<rparr>\<rparr>)))) = 0x7FFF00"
proof -
  define s where "s = sched1\<lparr>sched_arr := \<lambda>k. (sched_arr sched1 k)\<lparr>sn_esp := word_of_int (0x700000 + k)\<rparr>\<rparr>"
  have "scheduling s"
    using scheduling1 by (simp add: s_def scheduling_def sched_inv_def slots_ok_def)
  moreover have "cur_sched_term s = 0" "esp s = 0x7FFF00"
    by (simp_all add: s_def cur_sched1) (simp add: sched1_def)
  ultimately show ?thesis
    using rotation_resumes [of s] by (simp add: s_def)
qed

end
