(* ===== verification/Keyboard.thy ===== *)
theory Keyboard
  imports Scheduler
begin

text \<open>
  The keyboard and terminal driver, \<open>student-distrib/kb.c\<close>: the scan code table, the line
  editor that runs in the keyboard interrupt, and the terminal's \<open>open\<close>, \<open>close\<close>, \<open>read\<close>
  and \<open>write\<close>.
\<close>

section \<open>State and tables\<close>

text \<open>The global \<open>flags\<close> of \<open>kb.c\<close>, shared by the interrupt handler and \<open>terminal_write\<close>.\<close>

record kb = sched +
  kb_flags :: bool

abbreviation (input) IRQ_NUM :: u32 where "IRQ_NUM \<equiv> 1"
abbreviation (input) RECENT_RELEASE :: u8 where "RECENT_RELEASE \<equiv> 0x80"
abbreviation (input) LEFT_SHIFT :: u8 where "LEFT_SHIFT \<equiv> 42"
abbreviation (input) RIGHT_SHIFT :: u8 where "RIGHT_SHIFT \<equiv> 54"
abbreviation (input) CAPS_LOCK :: u8 where "CAPS_LOCK \<equiv> 58"
abbreviation (input) NEW_LINE :: u8 where "NEW_LINE \<equiv> 28"
abbreviation (input) BACK_SPACE :: u8 where "BACK_SPACE \<equiv> 14"
abbreviation (input) CTRL :: u8 where "CTRL \<equiv> 29"
abbreviation (input) L_CHAR :: u8 where "L_CHAR \<equiv> 38"
abbreviation (input) Q_CHAR :: u8 where "Q_CHAR \<equiv> 16"
abbreviation (input) P_CHAR :: u8 where "P_CHAR \<equiv> 25"
abbreviation (input) A_CHAR :: u8 where "A_CHAR \<equiv> 30"
abbreviation (input) Z_CHAR :: u8 where "Z_CHAR \<equiv> 44"
abbreviation (input) M_CHAR :: u8 where "M_CHAR \<equiv> 50"
abbreviation (input) F1_CHAR :: u8 where "F1_CHAR \<equiv> 59"
abbreviation (input) F2_CHAR :: u8 where "F2_CHAR \<equiv> 60"
abbreviation (input) F3_CHAR :: u8 where "F3_CHAR \<equiv> 61"
abbreviation (input) CAP_OFFSET :: u8 where "CAP_OFFSET \<equiv> 90"
abbreviation (input) UP_BOUND :: u8 where "UP_BOUND \<equiv> 128"
abbreviation (input) ALT_CHAR :: u8 where "ALT_CHAR \<equiv> 56"
abbreviation (input) ALT_RELEASE :: u8 where "ALT_RELEASE \<equiv> 184"

text \<open>The 180 entries the initialiser gives, 90 plain ones and 90 shifted ones; the remaining
  entries of the 256 are 0.\<close>

definition kbdus_init :: "u8 list" where
  "kbdus_init =
     [0, 27, 49, 50, 51, 52, 53, 54, 55, 56, 57, 48, 45, 61, 8,
      9, 113, 119, 101, 114, 116, 121, 117, 105, 111, 112, 91, 93, 10, 0,
      97, 115, 100, 102, 103, 104, 106, 107, 108, 59, 39, 96, 0, 92, 122,
      120, 99, 118, 98, 110, 109, 44, 46, 47, 0, 42, 0, 32, 0, 0,
      0, 0, 0, 0, 0, 0, 0, 0, 0, 0, 0, 0, 0, 0, 45,
      0, 0, 0, 43, 0, 0, 0, 0, 0, 0, 0, 0, 0, 0, 0,
      0, 27, 33, 64, 35, 36, 37, 94, 38, 42, 40, 41, 95, 43, 8,
      9, 81, 87, 69, 82, 84, 89, 85, 73, 79, 80, 123, 125, 10, 0,
      65, 83, 68, 70, 71, 72, 74, 75, 76, 58, 34, 126, 0, 124, 90,
      88, 67, 86, 66, 78, 77, 60, 62, 63, 0, 42, 0, 32, 0, 0,
      0, 0, 0, 0, 0, 0, 0, 0, 0, 0, 0, 0, 0, 0, 45,
      0, 0, 0, 43, 0, 0, 0, 0, 0, 0, 0, 0, 0, 0, 0]"

definition kbdus :: "u8 \<Rightarrow> u8" where
  "kbdus scan_code = (kbdus_init @ replicate (256 - length kbdus_init) 0) ! unat scan_code"

section \<open>The line editor\<close>

definition the_term :: "'a console_scheme \<Rightarrow> shell" where
  "the_term s = terminals s (cur_terminal s)"

definition caps_and_shift :: "'a console_scheme \<Rightarrow> bool" where
  "caps_and_shift s \<longleftrightarrow> caps_lock (the_term s) = 1 \<and> shift_pressed (the_term s) = 1"

definition caps_no_shift :: "'a console_scheme \<Rightarrow> bool" where
  "caps_no_shift s \<longleftrightarrow> caps_lock (the_term s) = 1 \<and> shift_pressed (the_term s) \<noteq> 1"

definition in_char_range :: "u8 \<Rightarrow> bool" where
  "in_char_range scan_code \<longleftrightarrow>
     (scan_code \<ge> Q_CHAR \<and> scan_code \<le> P_CHAR) \<or> (scan_code \<ge> A_CHAR \<and> scan_code \<le> L_CHAR) \<or>
     (scan_code \<ge> Z_CHAR \<and> scan_code \<le> M_CHAR)"

text \<open>\<open>terminals[cur_terminal].kb_buf[i] = c\<close>; an index outside the array is undefined
  behaviour in C and raises the fault flag here.\<close>

definition kb_store :: "int \<Rightarrow> u8 \<Rightarrow> 'a console_scheme \<Rightarrow> 'a console_scheme" where
  "kb_store i c s =
     (if 0 \<le> i \<and> i < BUF_LENGTH
      then upd_term (cur_terminal s) (\<lambda>t. t\<lparr>kb_buf := (kb_buf t)(i := c)\<rparr>) s
      else raise_fault s)"

definition print_scancode :: "u8 \<Rightarrow> 'a console_scheme \<Rightarrow> 'a console_scheme" where
  "print_scancode scan_code s =
     (if (buf_index (the_term s) \<ge> BUF_LENGTH - 1 \<and> scan_code \<noteq> NEW_LINE) \<or>
         line_buffer_flag (the_term s) \<noteq> 0
      then s
      else
        let s = putc (kbdus scan_code) s;
            s = kb_store (buf_index (the_term s)) (kbdus scan_code) s
        in upd_term (cur_terminal s) (\<lambda>t. t\<lparr>buf_index := buf_index t + 1\<rparr>) s)"

definition reprint :: "'a console_scheme \<Rightarrow> 'a console_scheme" where
  "reprint s =
     fold (\<lambda>i s. if i < BUF_LENGTH then putc (kb_buf (the_term s) i) s else raise_fault s)
       [0..buf_index (the_term s) - 1] s"

definition recent_release_exec :: "u8 \<Rightarrow> 'a console_scheme \<Rightarrow> 'a console_scheme" where
  "recent_release_exec scan_code s =
     (let c = cur_terminal s; t = the_term s in
      if scan_code = CTRL then upd_term c (\<lambda>t. t\<lparr>ctrl_pressed := 1\<rparr>) s
      else if alt_pressed t = 1 \<and> (scan_code = F1_CHAR \<or> scan_code = F2_CHAR \<or> scan_code = F3_CHAR)
      then snd (change_shell
             (if scan_code = F1_CHAR then 0 else if scan_code = F2_CHAR then 1 else 2) s)
      else if scan_code = L_CHAR \<and> ctrl_pressed t = 1 then reprint (reset_screen (clear s))
      else if scan_code = BACK_SPACE
      then (if buf_index t \<le> 0 then s
            else back_space (upd_term c (\<lambda>t. t\<lparr>buf_index := buf_index t - 1\<rparr>) s))
      else if scan_code = ALT_CHAR then upd_term c (\<lambda>t. t\<lparr>alt_pressed := 1\<rparr>) s
      else if scan_code = NEW_LINE
      then upd_term c (\<lambda>t. t\<lparr>line_buffer_flag := 1\<rparr>) (print_scancode scan_code s)
      else if scan_code = LEFT_SHIFT \<or> scan_code = RIGHT_SHIFT
      then upd_term c (\<lambda>t. t\<lparr>shift_pressed := 1\<rparr>) s
      else if scan_code = CAPS_LOCK
      then upd_term c (\<lambda>t. t\<lparr>caps_lock := (caps_lock t + 1) mod 2\<rparr>) s
      else if caps_and_shift s \<and> in_char_range scan_code then print_scancode scan_code s
      else if caps_no_shift s \<and> in_char_range scan_code
      then print_scancode (scan_code + CAP_OFFSET) s
      else if shift_pressed t = 1 then print_scancode (scan_code + CAP_OFFSET) s
      else print_scancode scan_code s)"

definition after_release_exec :: "u8 \<Rightarrow> 'a console_scheme \<Rightarrow> 'a console_scheme" where
  "after_release_exec scan_code s =
     (let c = cur_terminal s in
      if scan_code = LEFT_SHIFT + RECENT_RELEASE \<or> scan_code = RIGHT_SHIFT + RECENT_RELEASE
      then upd_term c (\<lambda>t. t\<lparr>shift_pressed := 0\<rparr>) s
      else if scan_code = CTRL + RECENT_RELEASE then upd_term c (\<lambda>t. t\<lparr>ctrl_pressed := 0\<rparr>) s
      else if scan_code = ALT_RELEASE then upd_term c (\<lambda>t. t\<lparr>alt_pressed := 0\<rparr>) s
      else s)"

section \<open>The interrupt handler\<close>

definition keyboard_init :: "'a pic_scheme \<Rightarrow> 'a pic_scheme" where
  "keyboard_init s = enable_irq IRQ_NUM s"

text \<open>The scan code is the byte \<open>inb(0x60)\<close> returns.\<close>

definition keyboard_interrupt_handler :: "u8 \<Rightarrow> 'a kb_scheme \<Rightarrow> 'a kb_scheme" where
  "keyboard_interrupt_handler scan_code s =
     (let (flags, s) = cli_and_save s;
          s = s\<lparr>kb_flags := flags\<rparr>;
          s = disable_irq IRQ_NUM s;
          s = send_eoi IRQ_NUM s
      in if (scan_code \<ge> CAP_OFFSET \<and> scan_code \<le> UP_BOUND) \<or> scan_code \<ge> CAP_OFFSET + UP_BOUND
         then enable_irq IRQ_NUM (restore_flags (kb_flags s) s)
         else
           let s = s\<lparr>print_terminal := cur_terminal s\<rparr>;
               s = set_page_table1_entry VIDEO_MEM_ADDR VIDEO_MEM_ADDR s;
               s = (if scan_code < RECENT_RELEASE then recent_release_exec scan_code s
                    else after_release_exec scan_code s);
               s = (if cur_sched_term s \<noteq> cur_terminal s
                    then set_page_table1_entry VIDEO_MEM_ADDR
                           (video_buffer (sched_arr s (cur_sched_term s))) s
                    else s);
               s = s\<lparr>print_terminal := cur_sched_term s\<rparr>
           in enable_irq IRQ_NUM (restore_flags (kb_flags s) s))"

section \<open>The terminal as a file\<close>

text \<open>Buffers are virtual addresses; \<open>NULL\<close> is 0. The file name and descriptor are not used.\<close>

definition terminal_open :: "'a console_scheme \<Rightarrow> int \<times> 'a console_scheme" where
  "terminal_open s = (0, upd_term (cur_terminal s) (\<lambda>t. t\<lparr>buf_index := 0\<rparr>) s)"

definition terminal_close :: "'a console_scheme \<Rightarrow> int \<times> 'a console_scheme" where
  "terminal_close s = (0, upd_term (cur_terminal s) (\<lambda>t. t\<lparr>buf_index := 0\<rparr>) s)"

definition write_byte :: "addr \<Rightarrow> int \<Rightarrow> 'a console_scheme \<Rightarrow> 'a console_scheme" where
  "write_byte buf i s =
     (case kload (buf + word_of_int i) s of None \<Rightarrow> raise_fault s | Some c \<Rightarrow> putc c s)"

definition terminal_write :: "addr \<Rightarrow> int \<Rightarrow> 'a kb_scheme \<Rightarrow> int \<times> 'a kb_scheme" where
  "terminal_write buf nbytes s =
     (if buf = 0 \<or> nbytes < 0 then (- 1, s)
      else
        let (flags, s) = cli_and_save s;
            s = s\<lparr>kb_flags := flags\<rparr>;
            s = fold (write_byte buf) [0..nbytes - 1] s
        in (nbytes, restore_flags (kb_flags s) s))"

text \<open>\<open>terminal_read\<close> up to its wait loop, and from the end of that loop on.\<close>

definition terminal_read_start :: "addr \<Rightarrow> int \<Rightarrow> 'a kb_scheme \<Rightarrow> 'a kb_scheme option" where
  "terminal_read_start buf nbytes s =
     (if buf = 0 \<or> nbytes < 0 then None
      else Some (upd_term (cur_sched_term s) (\<lambda>t. t\<lparr>line_buffer_flag := 0\<rparr>) s))"

definition line_ready :: "'a kb_scheme \<Rightarrow> bool" where
  "line_ready s \<longleftrightarrow> line_buffer_flag (terminals s (cur_sched_term s)) \<noteq> 0"

definition terminal_read_finish :: "addr \<Rightarrow> int \<Rightarrow> 'a kb_scheme \<Rightarrow> int \<times> 'a kb_scheme" where
  "terminal_read_finish buf nbytes s =
     (let s = cli s;
          bytes_read = (if nbytes < buf_index (the_term s) then nbytes else buf_index (the_term s));
          s = fold (\<lambda>i s. if i < BUF_LENGTH
                          then kstore (buf + word_of_int i) (kb_buf (the_term s) i) s
                          else raise_fault s) [0..bytes_read - 1] s;
          s = upd_term (cur_terminal s) (\<lambda>t. t\<lparr>buf_index := 0\<rparr>) s
      in (bytes_read, sti s))"

text \<open>The wait loop under a given sequence of keyboard interrupts; \<open>None\<close> when the keys end
  before the line does.\<close>

fun wait_line :: "u8 list \<Rightarrow> 'a kb_scheme \<Rightarrow> (u8 list \<times> 'a kb_scheme) option" where
  "wait_line keys s =
     (if line_ready s then Some (keys, s)
      else case keys of [] \<Rightarrow> None | k # ks \<Rightarrow> wait_line ks (keyboard_interrupt_handler k s))"

definition terminal_read :: "addr \<Rightarrow> int \<Rightarrow> u8 list \<Rightarrow> 'a kb_scheme \<Rightarrow> (int \<times> u8 list \<times> 'a kb_scheme) option" where
  "terminal_read buf nbytes keys s =
     (case terminal_read_start buf nbytes s of
        None \<Rightarrow> Some (- 1, keys, s)
      | Some s \<Rightarrow>
          (case wait_line keys s of
             None \<Rightarrow> None
           | Some (rest, s) \<Rightarrow>
               let (n, s) = terminal_read_finish buf nbytes s in Some (n, rest, s)))"


section \<open>The line and the cursor\<close>

declare wait_line.simps [simp del]

definition pos :: "shell \<Rightarrow> int" where
  "pos t = 80 * scr_y t + scr_x t"

text \<open>The typed line fits its buffer and lies before the cursor.\<close>

definition line_ok :: "shell \<Rightarrow> bool" where
  "line_ok t \<longleftrightarrow> 0 \<le> buf_index t \<and> buf_index t \<le> 128 \<and> buf_index t \<le> pos t"

definition editor_inv :: "'a console_scheme \<Rightarrow> bool" where
  "editor_inv s \<longleftrightarrow> console_inv s \<and> (\<forall>k. term_no k \<longrightarrow> line_ok (terminals s k))"

definition line_of :: "shell \<Rightarrow> u8 list" where
  "line_of t = map (kb_buf t) [0..buf_index t - 1]"

text \<open>What the editor may change: memory, the cursor ports, the terminals, but not where their
  buffers are, and which terminal is viewed.\<close>

definition edit_frame :: "'a console_scheme \<Rightarrow> 'a console_scheme \<Rightarrow> bool" where
  "edit_frame s s' \<longleftrightarrow>
     iflag s' = iflag s \<and> esp s' = esp s \<and> ebp s' = ebp s \<and>
     master_mask s' = master_mask s \<and> slave_mask s' = slave_mask s \<and>
     page_directory s' = page_directory s \<and> first_page_table s' = first_page_table s \<and>
     second_page_table s' = second_page_table s \<and> page_directory_addr s' = page_directory_addr s \<and>
     first_page_table_addr s' = first_page_table_addr s \<and>
     second_page_table_addr s' = second_page_table_addr s \<and>
     cr0 s' = cr0 s \<and> cr3 s' = cr3 s \<and> cr4 s' = cr4 s \<and>
     print_terminal s' = print_terminal s \<and> console.more s' = console.more s \<and>
     (\<forall>k. vid_mem (terminals s' k) = vid_mem (terminals s k))"

lemma edit_frame_refl [simp]: "edit_frame s s"
  by (simp add: edit_frame_def)

lemma edit_frame_trans: "edit_frame s t \<Longrightarrow> edit_frame t u \<Longrightarrow> edit_frame s u"
  by (simp add: edit_frame_def)

lemma edit_frame_prints: "prints_only s s' \<Longrightarrow> edit_frame s s'"
  unfolding prints_only_def edit_frame_def by clarsimp

lemma edit_frame_upd_term:
  "(\<And>t. vid_mem (f t) = vid_mem t) \<Longrightarrow> edit_frame s (upd_term i f s)"
  by (simp add: upd_term_def edit_frame_def)

lemma edit_frame_fault [simp]: "edit_frame s (raise_fault s)"
  by (simp add: raise_fault_def edit_frame_def)

lemma edit_frame_kstore [simp]: "edit_frame s (kstore a c s)"
  by (simp add: kstore_def edit_frame_def raise_fault_def split: option.split)

lemma edit_frame_paging:
  assumes "edit_frame s s'"
  shows "paging_wf s' = paging_wf s" "translate u s' = translate u s" "vframe s' = vframe s"
    "video_ok s' = video_ok s"
  using assms
  by (simp_all add: edit_frame_def paging_wf_def paging_on_def translate_def table_at_def vframe_def
      video_ok_def fun_eq_iff Let_def)

lemma edit_frame_buffers:
  assumes "edit_frame s s'"
  shows "buffers_ok s' = buffers_ok s"
proof -
  have "vid_mem (terminals s' k) = vid_mem (terminals s k)" for k
    using assms by (simp add: edit_frame_def)
  then show ?thesis by (simp only: buffers_ok_def edit_frame_paging [OF assms])
qed

section \<open>Printing one key\<close>

lemma putc_terminals:
  assumes "console_inv s"
  obtains x y where "terminals (putc c s) = (terminals s)(print_terminal s :=
      (terminals s (print_terminal s))\<lparr>scr_x := x, scr_y := y\<rparr>)"
    and "min (pos (terminals s (print_terminal s)) + 1) 1920 \<le> 80 * y + x"
    and "fault (putc c s) = fault s" "cur_terminal (putc c s) = cur_terminal s"
    "print_terminal (putc c s) = print_terminal s"
proof -
  note st = putc_step [OF assms, of c]
  obtain m q l x y where p: "putc c s = s\<lparr>pmem := m, ports := q, current_line := l, terminals := (terminals s)
      (print_terminal s := (terminals s (print_terminal s))\<lparr>scr_x := x, scr_y := y\<rparr>)\<rparr>"
    using st(3) unfolding prints_only_def by blast
  have "on_screen (terminals s (print_terminal s))"
    using assms by (simp add: console_inv_def)
  then have "0 \<le> pos (terminals s (print_terminal s))" by (simp add: pos_def on_screen_def)
  then have "min (pos (terminals s (print_terminal s)) + 1) 1920 \<le> snd (tty_put c (tty_of s))"
    by (auto simp: tty_put_def tty_scroll_def tty_of_def Let_def pos_def)
  also have "\<dots> = 80 * y + x"
    unfolding st(1) [symmetric] p by (simp add: tty_of_def Let_def)
  finally show thesis by (intro that [of y x]) (simp_all add: p)
qed

lemma editor_putc:
  assumes "editor_inv s"
  shows "editor_inv (putc c s)"
proof -
  have i: "console_inv s" using assms by (simp add: editor_inv_def)
  obtain x y where t: "terminals (putc c s) = (terminals s)(print_terminal s :=
      (terminals s (print_terminal s))\<lparr>scr_x := x, scr_y := y\<rparr>)"
    and "min (pos (terminals s (print_terminal s)) + 1) 1920 \<le> 80 * y + x"
    by (rule putc_terminals [OF i])
  moreover have "term_no (print_terminal s)" using i by (simp add: console_inv_def)
  ultimately have "\<forall>k. term_no k \<longrightarrow> line_ok (terminals (putc c s) k)"
    using assms by (auto simp: editor_inv_def line_ok_def pos_def)
  then show ?thesis using putc_step(2) [OF i] by (simp add: editor_inv_def)
qed

lemma the_term_putc:
  assumes "console_inv s" "print_terminal s = cur_terminal s"
  shows "buf_index (the_term (putc c s)) = buf_index (the_term s)"
    "kb_buf (the_term (putc c s)) = kb_buf (the_term s)"
    "line_buffer_flag (the_term (putc c s)) = line_buffer_flag (the_term s)"
    "min (pos (the_term s) + 1) 1920 \<le> pos (the_term (putc c s))"
    "cur_terminal (putc c s) = cur_terminal s" "print_terminal (putc c s) = print_terminal s"
    "k \<noteq> cur_terminal s \<Longrightarrow> terminals (putc c s) k = terminals s k"
    "shift_pressed (the_term (putc c s)) = shift_pressed (the_term s)"
    "caps_lock (the_term (putc c s)) = caps_lock (the_term s)"
    "ctrl_pressed (the_term (putc c s)) = ctrl_pressed (the_term s)"
    "alt_pressed (the_term (putc c s)) = alt_pressed (the_term s)"
proof -
  obtain x y where "terminals (putc c s) = (terminals s)(print_terminal s :=
      (terminals s (print_terminal s))\<lparr>scr_x := x, scr_y := y\<rparr>)"
    "min (pos (terminals s (print_terminal s)) + 1) 1920 \<le> 80 * y + x"
    "cur_terminal (putc c s) = cur_terminal s" "print_terminal (putc c s) = print_terminal s"
    by (rule putc_terminals [OF assms(1)])
  then show "buf_index (the_term (putc c s)) = buf_index (the_term s)"
    "kb_buf (the_term (putc c s)) = kb_buf (the_term s)"
    "line_buffer_flag (the_term (putc c s)) = line_buffer_flag (the_term s)"
    "min (pos (the_term s) + 1) 1920 \<le> pos (the_term (putc c s))"
    "cur_terminal (putc c s) = cur_terminal s" "print_terminal (putc c s) = print_terminal s"
    "k \<noteq> cur_terminal s \<Longrightarrow> terminals (putc c s) k = terminals s k"
    "shift_pressed (the_term (putc c s)) = shift_pressed (the_term s)"
    "caps_lock (the_term (putc c s)) = caps_lock (the_term s)"
    "ctrl_pressed (the_term (putc c s)) = ctrl_pressed (the_term s)"
    "alt_pressed (the_term (putc c s)) = alt_pressed (the_term s)"
    using assms(2) by (simp_all add: the_term_def pos_def)
qed


lemma line_of_snoc:
  "0 \<le> buf_index t \<Longrightarrow>
   line_of (t\<lparr>kb_buf := (kb_buf t)(buf_index t := c), buf_index := buf_index t + 1\<rparr>) = line_of t @ [c]"
  by (simp add: line_of_def upto_rec2)

text \<open>A terminal whose cursor, line and flags change keeps the invariant when the new line fits.\<close>

lemma editor_upd_term:
  assumes "editor_inv s" and "line_ok (f (terminals s i))" "on_screen (f (terminals s i))"
  shows "editor_inv (upd_term i f s)"
  using assms by (simp add: editor_inv_def console_inv_def upd_term_def)

definition accepts :: "u8 \<Rightarrow> shell \<Rightarrow> bool" where
  "accepts scan_code t \<longleftrightarrow>
     line_buffer_flag t = 0 \<and> (buf_index t < 127 \<or> scan_code = NEW_LINE)"

text \<open>The editor's working state: it prints on the viewed terminal.\<close>

definition editing :: "'a console_scheme \<Rightarrow> bool" where
  "editing s \<longleftrightarrow> editor_inv s \<and> print_terminal s = cur_terminal s"

lemma editing_term:
  "editing s \<Longrightarrow> console_inv s \<and> term_no (cur_terminal s) \<and> line_ok (the_term s) \<and> on_screen (the_term s)"
  by (simp add: editing_def editor_inv_def console_inv_def the_term_def)

lemma editing_putc: "editing s \<Longrightarrow> editing (putc c s)"
  using editor_putc [of s c] the_term_putc(5,6) [of s c]
  by (simp add: editing_def editor_inv_def)

definition mods :: "shell \<Rightarrow> u8 list" where
  "mods t = [shift_pressed t, caps_lock t, ctrl_pressed t, alt_pressed t]"

lemma print_scancode_step:
  assumes "editing s" and "buf_index (the_term s) < 128 \<or> \<not> accepts scan_code (the_term s)"
  defines "s' \<equiv> print_scancode scan_code s"
  shows "editing s'" "edit_frame s s'" "cur_terminal s' = cur_terminal s"
    "line_of (the_term s') =
       line_of (the_term s) @ (if accepts scan_code (the_term s) then [kbdus scan_code] else [])"
    "line_buffer_flag (the_term s') = line_buffer_flag (the_term s)"
    "k \<noteq> cur_terminal s \<Longrightarrow> terminals s' k = terminals s k"
    "mods (the_term s') = mods (the_term s)"
proof -
  define u where "u = putc (kbdus scan_code) s"
  note e = editing_term [OF assms(1)]
  have ci: "console_inv s" "print_terminal s = cur_terminal s"
    using assms(1) e by (simp_all add: editing_def)
  note t = the_term_putc [OF ci, where c = "kbdus scan_code", folded u_def]
  have eu: "editing u" unfolding u_def using assms(1) by (rule editing_putc)
  have ti: "line_ok (the_term s)" "0 \<le> buf_index (the_term s)" using e by (auto simp: line_ok_def)
  have acc: "s' = upd_term (cur_terminal s) (\<lambda>t. t\<lparr>kb_buf := (kb_buf t)(buf_index t := kbdus scan_code),
      buf_index := buf_index t + 1\<rparr>) u" if "accepts scan_code (the_term s)"
    using that assms(2) ti t
    by (auto simp: s'_def print_scancode_def accepts_def Let_def u_def [symmetric] kb_store_def
        upd_term_def the_term_def intro!: console.equality)
  have rej: "s' = s" if "\<not> accepts scan_code (the_term s)"
    using that by (auto simp: s'_def print_scancode_def accepts_def)
  have frame: "edit_frame s u"
    unfolding u_def using putc_step(3) [OF ci(1)] by (rule edit_frame_prints)
  show "editing s'"
  proof (cases "accepts scan_code (the_term s)")
    case True
    then have "buf_index (the_term s) < 128" using assms(2) by simp
    then have "line_ok ((\<lambda>t. t\<lparr>kb_buf := (kb_buf t)(buf_index t := kbdus scan_code),
        buf_index := buf_index t + 1\<rparr>) (terminals u (cur_terminal s)))"
      using ti t by (auto simp: line_ok_def pos_def the_term_def)
    moreover have "on_screen (terminals u (cur_terminal s))"
      using editing_term [OF eu] t by (simp add: the_term_def)
    ultimately have "editor_inv s'"
      using eu unfolding acc [OF True] by (intro editor_upd_term) (simp_all add: editing_def on_screen_def)
    then show ?thesis using ci t by (simp add: editing_def acc [OF True] upd_term_def)
  qed (simp add: rej assms(1))
  show "edit_frame s s'"
    using frame by (cases "accepts scan_code (the_term s)")
      (auto simp: acc rej intro: edit_frame_trans [OF _ edit_frame_upd_term])
  show "cur_terminal s' = cur_terminal s"
    using t by (cases "accepts scan_code (the_term s)") (simp_all add: acc rej upd_term_def)
  show "line_of (the_term s') =
       line_of (the_term s) @ (if accepts scan_code (the_term s) then [kbdus scan_code] else [])"
    using t ti line_of_snoc [of "the_term u" "kbdus scan_code"]
    by (cases "accepts scan_code (the_term s)")
      (simp_all add: acc rej upd_term_def the_term_def line_of_def)
  show "line_buffer_flag (the_term s') = line_buffer_flag (the_term s)"
    using t by (cases "accepts scan_code (the_term s)") (simp_all add: acc rej upd_term_def the_term_def)
  show "terminals s' k = terminals s k" if "k \<noteq> cur_terminal s"
    using t that by (cases "accepts scan_code (the_term s)") (simp_all add: acc rej upd_term_def)
  show "mods (the_term s') = mods (the_term s)"
    using t by (cases "accepts scan_code (the_term s)") (simp_all add: acc rej upd_term_def the_term_def mods_def)
qed


lemma print_scancode_overflow:
  assumes "editing s" "accepts scan_code (the_term s)" "buf_index (the_term s) = 128"
  shows "fault (print_scancode scan_code s)"
proof -
  have ci: "console_inv s" "print_terminal s = cur_terminal s"
    using assms(1) by (simp_all add: editing_def editor_inv_def)
  show ?thesis
    using assms(2,3) the_term_putc(1) [OF ci]
    by (simp add: print_scancode_def accepts_def Let_def kb_store_def raise_fault_def upd_term_def)
qed

section \<open>Redrawing the line\<close>

lemma reprint_loop:
  assumes "console_inv s" "print_terminal s = cur_terminal s" "\<forall>i \<in> set is. i < 128"
  defines "s' \<equiv> fold (\<lambda>i s. if i < BUF_LENGTH then putc (kb_buf (the_term s) i) s else raise_fault s) is s"
  shows "console_inv s' \<and> prints_only s s' \<and> print_terminal s' = cur_terminal s' \<and>
    min (pos (the_term s) + int (length is)) 1920 \<le> pos (the_term s')"
  unfolding s'_def using assms(1-3)
proof (induction "is" arbitrary: s)
  case Nil
  then show ?case by simp
next
  case (Cons i "is")
  let ?u = "putc (kb_buf (the_term s) i) s"
  let ?v = "fold (\<lambda>i s. if i < BUF_LENGTH then putc (kb_buf (the_term s) i) s else raise_fault s) is ?u"
  note t = the_term_putc [OF Cons.prems(1,2), where c = "kb_buf (the_term s) i"]
  have "console_inv ?v \<and> prints_only ?u ?v \<and> print_terminal ?v = cur_terminal ?v \<and>
      min (pos (the_term ?u) + int (length is)) 1920 \<le> pos (the_term ?v)"
    using Cons.prems t by (intro Cons.IH putc_step) auto
  moreover have "prints_only s ?u" by (rule putc_step(3) [OF Cons.prems(1)])
  ultimately show ?case using Cons.prems(3) t(4) by (auto intro: prints_only_trans)
qed

lemma prints_only_others:
  assumes "prints_only s s'"
  shows "k \<noteq> print_terminal s \<Longrightarrow> terminals s' k = terminals s k"
    "buf_index (terminals s' k) = buf_index (terminals s k)" "kb_buf (terminals s' k) = kb_buf (terminals s k)"
    "line_buffer_flag (terminals s' k) = line_buffer_flag (terminals s k)"
    "cur_terminal s' = cur_terminal s" "print_terminal s' = print_terminal s"
  using assms unfolding prints_only_def by (auto simp: fun_upd_def)

definition home :: "'a console_scheme \<Rightarrow> 'a console_scheme" where
  "home s = reset_screen (clear s)"

lemma home_eq:
  assumes "video_ok s"
  obtains m q where "home s = s\<lparr>pmem := m, ports := q, current_line := 0,
    terminals := (terminals s)(cur_terminal s := (the_term s)\<lparr>scr_y := 0, scr_x := 0\<rparr>)\<rparr>"
proof -
  obtain q where "home s = (upd_term (cur_terminal (clear s)) (\<lambda>t. t\<lparr>scr_y := 0, scr_x := 0\<rparr>) (clear s))
      \<lparr>current_line := 0, ports := q\<rparr>"
    unfolding home_def reset_screen_def by (rule show_cursor_eq)
  then show thesis
    by (intro that [of q "pmem (clear s)"] console.equality)
      (simp_all add: clear_mem [OF assms] upd_term_def the_term_def)
qed

lemma redraw_step:
  assumes "editing s"
  defines "s' \<equiv> reprint (home s)"
  shows "editing s'" "edit_frame s s'" "cur_terminal s' = cur_terminal s"
    "line_of (the_term s') = line_of (the_term s)"
    "line_buffer_flag (the_term s') = line_buffer_flag (the_term s)"
    "k \<noteq> cur_terminal s \<Longrightarrow> terminals s' k = terminals s k"
proof -
  note e = editing_term [OF assms(1)]
  have p: "print_terminal s = cur_terminal s" and v: "video_ok s" and inv: "editor_inv s"
    using assms(1) e by (simp_all add: editing_def console_inv_def)
  obtain m q where h: "home s = s\<lparr>pmem := m, ports := q, current_line := 0,
    terminals := (terminals s)(cur_terminal s := (the_term s)\<lparr>scr_y := 0, scr_x := 0\<rparr>)\<rparr>"
    by (rule home_eq [OF v])
  have hi: "console_inv (home s)"
    using e by (simp add: h console_inv_def on_screen_def)
  have hp: "print_terminal (home s) = cur_terminal (home s)" "cur_terminal (home s) = cur_terminal s"
    "buf_index (the_term (home s)) = buf_index (the_term s)" "pos (the_term (home s)) = 0"
    using p by (simp_all add: h the_term_def pos_def)
  have len: "\<forall>i \<in> set [0..buf_index (the_term (home s)) - 1]. i < 128"
    using e by (auto simp: hp line_ok_def)
  note r = reprint_loop [OF hi hp(1) len, folded reprint_def s'_def]
  note o = prints_only_others [OF conjunct1 [OF conjunct2 [OF r]]]
  show c: "cur_terminal s' = cur_terminal s" using o(5) by (simp add: hp)
  show "edit_frame s s'"
  proof (rule edit_frame_trans)
    show "edit_frame s (home s)" unfolding h edit_frame_def by (simp add: the_term_def)
    show "edit_frame (home s) s'" using r by (intro edit_frame_prints) simp
  qed
  show others: "terminals s' k = terminals s k" if "k \<noteq> cur_terminal s" for k
    using o(1) [of k] that hp p by (simp add: h)
  show "line_of (the_term s') = line_of (the_term s)"
    "line_buffer_flag (the_term s') = line_buffer_flag (the_term s)"
    using o c by (simp_all add: the_term_def line_of_def h)
  have "line_ok (the_term s')"
    using r e o(2) [of "cur_terminal s"] c by (auto simp: hp line_ok_def the_term_def h pos_def)
  then have "line_ok (terminals s' k)" if "term_no k" for k
    using inv others that c by (cases "k = cur_terminal s") (auto simp: editor_inv_def the_term_def)
  then show "editing s'" using r by (simp add: editing_def editor_inv_def)
qed


section \<open>Erasing and switching\<close>

lemma line_of_butlast:
  "0 < buf_index t \<Longrightarrow> line_of (t\<lparr>buf_index := buf_index t - 1\<rparr>) = butlast (line_of t)"
  by (simp add: line_of_def upto_rec2)

lemma line_of_cong:
  "buf_index t = buf_index u \<Longrightarrow> kb_buf t = kb_buf u \<Longrightarrow> line_of t = line_of u"
  by (simp add: line_of_def)

lemma tty_pos: "print_terminal s = cur_terminal s \<Longrightarrow> snd (tty_of s) = pos (the_term s)"
  by (simp add: tty_of_def Let_def the_term_def pos_def)

lemma erase_step:
  assumes "editing s" "0 < buf_index (the_term s)"
  defines "s' \<equiv> back_space (upd_term (cur_terminal s) (\<lambda>t. t\<lparr>buf_index := buf_index t - 1\<rparr>) s)"
  shows "editing s'" "edit_frame s s'" "cur_terminal s' = cur_terminal s"
    "line_of (the_term s') = butlast (line_of (the_term s))"
    "line_buffer_flag (the_term s') = line_buffer_flag (the_term s)"
    "k \<noteq> cur_terminal s \<Longrightarrow> terminals s' k = terminals s k"
proof -
  define u where "u = upd_term (cur_terminal s) (\<lambda>t. t\<lparr>buf_index := buf_index t - 1\<rparr>) s"
  note e = editing_term [OF assms(1)]
  have inv: "editor_inv s" and p: "print_terminal s = cur_terminal s"
    using assms(1) by (simp_all add: editing_def)
  have u: "the_term u = (the_term s)\<lparr>buf_index := buf_index (the_term s) - 1\<rparr>" "cur_terminal u = cur_terminal s"
    "print_terminal u = cur_terminal u" "k \<noteq> cur_terminal s \<Longrightarrow> terminals u k = terminals s k" for k
    using p by (simp_all add: u_def upd_term_def the_term_def)
  have iu: "editor_inv u"
    unfolding u_def using inv e assms(2)
    by (intro editor_upd_term) (auto simp: line_ok_def pos_def on_screen_def the_term_def)
  then have cu: "console_inv u" by (simp add: editor_inv_def)
  have pu: "0 < snd (tty_of u)"
    using e assms(2) u(1,3) by (simp add: tty_pos) (auto simp: line_ok_def pos_def)
  have s': "s' = back_space u" by (simp add: s'_def u_def)
  note bs = back_space_step [OF cu u(3) pu, folded s']
  note o = prints_only_others [OF bs(3)]
  show c: "cur_terminal s' = cur_terminal s" using o(5) by (simp add: u)
  show "edit_frame s s'"
  proof (rule edit_frame_trans)
    show "edit_frame s u" unfolding u_def by (rule edit_frame_upd_term) simp
    show "edit_frame u s'" by (rule edit_frame_prints [OF bs(3)])
  qed
  show others: "terminals s' k = terminals s k" if "k \<noteq> cur_terminal s" for k
    using o(1) [of k] that by (simp add: u)
  have "line_of (the_term s') = line_of (the_term u)"
    using o c by (intro line_of_cong) (simp_all add: the_term_def u)
  then show "line_of (the_term s') = butlast (line_of (the_term s))"
    using assms(2) by (simp add: u line_of_butlast)
  show "line_buffer_flag (the_term s') = line_buffer_flag (the_term s)"
    using o(4) [of "cur_terminal s"] c u(1,2) by (simp add: the_term_def)
  have "pos (the_term s') = snd (tty_of s')"
    using o(5,6) u(3) by (simp add: tty_pos)
  also have "\<dots> = pos (the_term s) - 1"
    unfolding bs(1) using u(1) tty_pos [OF u(3)] by (cases "tty_of u") (simp add: tty_back_def pos_def)
  finally have "line_ok (the_term s')"
    using e assms(2) o(2) [of "cur_terminal s"] c u(1,2) by (simp add: line_ok_def the_term_def)
  then have "line_ok (terminals s' k)" if "term_no k" for k
    using inv others that c by (cases "k = cur_terminal s") (auto simp: editor_inv_def the_term_def)
  then show "editing s'" using bs(2) o(5,6) u(3) by (simp add: editing_def editor_inv_def)
qed

lemma change_shell_editor:
  assumes "editing s" "buffers_ok s" "vframe s = VIDEO" "term_no nxt"
  defines "s' \<equiv> snd (change_shell nxt s)"
  shows "editor_inv s'" "edit_frame s s'" "cur_terminal s' = nxt" "terminals s' = terminals s"
proof -
  have e: "editor_inv s" "video_ok s" "term_no (cur_terminal s)"
    using assms(1) editing_term [OF assms(1)] by (simp_all add: editing_def console_inv_def)
  obtain q where c: "change_shell nxt s =
    (0, s\<lparr>pmem := copied (copied (pmem s) (vid_mem (terminals s (cur_terminal s))) VIDEO PAGE_SIZE)
        VIDEO (vid_mem (terminals s nxt)) PAGE_SIZE, ports := q, cur_terminal := nxt\<rparr>)"
    by (rule change_shell_eq [OF e(2) assms(2-4) e(3)])
  show "cur_terminal s' = nxt" "terminals s' = terminals s" "edit_frame s s'"
    by (simp_all add: s'_def c edit_frame_def)
  show "editor_inv s'" using e(1) assms(4) by (simp add: s'_def c editor_inv_def console_inv_def)
qed


section \<open>One key\<close>

text \<open>The character of a key: letters are shifted when exactly one of caps lock and shift is on,
  other keys when shift is.\<close>

definition key_char :: "u8 \<Rightarrow> shell \<Rightarrow> u8" where
  "key_char scan_code t =
     (let caps = (caps_lock t = 1); shift = (shift_pressed t = 1);
          shifted = (if in_char_range scan_code then caps \<noteq> shift else shift)
      in kbdus (if shifted then scan_code + CAP_OFFSET else scan_code))"

text \<open>The keys that do not type: modifiers, a terminal switch and a redraw.\<close>

definition control_key :: "u8 \<Rightarrow> shell \<Rightarrow> bool" where
  "control_key scan_code t \<longleftrightarrow>
     scan_code \<in> {CTRL, ALT_CHAR, LEFT_SHIFT, RIGHT_SHIFT, CAPS_LOCK} \<or>
     (alt_pressed t = 1 \<and> scan_code \<in> {F1_CHAR, F2_CHAR, F3_CHAR}) \<or>
     (ctrl_pressed t = 1 \<and> scan_code = L_CHAR)"

definition typed_line :: "u8 \<Rightarrow> shell \<Rightarrow> u8 list" where
  "typed_line scan_code t =
     (if control_key scan_code t then line_of t
      else if scan_code = BACK_SPACE then butlast (line_of t)
      else if scan_code = NEW_LINE then line_of t @ (if accepts scan_code t then [0x0A] else [])
      else line_of t @ (if accepts scan_code t then [key_char scan_code t] else []))"

text \<open>What a pressed key does: the invariant, the frame, the other terminals and the line of
  the terminal that was in view.\<close>

definition key_ok :: "u8 \<Rightarrow> 'a console_scheme \<Rightarrow> 'a console_scheme \<Rightarrow> bool" where
  "key_ok scan_code s s' \<longleftrightarrow>
     editor_inv s' \<and> edit_frame s s' \<and>
     (\<forall>k. k \<noteq> cur_terminal s \<longrightarrow> terminals s' k = terminals s k) \<and>
     line_of (terminals s' (cur_terminal s)) = typed_line scan_code (the_term s)"

lemma modifier_step:
  assumes "editing s"
    and "\<And>t. scr_x (f t) = scr_x t \<and> scr_y (f t) = scr_y t \<and> buf_index (f t) = buf_index t \<and>
       kb_buf (f t) = kb_buf t \<and> vid_mem (f t) = vid_mem t"
  shows "editor_inv (upd_term (cur_terminal s) f s)" "edit_frame s (upd_term (cur_terminal s) f s)"
    "line_of (terminals (upd_term (cur_terminal s) f s) (cur_terminal s)) = line_of (the_term s)"
    "k \<noteq> cur_terminal s \<Longrightarrow> terminals (upd_term (cur_terminal s) f s) k = terminals s k"
proof -
  note e = editing_term [OF assms(1)]
  show "editor_inv (upd_term (cur_terminal s) f s)"
    using e assms by (intro editor_upd_term) (simp_all add: editing_def line_ok_def pos_def on_screen_def the_term_def)
  show "edit_frame s (upd_term (cur_terminal s) f s)" using assms(2) by (intro edit_frame_upd_term) simp
  show "line_of (terminals (upd_term (cur_terminal s) f s) (cur_terminal s)) = line_of (the_term s)"
    using assms(2) by (simp add: upd_term_def the_term_def line_of_def)
  show "terminals (upd_term (cur_terminal s) f s) k = terminals s k" if "k \<noteq> cur_terminal s"
    using that by (simp add: upd_term_def)
qed

lemma key_ok_modifier:
  assumes "editing s" "control_key scan_code (the_term s)"
    and "\<And>t. scr_x (f t) = scr_x t \<and> scr_y (f t) = scr_y t \<and> buf_index (f t) = buf_index t \<and>
       kb_buf (f t) = kb_buf t \<and> vid_mem (f t) = vid_mem t"
  shows "key_ok scan_code s (upd_term (cur_terminal s) f s)"
  using modifier_step [OF assms(1,3)] assms(2) by (simp add: key_ok_def typed_line_def)

lemma key_ok_switch:
  assumes "editing s" "buffers_ok s" "vframe s = VIDEO" "term_no nxt" "control_key scan_code (the_term s)"
  shows "key_ok scan_code s (snd (change_shell nxt s))"
  using change_shell_editor [OF assms(1-4)] assms(5) by (simp add: key_ok_def typed_line_def the_term_def)

lemma key_ok_type:
  assumes "editing s" "\<not> control_key scan_code (the_term s)" "scan_code \<notin> {BACK_SPACE, NEW_LINE}"
    and "c \<noteq> NEW_LINE" "kbdus c = key_char scan_code (the_term s)"
  shows "key_ok scan_code s (print_scancode c s)"
proof -
  have a: "accepts c (the_term s) = accepts scan_code (the_term s)"
    using assms(3,4) by (simp add: accepts_def)
  have "buf_index (the_term s) < 128 \<or> \<not> accepts c (the_term s)"
    using assms(4) by (auto simp: accepts_def)
  note p = print_scancode_step [OF assms(1) this]
  show ?thesis
    using p assms(2,3,5) unfolding key_ok_def typed_line_def
    by (simp add: a [unfolded the_term_def] editing_def the_term_def)
qed

lemma key_ok_enter:
  assumes "editing s" "\<not> (accepts NEW_LINE (the_term s) \<and> buf_index (the_term s) = 128)"
  shows "key_ok NEW_LINE s (upd_term (cur_terminal s) (\<lambda>t. t\<lparr>line_buffer_flag := 1\<rparr>) (print_scancode NEW_LINE s))"
proof -
  have "line_ok (the_term s)" using editing_term [OF assms(1)] by simp
  then have "buf_index (the_term s) < 128 \<or> \<not> accepts NEW_LINE (the_term s)"
    using assms(2) by (auto simp: line_ok_def)
  note p = print_scancode_step [OF assms(1) this]
  note m = modifier_step [OF p(1), of "\<lambda>t. t\<lparr>line_buffer_flag := 1\<rparr>", unfolded p(3), simplified]
  have nl: "kbdus NEW_LINE = 0x0A" by (simp add: kbdus_def kbdus_init_def)
  have "\<not> control_key NEW_LINE (the_term s)" by (simp add: control_key_def)
  then show ?thesis
    using m p edit_frame_trans [OF p(2) m(2)]
    by (simp add: key_ok_def typed_line_def nl the_term_def)
qed


lemma shifted_not_enter: "scan_code < 0x80 \<Longrightarrow> scan_code + CAP_OFFSET \<noteq> (NEW_LINE :: u8)"
  by unat_arith simp

lemma recent_release_step:
  assumes "editing s" "buffers_ok s" "vframe s = VIDEO" "scan_code < 0x80"
    and "\<not> (scan_code = NEW_LINE \<and> accepts NEW_LINE (the_term s) \<and> buf_index (the_term s) = 128)"
  shows "key_ok scan_code s (recent_release_exec scan_code s)"
proof -
  let ?t = "the_term s"
  note modifier = key_ok_modifier [OF assms(1)]
  note nn = shifted_not_enter [OF assms(4)]
  show ?thesis
  proof (cases "control_key scan_code ?t")
    case True
    note c = True
    show ?thesis
    proof (cases "scan_code = L_CHAR")
      case True
      then have "ctrl_pressed ?t = 1" using c by (simp add: control_key_def)
      then show ?thesis
        using True c redraw_step [OF assms(1)]
        by (simp add: recent_release_exec_def Let_def key_ok_def typed_line_def home_def editing_def the_term_def)
    next
      case False
      with c consider "scan_code = CTRL" | "alt_pressed ?t = 1" "scan_code = F1_CHAR"
        | "alt_pressed ?t = 1" "scan_code = F2_CHAR" | "alt_pressed ?t = 1" "scan_code = F3_CHAR"
        | "scan_code = ALT_CHAR" | "scan_code = LEFT_SHIFT" | "scan_code = RIGHT_SHIFT"
        | "scan_code = CAPS_LOCK" by (auto simp: control_key_def)
      then show ?thesis
        using modifier [OF c] key_ok_switch [OF assms(1-3) _ c]
        by cases (simp_all add: recent_release_exec_def Let_def term_no_def)
    qed
  next
    case False
    note n = this
    consider "scan_code = BACK_SPACE" | "scan_code = NEW_LINE" | "scan_code \<notin> {BACK_SPACE, NEW_LINE}" by blast
    then show ?thesis
    proof cases
      case 1
      have "line_of ?t = []" if "buf_index ?t \<le> 0" using that by (simp add: line_of_def)
      then show ?thesis
        using 1 n assms(1) erase_step [OF assms(1)]
        by (auto simp: recent_release_exec_def Let_def key_ok_def typed_line_def editing_def the_term_def)
    next
      case 2
      then show ?thesis
        using n assms(5) key_ok_enter [OF assms(1)] by (auto simp: recent_release_exec_def Let_def)
    next
      case 3
      note t = key_ok_type [OF assms(1) n 3]
      show ?thesis
        using n 3 nn unfolding recent_release_exec_def Let_def
        by (auto simp: control_key_def key_char_def caps_and_shift_def caps_no_shift_def intro!: t)
    qed
  qed
qed


lemma after_release_step:
  fixes s :: "'a console_scheme" and scan_code :: u8
  assumes "editing s"
  defines "s' \<equiv> after_release_exec scan_code s"
  shows "editor_inv s'" "edit_frame s s'" "line_of (terminals s' (cur_terminal s)) = line_of (the_term s)"
    "k \<noteq> cur_terminal s \<Longrightarrow> terminals s' k = terminals s k" "cur_terminal s' = cur_terminal s"
  unfolding s'_def after_release_exec_def Let_def
  using modifier_step [OF assms(1)] assms(1)
  by (auto simp: editing_def the_term_def upd_term_def)

section \<open>The handler\<close>

definition kb_inv :: "'a kb_scheme \<Rightarrow> bool" where
  "kb_inv s \<longleftrightarrow> sched_inv s \<and> (\<forall>k. term_no k \<longrightarrow> line_ok (terminals s k))"

definition ignored :: "u8 \<Rightarrow> bool" where
  "ignored scan_code \<longleftrightarrow>
     (scan_code \<ge> CAP_OFFSET \<and> scan_code \<le> UP_BOUND) \<or> scan_code \<ge> CAP_OFFSET + UP_BOUND"

lemma kb_irq_ops:
  "enable_irq 1 s = s\<lparr>master_mask := master_mask s AND NOT 2, ports := (0x21, master_mask s AND NOT 2) # ports s\<rparr>"
  "disable_irq 1 s = s\<lparr>master_mask := master_mask s OR 2, ports := (0x21, master_mask s OR 2) # ports s\<rparr>"
  "send_eoi 1 s = s\<lparr>ports := (0x20, 0x61) # ports s\<rparr>"
  by (simp_all add: enable_irq_def disable_irq_def send_eoi_def outb_def Let_def mask_tab_def word_le_def)

text \<open>The state in which the editor runs, and what the handler does with its result.\<close>

definition kb_enter :: "'a kb_scheme \<Rightarrow> 'a kb_scheme" where
  "kb_enter s =
     s\<lparr>iflag := False, kb_flags := iflag s, master_mask := master_mask s OR 2,
       ports := (0x20, 0x61) # (0x21, master_mask s OR 2) # ports s,
       print_terminal := cur_terminal s,
       first_page_table := (first_page_table s)(184 := VIDEO_MEM_ADDR OR USER_MODE)\<rparr>"

definition kb_leave :: "'a kb_scheme \<Rightarrow> 'a kb_scheme" where
  "kb_leave s =
     s\<lparr>first_page_table := (if cur_sched_term s \<noteq> cur_terminal s
         then (first_page_table s)(184 := video_buffer (sched_arr s (cur_sched_term s)) OR USER_MODE)
         else first_page_table s),
       print_terminal := cur_sched_term s, iflag := kb_flags s,
       master_mask := master_mask s AND NOT 2, ports := (0x21, master_mask s AND NOT 2) # ports s\<rparr>"

lemma keyboard_handler_eq:
  "keyboard_interrupt_handler scan_code s =
    (if ignored scan_code
     then s\<lparr>kb_flags := iflag s, master_mask := (master_mask s OR 2) AND NOT 2,
       ports := (0x21, (master_mask s OR 2) AND NOT 2) # (0x20, 0x61) # (0x21, master_mask s OR 2) # ports s\<rparr>
     else kb_leave (if scan_code < 0x80 then recent_release_exec scan_code (kb_enter s)
       else after_release_exec scan_code (kb_enter s)))"
proof -
  define exec where "exec = (\<lambda>u :: 'a kb_scheme. if scan_code < 0x80 then recent_release_exec scan_code u
    else after_release_exec scan_code u)"
  have e: "set_page_table1_entry VIDEO_MEM_ADDR VIDEO_MEM_ADDR
      ((send_eoi 1 (disable_irq 1 (s\<lparr>iflag := False, kb_flags := iflag s\<rparr>)))
        \<lparr>print_terminal := cur_terminal s\<rparr>) = kb_enter s"
    by (intro kb.equality) (simp_all add: kb_irq_ops kb_enter_def set_page_table1_entry_def)
  have l: "enable_irq 1 (restore_flags (kb_flags t) (t\<lparr>print_terminal := cur_sched_term t\<rparr>)) = kb_leave u"
    if "t = (if cur_sched_term u \<noteq> cur_terminal u
       then set_page_table1_entry VIDEO_MEM_ADDR (video_buffer (sched_arr u (cur_sched_term u))) u else u)"
    for t u :: "'a kb_scheme"
    unfolding that
    by (intro kb.equality) (simp_all add: kb_irq_ops kb_leave_def set_page_table1_entry_def restore_flags_def)
  have "keyboard_interrupt_handler scan_code s =
      (let v = send_eoi 1 (disable_irq 1 (s\<lparr>iflag := False, kb_flags := iflag s\<rparr>)) in
       if ignored scan_code then enable_irq 1 (restore_flags (kb_flags v) v)
       else let u = exec (set_page_table1_entry VIDEO_MEM_ADDR VIDEO_MEM_ADDR (v\<lparr>print_terminal := cur_terminal v\<rparr>));
              t = (if cur_sched_term u \<noteq> cur_terminal u
                then set_page_table1_entry VIDEO_MEM_ADDR (video_buffer (sched_arr u (cur_sched_term u))) u else u)
            in enable_irq 1 (restore_flags (kb_flags t) (t\<lparr>print_terminal := cur_sched_term t\<rparr>)))"
    by (simp add: keyboard_interrupt_handler_def cli_and_save_def cli_def ignored_def exec_def Let_def)
  moreover have "cur_terminal (send_eoi 1 (disable_irq 1 (s\<lparr>iflag := False, kb_flags := iflag s\<rparr>))) = cur_terminal s"
    by (simp add: kb_irq_ops)
  ultimately show ?thesis
    by (simp only: Let_def e l [OF refl] exec_def if_False if_True)
      (simp add: kb_irq_ops restore_flags_def)
qed

lemma sched_of_more:
  assumes "console.more s = console.more t"
  shows "sched_arr s = sched_arr t" "cur_sched_term s = cur_sched_term t"
    "prev_sched_term s = prev_sched_term t" "kb_flags s = kb_flags t"
  using assms by (cases s; cases t; simp)+


lemma kb_enter_editing:
  assumes "kb_inv s"
  shows "editing (kb_enter s)" "buffers_ok (kb_enter s)" "vframe (kb_enter s) = VIDEO"
    "the_term (kb_enter s) = the_term s"
proof -
  have i: "console_inv s" "buffers_ok s" and wf: "paging_wf s"
    using assms by (simp_all add: kb_inv_def sched_inv_def console_inv_def video_ok_def)
  have wf': "paging_wf (kb_enter s)"
    using wf by (simp add: kb_enter_def paging_wf_def paging_on_def)
  show "vframe (kb_enter s) = VIDEO" by (simp add: vframe_def kb_enter_def)
  show "buffers_ok (kb_enter s)"
    by (rule buffers_ok_same [OF i(2) wf wf']) (simp_all add: kb_enter_def)
  have "video_ok (kb_enter s)" using wf' by (simp add: video_ok_def) (simp add: kb_enter_def)
  then show "editing (kb_enter s)"
    using i(1) assms by (simp add: editing_def editor_inv_def console_inv_def kb_inv_def)
      (simp add: kb_enter_def)
  show "the_term (kb_enter s) = the_term s" by (simp add: the_term_def kb_enter_def)
qed

lemma kb_leave_inv:
  assumes "kb_inv s" and u: "editor_inv u" "edit_frame (kb_enter s) u"
  shows "kb_inv (kb_leave u)" "display_ok (kb_leave u)" "iflag (kb_leave u) = iflag s"
    "terminals (kb_leave u) = terminals u" "cur_terminal (kb_leave u) = cur_terminal u"
    "cur_sched_term (kb_leave u) = cur_sched_term s" "prev_sched_term (kb_leave u) = prev_sched_term s"
proof -
  have m: "console.more u = console.more (kb_enter s)" using u(2) by (simp add: edit_frame_def)
  note sc = sched_of_more [OF m]
  have more: "sched_arr u = sched_arr s" "cur_sched_term u = cur_sched_term s"
    "prev_sched_term u = prev_sched_term s" "kb_flags u = iflag s"
    using sc by (simp_all add: kb_enter_def)
  show "iflag (kb_leave u) = iflag s" "terminals (kb_leave u) = terminals u"
    "cur_terminal (kb_leave u) = cur_terminal u"
    "cur_sched_term (kb_leave u) = cur_sched_term s" "prev_sched_term (kb_leave u) = prev_sched_term s"
    by (simp_all add: kb_leave_def more)
  have vm: "vid_mem (terminals u k) = vid_mem (terminals s k)" for k
    using u(2) by (simp add: edit_frame_def kb_enter_def)
  have inv: "slots_ok s" "term_no (cur_sched_term s)" "buffers_ok s"
    using assms(1) by (simp_all add: kb_inv_def sched_inv_def)
  have ub: "buffers_ok u" "paging_wf u"
    using kb_enter_editing(2) [OF assms(1)] edit_frame_buffers [OF u(2)] u(1)
    by (simp_all add: editor_inv_def console_inv_def video_ok_def)
  have wf': "paging_wf (kb_leave u)"
    using ub(2) by (simp add: kb_leave_def paging_wf_def paging_on_def)
  have b': "buffers_ok (kb_leave u)"
    by (rule buffers_ok_same [OF ub wf']) (simp_all add: kb_leave_def)
  have "first_page_table u 184 = VIDEO OR USER_MODE"
    using u(2) by (simp add: edit_frame_def kb_enter_def)
  moreover have "video_buffer (sched_arr s (cur_sched_term s)) = vid_mem (terminals u (cur_sched_term s))"
    using inv vm by (simp add: slots_ok_def)
  ultimately have f: "first_page_table (kb_leave u) 184 = screen_of u (cur_sched_term s) OR USER_MODE"
    by (auto simp: kb_leave_def more screen_of_def)
  have vf: "vframe (kb_leave u) = screen_of u (cur_sched_term s)"
    using screen_page_frame [OF screen_of_page [OF ub(1) inv(2)]] by (simp only: vframe_def f)
  then show "display_ok (kb_leave u)"
    by (simp add: display_ok_def) (simp add: kb_leave_def screen_of_def more)
  have "video_ok (kb_leave u)" using wf' by (simp add: video_ok_def f bit_or_iff)
  then have "console_inv (kb_leave u)"
    using u(1) inv(2) by (simp add: console_inv_def editor_inv_def) (simp add: kb_leave_def more)
  moreover have "slots_ok (kb_leave u)"
    using inv(1) vm by (simp add: slots_ok_def kb_leave_def more)
  ultimately show "kb_inv (kb_leave u)"
    using b' u(1) inv(2) by (simp add: kb_inv_def sched_inv_def editor_inv_def) (simp add: kb_leave_def more)
qed

lemma frame_kb_flags [simp]:
  "console_inv (s\<lparr>kb_flags := b\<rparr>) = console_inv s" "buffers_ok (s\<lparr>kb_flags := b\<rparr>) = buffers_ok s"
  "console_inv (s\<lparr>iflag := b\<rparr>) = console_inv s" "buffers_ok (s\<lparr>iflag := b\<rparr>) = buffers_ok s"
  by (simp_all add: console_inv_def video_ok_def paging_wf_def paging_on_def buffers_ok_def
      translate_def table_at_def Let_def)

lemma frame_cur_sched [simp]:
  "console_inv (s\<lparr>cur_sched_term := c\<rparr>) = console_inv s" "buffers_ok (s\<lparr>cur_sched_term := c\<rparr>) = buffers_ok s"
  by (simp_all add: console_inv_def video_ok_def paging_wf_def paging_on_def buffers_ok_def
      translate_def table_at_def Let_def)

lemma tty_of_flags [simp]:
  "tty_of (s\<lparr>kb_flags := b\<rparr>) = tty_of s" "tty_of (s\<lparr>iflag := b\<rparr>) = tty_of s"
  by (simp_all add: tty_of_def Let_def vframe_def cong: if_cong)

lemma translate_kb_flags [simp]: "translate u (s\<lparr>kb_flags := b\<rparr>) = translate u s"
  by (simp add: fun_eq_iff translate_def table_at_def Let_def)

text \<open>The keys the driver cannot take: Enter, when the line already fills the whole buffer and
  its flag has been cleared.\<close>

definition overflowing :: "u8 \<Rightarrow> shell \<Rightarrow> bool" where
  "overflowing scan_code t \<longleftrightarrow> scan_code = NEW_LINE \<and> line_buffer_flag t = 0 \<and> buf_index t = 128"

lemma keyboard_step:
  assumes "kb_inv s" "display_ok s" "\<not> overflowing scan_code (the_term s)"
  defines "s' \<equiv> keyboard_interrupt_handler scan_code s"
  shows "kb_inv s'" "display_ok s'" "iflag s' = iflag s" "cur_sched_term s' = cur_sched_term s"
    "prev_sched_term s' = prev_sched_term s"
    "k \<noteq> cur_terminal s \<Longrightarrow> terminals s' k = terminals s k"
    "line_of (terminals s' (cur_terminal s)) =
       (if scan_code < CAP_OFFSET then typed_line scan_code (the_term s) else line_of (the_term s))"
proof -
  note en = kb_enter_editing [OF assms(1)]
  have ct: "cur_terminal (kb_enter s) = cur_terminal s" "terminals (kb_enter s) = terminals s"
    by (simp_all add: kb_enter_def)
  have "kb_inv s' \<and> display_ok s' \<and> iflag s' = iflag s \<and> cur_sched_term s' = cur_sched_term s \<and>
    prev_sched_term s' = prev_sched_term s \<and> (\<forall>k. k \<noteq> cur_terminal s \<longrightarrow> terminals s' k = terminals s k) \<and>
    line_of (terminals s' (cur_terminal s)) =
       (if scan_code < CAP_OFFSET then typed_line scan_code (the_term s) else line_of (the_term s))"
  proof (cases "ignored scan_code")
    case True
    then have "\<not> scan_code < CAP_OFFSET" unfolding ignored_def by unat_arith
    moreover have "s' = s\<lparr>kb_flags := iflag s, master_mask := (master_mask s OR 2) AND NOT 2, ports := ports s'\<rparr>"
      using True by (simp add: s'_def keyboard_handler_eq)
    then obtain m q where s': "s' = s\<lparr>kb_flags := iflag s, master_mask := m, ports := q\<rparr>" by blast
    ultimately show ?thesis
      using assms(1,2) unfolding s'
      by (simp add: kb_inv_def sched_inv_def slots_ok_def display_ok_def the_term_def screen_of_def
          vframe_def)
  next
    case False
    note ni = this
    show ?thesis
    proof (cases "scan_code < 0x80")
      case True
      have "scan_code < CAP_OFFSET" using True ni unfolding ignored_def by unat_arith
      define u where "u = recent_release_exec scan_code (kb_enter s)"
      have "key_ok scan_code (kb_enter s) u"
        unfolding u_def using assms(3) en True
        by (intro recent_release_step) (auto simp: overflowing_def accepts_def)
      then have k: "editor_inv u" "edit_frame (kb_enter s) u" "\<And>k. k \<noteq> cur_terminal s \<Longrightarrow> terminals u k = terminals s k"
        "line_of (terminals u (cur_terminal s)) = typed_line scan_code (the_term s)"
        by (simp_all add: key_ok_def ct en)
      have "s' = kb_leave u" using ni True by (simp add: s'_def keyboard_handler_eq u_def)
      then show ?thesis
        using kb_leave_inv [OF assms(1) k(1,2)] k(3,4) \<open>scan_code < CAP_OFFSET\<close> by simp
    next
      case False
      then have "\<not> scan_code < CAP_OFFSET" by unat_arith
      define u where "u = after_release_exec scan_code (kb_enter s)"
      note k = after_release_step [OF en(1), where scan_code = scan_code, folded u_def]
      have "s' = kb_leave u" using ni False by (simp add: s'_def keyboard_handler_eq u_def)
      then show ?thesis
        using kb_leave_inv [OF assms(1) k(1,2)] k(3,4) \<open>\<not> scan_code < CAP_OFFSET\<close> by (simp add: ct en)
    qed
  qed
  then show "kb_inv s'" "display_ok s'" "iflag s' = iflag s" "cur_sched_term s' = cur_sched_term s"
    "prev_sched_term s' = prev_sched_term s"
    "k \<noteq> cur_terminal s \<Longrightarrow> terminals s' k = terminals s k"
    "line_of (terminals s' (cur_terminal s)) =
       (if scan_code < CAP_OFFSET then typed_line scan_code (the_term s) else line_of (the_term s))"
    by auto
qed


lemma kb_leave_directory:
  "edit_frame (kb_enter s) u \<Longrightarrow> page_directory (kb_leave u) = page_directory s"
  by (simp add: edit_frame_def kb_leave_def) (simp add: kb_enter_def)

lemma handler_directory:
  assumes "kb_inv s" "\<not> overflowing scan_code (the_term s)"
  shows "page_directory (keyboard_interrupt_handler scan_code s) = page_directory s"
proof -
  note en = kb_enter_editing [OF assms(1)]
  have "edit_frame (kb_enter s) (recent_release_exec scan_code (kb_enter s))" if "scan_code < 0x80"
    using recent_release_step [OF en(1-3) that] assms(2) en
    by (auto simp: key_ok_def overflowing_def accepts_def)
  moreover have "edit_frame (kb_enter s) (after_release_exec scan_code (kb_enter s))"
    by (rule after_release_step(2) [OF en(1)])
  ultimately show ?thesis by (simp add: keyboard_handler_eq kb_leave_directory)
qed

text \<open>Keys that only add a character to the line.\<close>

definition plain_key :: "u8 \<Rightarrow> shell \<Rightarrow> bool" where
  "plain_key scan_code t \<longleftrightarrow>
     scan_code < CAP_OFFSET \<and> \<not> control_key scan_code t \<and> scan_code \<notin> {BACK_SPACE, NEW_LINE}"

lemma plain_key_prints:
  assumes "plain_key scan_code (the_term s)"
  obtains c where "c \<noteq> NEW_LINE" "kbdus c = key_char scan_code (the_term s)"
    "recent_release_exec scan_code s = print_scancode c s"
proof -
  have l: "scan_code < 0x80" using assms unfolding plain_key_def by unat_arith
  show thesis
    using assms shifted_not_enter [OF l]
    by (intro that [of "if (if in_char_range scan_code then (caps_lock (the_term s) = 1) \<noteq> (shift_pressed (the_term s) = 1)
        else shift_pressed (the_term s) = 1) then scan_code + CAP_OFFSET else scan_code"])
      (auto simp: plain_key_def control_key_def recent_release_exec_def Let_def key_char_def
        caps_and_shift_def caps_no_shift_def)
qed

lemma plain_key_step:
  assumes "kb_inv s" "plain_key scan_code (the_term s)"
  defines "s' \<equiv> keyboard_interrupt_handler scan_code s"
  shows "cur_terminal s' = cur_terminal s" "mods (the_term s') = mods (the_term s)"
    "line_buffer_flag (the_term s') = line_buffer_flag (the_term s)"
proof -
  note en = kb_enter_editing [OF assms(1)]
  obtain c where c: "c \<noteq> NEW_LINE" "recent_release_exec scan_code (kb_enter s) = print_scancode c (kb_enter s)"
    using plain_key_prints [of scan_code "kb_enter s"] assms(2) en(4) by metis
  have "buf_index (the_term (kb_enter s)) < 128 \<or> \<not> accepts c (the_term (kb_enter s))"
    using c(1) by (auto simp: accepts_def)
  note p = print_scancode_step [OF en(1) this]
  have "scan_code < 0x80" "\<not> ignored scan_code"
    using assms(2) unfolding plain_key_def ignored_def by unat_arith+
  then have "s' = kb_leave (print_scancode c (kb_enter s))"
    by (simp add: s'_def keyboard_handler_eq c(2))
  then show "cur_terminal s' = cur_terminal s" "mods (the_term s') = mods (the_term s)"
    "line_buffer_flag (the_term s') = line_buffer_flag (the_term s)"
    using p(3,5,7) en(4) by (simp_all add: kb_leave_def the_term_def) (simp_all add: kb_enter_def)
qed

lemma enter_key_step:
  assumes "kb_inv s" "\<not> overflowing NEW_LINE (the_term s)"
  defines "s' \<equiv> keyboard_interrupt_handler NEW_LINE s"
  shows "cur_terminal s' = cur_terminal s" "line_buffer_flag (the_term s') = 1"
proof -
  note en = kb_enter_editing [OF assms(1)]
  have "line_ok (the_term (kb_enter s))" using editing_term [OF en(1)] by simp
  then have "buf_index (the_term (kb_enter s)) < 128 \<or> \<not> accepts NEW_LINE (the_term (kb_enter s))"
    using assms(2) by (auto simp: accepts_def overflowing_def line_ok_def en(4))
  note p = print_scancode_step [OF en(1) this]
  have "s' = kb_leave (upd_term (cur_terminal (kb_enter s)) (\<lambda>t. t\<lparr>line_buffer_flag := 1\<rparr>)
      (print_scancode NEW_LINE (kb_enter s)))"
    by (simp add: s'_def keyboard_handler_eq ignored_def recent_release_exec_def Let_def word_le_def)
  then show "cur_terminal s' = cur_terminal s" "line_buffer_flag (the_term s') = 1"
    using p(3) by (simp_all add: kb_leave_def the_term_def upd_term_def) (simp_all add: kb_enter_def)
qed


section \<open>Typing a line\<close>

lemma mods_cong:
  assumes "mods t = mods u"
  shows "key_char k t = key_char k u" "plain_key k t = plain_key k u"
  using assms by (simp_all add: mods_def key_char_def plain_key_def control_key_def)

lemma length_line_of: "length (line_of t) = nat (buf_index t)"
  by (simp add: line_of_def)

lemma line_ok_term: "kb_inv s \<Longrightarrow> line_ok (the_term s)"
  by (simp add: kb_inv_def sched_inv_def console_inv_def the_term_def)

lemma wait_typed:
  assumes "kb_inv s" "display_ok s" "cur_sched_term s = cur_terminal s"
    and "line_buffer_flag (the_term s) = 0" "\<forall>k \<in> set ks. plain_key k (the_term s)"
    and "length (line_of (the_term s)) + length ks \<le> 127"
  shows "\<exists>s'. wait_line (ks @ NEW_LINE # rest) s = Some (rest, s') \<and> kb_inv s' \<and> display_ok s' \<and>
    cur_terminal s' = cur_terminal s \<and> cur_sched_term s' = cur_sched_term s \<and>
    page_directory s' = page_directory s \<and>
    line_of (the_term s') = line_of (the_term s) @ map (\<lambda>k. key_char k (the_term s)) ks @ [0x0A]"
  using assms
proof (induction ks arbitrary: s)
  case Nil
  define s1 where "s1 = keyboard_interrupt_handler NEW_LINE s"
  have idx: "0 \<le> buf_index (the_term s)" "buf_index (the_term s) \<le> 127"
    using Nil.prems(6) line_ok_term [OF Nil.prems(1)] by (auto simp: length_line_of line_ok_def)
  then have no: "\<not> overflowing NEW_LINE (the_term s)" by (simp add: overflowing_def)
  note k = keyboard_step [OF Nil.prems(1,2) no, folded s1_def]
  note e = enter_key_step [OF Nil.prems(1) no, folded s1_def]
  have "\<not> line_ready s" using Nil.prems(3,4) by (simp add: line_ready_def the_term_def)
  then have "wait_line (NEW_LINE # rest) s = wait_line rest s1"
    by (subst wait_line.simps) (simp add: s1_def)
  moreover have "line_ready s1" using e k(4) Nil.prems(3) by (simp add: line_ready_def the_term_def)
  then have "wait_line rest s1 = Some (rest, s1)" by (subst wait_line.simps) simp
  moreover have "line_of (the_term s1) = line_of (the_term s) @ [0x0A]"
    using k(7) e(1) Nil.prems(4) by (simp add: the_term_def typed_line_def control_key_def accepts_def)
  ultimately show ?case
    using k e(1) handler_directory [OF Nil.prems(1) no, folded s1_def] by simp
next
  case (Cons c ks)
  define s1 where "s1 = keyboard_interrupt_handler c s"
  have pl: "plain_key c (the_term s)" using Cons.prems(5) by simp
  have idx: "0 \<le> buf_index (the_term s)" "buf_index (the_term s) < 127"
    using Cons.prems(6) line_ok_term [OF Cons.prems(1)] by (auto simp: length_line_of line_ok_def)
  have no: "\<not> overflowing c (the_term s)" using pl by (auto simp: overflowing_def plain_key_def)
  note k = keyboard_step [OF Cons.prems(1,2) no, folded s1_def]
  note p = plain_key_step [OF Cons.prems(1) pl, folded s1_def]
  have l: "line_of (the_term s1) = line_of (the_term s) @ [key_char c (the_term s)]"
    using k(7) p(1) pl Cons.prems(4) idx
    by (simp add: the_term_def plain_key_def typed_line_def accepts_def)
  have "\<not> line_ready s" using Cons.prems(3,4) by (simp add: line_ready_def the_term_def)
  then have "wait_line ((c # ks) @ NEW_LINE # rest) s = wait_line (ks @ NEW_LINE # rest) s1"
    by (subst wait_line.simps) (simp add: s1_def)
  moreover have "\<exists>s'. wait_line (ks @ NEW_LINE # rest) s1 = Some (rest, s') \<and> kb_inv s' \<and> display_ok s' \<and>
    cur_terminal s' = cur_terminal s1 \<and> cur_sched_term s' = cur_sched_term s1 \<and>
    page_directory s' = page_directory s1 \<and>
    line_of (the_term s') = line_of (the_term s1) @ map (\<lambda>k. key_char k (the_term s1)) ks @ [0x0A]"
    using k p l Cons.prems by (intro Cons.IH) (simp_all add: mods_cong(2) [OF p(2)])
  ultimately show ?case
    using k p(1) l handler_directory [OF Cons.prems(1) no, folded s1_def] by (simp add: mods_cong(1) [OF p(2)])
qed

section \<open>Copying the line to the reader\<close>

definition copy_key :: "addr \<Rightarrow> int \<Rightarrow> 'a console_scheme \<Rightarrow> 'a console_scheme" where
  "copy_key buf i s =
     (if i < BUF_LENGTH then kstore (buf + word_of_int i) (kb_buf (the_term s) i) s else raise_fault s)"

text \<open>The range of a buffer in the program page.\<close>

definition in_program :: "addr \<Rightarrow> int \<Rightarrow> bool" where
  "in_program buf n \<longleftrightarrow> (\<forall>i. 0 \<le> i \<and> i < n \<longrightarrow> drop_bit 22 (buf + word_of_int i) = 32)"

definition prog_addr :: "int \<Rightarrow> addr \<Rightarrow> addr" where
  "prog_addr p a = prog_frame p + take_bit 22 a"

lemma prog_addr_inj:
  assumes "drop_bit 22 a = 32" "drop_bit 22 b = 32"
  shows "prog_addr p a = prog_addr p b \<longleftrightarrow> a = b"
proof -
  have "a = b" if "take_bit 22 a = take_bit 22 b"
    using that assms bits_ident [of 22 a] bits_ident [of 22 b] by metis
  then show ?thesis by (auto simp: prog_addr_def)
qed

lemma copy_keys:
  assumes "paging_wf s" "page_directory s 32 = prog_frame p OR 0x087" "1 \<le> p" "p \<le> 6"
    and "in_program buf n" "0 \<le> n" "n \<le> 128"
  shows "\<exists>m. fold (copy_key buf) [0..n - 1] s = s\<lparr>pmem := m\<rparr> \<and>
    (\<forall>i. 0 \<le> i \<and> i < n \<longrightarrow> m (prog_addr p (buf + word_of_int i)) = kb_buf (the_term s) i)"
  using assms(6,5,7)
proof (induction n rule: int_ge_induct)
  case base
  then show ?case by (intro exI [of _ "pmem s"]) auto
next
  case (step n)
  then obtain m where m: "fold (copy_key buf) [0..n - 1] s = s\<lparr>pmem := m\<rparr>"
    "\<And>i. 0 \<le> i \<Longrightarrow> i < n \<Longrightarrow> m (prog_addr p (buf + word_of_int i)) = kb_buf (the_term s) i"
    by (auto simp: in_program_def)
  have d: "drop_bit 22 (buf + word_of_int i) = 32" if "0 \<le> i" "i \<le> n" for i
    using step.prems(1) that by (simp add: in_program_def)
  have "translate False s (buf + word_of_int n) = Some (prog_addr p (buf + word_of_int n))"
    unfolding prog_addr_def using step.hyps d [of n] by (intro program_page [OF assms(1-4)]) simp
  then have "copy_key buf n (s\<lparr>pmem := m\<rparr>) =
      s\<lparr>pmem := m(prog_addr p (buf + word_of_int n) := kb_buf (the_term s) n)\<rparr>"
    using step.prems(2) by (simp add: copy_key_def kstore_def the_term_def)
  moreover have "[0..n] = [0..n - 1] @ [n]" using step.hyps by (rule upto_rec2)
  moreover have "prog_addr p (buf + word_of_int i) \<noteq> prog_addr p (buf + word_of_int n)" if "0 \<le> i" "i < n" for i
  proof -
    have "(word_of_int i :: addr) \<noteq> word_of_int n"
      using that step.prems(2) by (simp add: word_of_int_eq_iff take_bit_int_eq_self)
    then show ?thesis using that step.hyps d by (simp add: prog_addr_inj)
  qed
  ultimately have "fold (copy_key buf) [0..n + 1 - 1] s =
      s\<lparr>pmem := m(prog_addr p (buf + word_of_int n) := kb_buf (the_term s) n)\<rparr>"
    "(m(prog_addr p (buf + word_of_int n) := kb_buf (the_term s) n)) (prog_addr p (buf + word_of_int i)) =
      kb_buf (the_term s) i" if "0 \<le> i" "i < n + 1" for i
    using m that by (cases "i = n"; simp)+
  then show ?case using step.hyps by (metis less_add_one)
qed


lemma read_finish:
  assumes "paging_wf s" "page_directory s 32 = prog_frame p OR 0x087" "1 \<le> p" "p \<le> 6"
    and "in_program buf n" "0 \<le> n" "line_ok (the_term s)"
  defines "r \<equiv> terminal_read_finish buf n s"
  shows "fst r = int (length (take (nat n) (line_of (the_term s))))"
    "0 \<le> i \<Longrightarrow> i < fst r \<Longrightarrow>
       pmem (snd r) (prog_addr p (buf + word_of_int i)) = line_of (the_term s) ! nat i"
    "buf_index (the_term (snd r)) = 0" "iflag (snd r)" "fault (snd r) = fault s"
proof -
  define b where "b = (if n < buf_index (the_term s) then n else buf_index (the_term s))"
  have b: "0 \<le> b" "b \<le> 128" "b \<le> n" "b \<le> buf_index (the_term s)" "0 \<le> buf_index (the_term s)"
    using assms(6,7) by (auto simp: b_def line_ok_def)
  define s0 where "s0 = s\<lparr>iflag := False\<rparr>"
  have c: "the_term s0 = the_term s" by (simp add: s0_def the_term_def)
  have "in_program buf b" using assms(5) b by (auto simp: in_program_def)
  then have "\<exists>m. fold (copy_key buf) [0..b - 1] s0 = s0\<lparr>pmem := m\<rparr> \<and>
      (\<forall>i. 0 \<le> i \<and> i < b \<longrightarrow> m (prog_addr p (buf + word_of_int i)) = kb_buf (the_term s0) i)"
    using assms(1-4) b by (intro copy_keys) (simp_all add: s0_def)
  then obtain m where m: "fold (copy_key buf) [0..b - 1] s0 = s0\<lparr>pmem := m\<rparr>"
    "\<And>i. 0 \<le> i \<Longrightarrow> i < b \<Longrightarrow> m (prog_addr p (buf + word_of_int i)) = kb_buf (the_term s) i"
    using c by auto
  have ck: "(\<lambda>i s. if i < BUF_LENGTH then kstore (buf + word_of_int i) (kb_buf (the_term s) i) s
      else raise_fault s) = copy_key buf"
    by (simp add: copy_key_def fun_eq_iff)
  have r: "r = (b, sti (upd_term (cur_terminal s) (\<lambda>t. t\<lparr>buf_index := 0\<rparr>) (s0\<lparr>pmem := m\<rparr>)))"
    unfolding r_def terminal_read_finish_def Let_def ck cli_def s0_def [symmetric] c b_def [symmetric] m(1)
    by (simp add: s0_def)
  show "fst r = int (length (take (nat n) (line_of (the_term s))))"
    using b by (simp add: r b_def length_line_of)
  show "buf_index (the_term (snd r)) = 0" "iflag (snd r)" "fault (snd r) = fault s"
    by (simp_all add: r s0_def sti_def upd_term_def the_term_def)
  show "pmem (snd r) (prog_addr p (buf + word_of_int i)) = line_of (the_term s) ! nat i" if "0 \<le> i" "i < fst r"
    using that m(2) [of i] b by (simp add: r sti_def upd_term_def line_of_def)
qed


section \<open>Writing\<close>

lemma prints_only_reads:
  assumes "prints_only s t" "translate False s a = Some pa" "4000 \<le> pa - vframe s"
  shows "kload a t = Some (pmem s pa)"
proof -
  have "translate False t = translate False s"
    by (rule edit_frame_paging(2) [OF edit_frame_prints [OF assms(1)]])
  moreover have "pmem t pa = pmem s pa"
    using assms(1,3) unfolding prints_only_def same_outside_def by auto
  ultimately show ?thesis using assms(2) by (simp add: kload_def)
qed

lemma write_bytes:
  assumes "console_inv s"
    and "\<And>i. 0 \<le> i \<Longrightarrow> i < n \<Longrightarrow> translate False s (buf + word_of_int i) = Some (pa i) \<and> 4000 \<le> pa i - vframe s"
    and "0 \<le> n"
  shows "fold (write_byte buf) [0..n - 1] s = fold putc (map (\<lambda>i. pmem s (pa i)) [0..n - 1]) s"
  using assms(3,2)
proof (induction n rule: int_ge_induct)
  case base
  then show ?case by simp
next
  case (step n)
  let ?t = "fold putc (map (\<lambda>i. pmem s (pa i)) [0..n - 1]) s"
  have "fold (write_byte buf) [0..n - 1] s = ?t" by (rule step.IH) (use step.prems in auto)
  moreover have "prints_only s ?t" using assms(1) by (rule screen.frame_puts)
  then have "kload (buf + word_of_int n) ?t = Some (pmem s (pa n))"
    using step.prems [of n] step.hyps by (intro prints_only_reads) auto
  then have "write_byte buf n ?t = putc (pmem s (pa n)) ?t" by (simp add: write_byte_def)
  moreover have "[0..n + 1 - 1] = [0..n - 1] @ [n]" using upto_rec2 [OF step.hyps] by simp
  ultimately show ?case by simp
qed

lemma prog_addr_far:
  assumes "1 \<le> p" "p \<le> 6" "f \<in> screen_pages"
  shows "4000 \<le> prog_addr p a - f"
proof -
  have "take_bit 22 a \<le> 0x3FFFFF"
    using word_and_le1 [of a "0x3FFFFF"] by (simp add: take_bit_eq_mask mask_eq_exp_minus_1 and.commute)
  moreover have "0x800000 \<le> prog_frame p" "prog_frame p \<le> 0x1C00000"
    using assms(1,2) by (elim pid_cases; simp add: prog_frame_def)+
  moreover have "f \<le> 0xBB000" using assms(3) by (auto simp: screen_pages_def)
  moreover have "4000 \<le> P + x - f" if "0x800000 \<le> P" "P \<le> 0x1C00000" "x \<le> 0x3FFFFF" "f \<le> 0xBB000"
    for P x f :: addr
  proof -
    have n: "0x800000 \<le> unat P" "unat P \<le> 0x1C00000" "unat x \<le> 0x3FFFFF" "unat f \<le> 0xBB000"
      using that by (simp_all add: word_le_nat_alt)
    then have s: "unat (P + x) = unat P + unat x" by (subst unat_add_lem [symmetric]) simp
    then have "unat (P + x - f) = unat P + unat x - unat f"
      using n by (subst unat_sub) (simp_all add: word_le_nat_alt)
    then show ?thesis using n by (simp add: word_le_nat_alt)
  qed
  ultimately show ?thesis by (simp add: prog_addr_def)
qed

lemma terminal_write_step:
  assumes "kb_inv s" "display_ok s" "page_directory s 32 = prog_frame p OR 0x087" "1 \<le> p" "p \<le> 6"
    and "buf \<noteq> 0" "0 \<le> n" "in_program buf n"
  defines "bs \<equiv> map (\<lambda>i. pmem s (prog_addr p (buf + word_of_int i))) [0..n - 1]"
  shows "fst (terminal_write buf n s) = n"
    "tty_of (snd (terminal_write buf n s)) = fold tty_put bs (tty_of s)"
    "kb_inv (snd (terminal_write buf n s))" "display_ok (snd (terminal_write buf n s))"
    "iflag (snd (terminal_write buf n s)) = iflag s"
    "term_no k \<Longrightarrow> k \<noteq> cur_sched_term s \<Longrightarrow> i < PAGE_SIZE \<Longrightarrow>
       shown (snd (terminal_write buf n s)) k i = shown s k i"
    "translate False s a = Some pa \<Longrightarrow> 4000 \<le> pa - vframe s \<Longrightarrow> kload a (snd (terminal_write buf n s)) = Some (pmem s pa)"
proof -
  define t where "t = s\<lparr>iflag := False, kb_flags := iflag s\<rparr>"
  define u where "u = fold putc bs t"
  have si: "sched_inv s" and ci: "console_inv s" and b: "buffers_ok s" and c: "term_no (cur_sched_term s)"
    and wf: "paging_wf s"
    using assms(1) by (simp_all add: kb_inv_def sched_inv_def console_inv_def video_ok_def)
  have t: "console_inv t" "display_ok t" "kb_inv t" "tty_of t = tty_of s" "pmem t = pmem s"
    "cur_sched_term t = cur_sched_term s"
    using assms(1,2)
    by (simp_all add: t_def kb_inv_def sched_inv_def slots_ok_def display_ok_def vframe_def screen_of_def)
  have vp: "vframe t \<in> screen_pages"
    using assms(2) screen_of_page [OF b c] by (simp add: t_def display_ok_def vframe_def)
  have "fold (write_byte buf) [0..n - 1] t = u"
    unfolding u_def bs_def t(5) [symmetric]
  proof (rule write_bytes [OF t(1) _ assms(7)])
    fix i assume i: "0 \<le> i" "i < n"
    then have "drop_bit 22 (buf + word_of_int i) = 32" using assms(8) by (simp add: in_program_def)
    moreover have "translate False t = translate False s" by (simp add: t_def)
    ultimately show "translate False t (buf + word_of_int i) = Some (prog_addr p (buf + word_of_int i)) \<and>
        4000 \<le> prog_addr p (buf + word_of_int i) - vframe t"
      using program_page [OF wf assms(3-5)] prog_addr_far [OF assms(4,5) vp] by (simp add: prog_addr_def)
  qed
  then have w: "terminal_write buf n s = (n, u\<lparr>iflag := kb_flags u\<rparr>)"
    using assms(6,7) by (simp add: terminal_write_def cli_and_save_def cli_def restore_flags_def t_def)
  have pr: "prints_only t u" unfolding u_def using t(1) by (rule screen.frame_puts)
  note o = prints_only_others [OF pr]
  have cu: "console_inv u" unfolding u_def using t(1) by (rule screen.inv_puts)
  have more: "console.more u = console.more t" using edit_frame_prints [OF pr] by (simp add: edit_frame_def)
  note sm = sched_of_more [OF more]
  have ed: "editor_inv (fold putc cs v)" if "editor_inv v" for cs and v :: "'a kb_scheme"
    using that by (induction cs arbitrary: v) (simp_all add: editor_putc)
  have "editor_inv u"
    unfolding u_def using t(1,3) by (intro ed) (simp add: editor_inv_def kb_inv_def)
  moreover have "buffers_ok u"
    using edit_frame_buffers [OF edit_frame_prints [OF pr]] t(3) by (simp add: kb_inv_def sched_inv_def)
  moreover have "vid_mem (terminals u k) = vid_mem (terminals t k)" for k
    using edit_frame_prints [OF pr] by (simp add: edit_frame_def)
  then have "slots_ok u" using t(3) by (simp add: slots_ok_def kb_inv_def sched_inv_def sm)
  ultimately have ku: "kb_inv u"
    using t(3) by (simp add: kb_inv_def sched_inv_def editor_inv_def sm)
  show "fst (terminal_write buf n s) = n" by (simp add: w)
  have "tty_of u = fold tty_put bs (tty_of s)"
    unfolding u_def using t(1,4) by (simp add: screen.view_puts)
  then show "tty_of (snd (terminal_write buf n s)) = fold tty_put bs (tty_of s)"
    by (simp add: w)
  show "kb_inv (snd (terminal_write buf n s))"
    using ku by (simp add: w kb_inv_def sched_inv_def slots_ok_def)
  have "display_ok u"
    using t(2) o(5,6) edit_frame_paging(3) [OF edit_frame_prints [OF pr]] edit_frame_prints [OF pr]
    by (simp add: display_ok_def sm screen_of_def edit_frame_def)
  then show "display_ok (snd (terminal_write buf n s))"
    by (simp add: w display_ok_def vframe_def screen_of_def)
  show "iflag (snd (terminal_write buf n s)) = iflag s" by (simp add: w sm t_def)
  have "kload a (u\<lparr>iflag := b\<rparr>) = kload a u" for b by (simp add: kload_def)
  then show "kload a (snd (terminal_write buf n s)) = Some (pmem s pa)"
    if "translate False s a = Some pa" "4000 \<le> pa - vframe s"
    using prints_only_reads [OF pr, of a pa] that by (simp add: w t(5) [symmetric]) (simp add: t_def vframe_def)
  show "shown (snd (terminal_write buf n s)) k i = shown s k i"
    if "term_no k" "k \<noteq> cur_sched_term s" "i < PAGE_SIZE"
  proof -
    have "shown u k i = shown t k i"
      using other_screens [OF pr _ t(2) that(1) _ that(3)] t(3,6) that(2) by (simp add: kb_inv_def)
    moreover have "shown t k i = shown s k i" by (simp add: t_def shown_def screen_of_def)
    moreover have "shown (snd (terminal_write buf n s)) k i = shown u k i"
      by (simp add: w shown_def screen_of_def)
    ultimately show ?thesis by simp
  qed
qed


section \<open>The driver after the boot\<close>

definition kb0 :: kb where
  "kb0 = sched.extend sched0 (kb.fields False)"

definition kb1 :: kb where
  "kb1 = final (pit_interrupt_handler
     ((pit_init (init_shell (init_paging kb0)))\<lparr>prev_sched_term := 0, cur_sched_term := 2\<rparr>))"

lemma kb0_fields:
  "tables_placed kb0" "\<not> fault kb0" "cur_terminal kb0 = 0" "print_terminal kb0 = 0" "cur_sched_term kb0 = 0"
  by (simp_all add: kb0_def sched0_def sched.defs kb.defs tables_placed_def)

lemma kb1_inv:
  "kb_inv kb1" "display_ok kb1" "page_directory kb1 32 = prog_frame 1 OR 0x087"
  "cur_sched_term kb1 = 0" "cur_terminal kb1 = 0" "line_of (the_term kb1) = []" "mods (the_term kb1) = [0, 0, 0, 0]"
  "line_buffer_flag (the_term kb1) = 0"
proof -
  define s where "s = (pit_init (init_shell (init_paging kb0)))\<lparr>prev_sched_term := 0, cur_sched_term := 2\<rparr>"
  obtain q m a where p: "pit_init (init_shell (init_paging kb0)) =
      (init_shell (init_paging kb0))\<lparr>sched_arr := a, master_mask := m, ports := q\<rparr>"
    by (rule pit_init_frame)
  have "sched_inv (pit_init (init_shell (init_paging kb0)))"
    by (rule sched_boot) (simp_all add: kb0_fields term_no_def)
  then have i: "sched_inv s"
    by (simp add: s_def sched_inv_def slots_ok_def term_no_def)
  have pr: "prev_sched_term s \<noteq> - 1" "cur_sched_term s = 2" "term_no (cur_sched_term s)"
    by (simp_all add: s_def term_no_def)
  have tm: "terminals s k = reset_shell (0xB9000 + word_of_int k * PAGE_SIZE) (terminals kb0 k)" if "term_no k" for k
    using that by (simp add: s_def p terminals_init_shell)
  have a0: "sn_process_num (sched_arr s 0) = 1" by (simp add: s_def pit_init_slots)
  have ct: "cur_terminal s = 0" by (simp add: s_def p kb0_fields)
  have k1: "kb1 = final (pit_interrupt_handler s)" by (simp add: kb1_def s_def)
  note t = tick_inv [OF i pr(1), folded k1] and f = pit_tick [OF pr(1,3), folded k1]
  show "cur_sched_term kb1 = 0" "cur_terminal kb1 = 0" "page_directory kb1 32 = prog_frame 1 OR 0x087"
    by (simp_all add: f pr a0 ct)
  show "display_ok kb1" by (rule t)
  show "kb_inv kb1"
    using t(1) by (simp add: kb_inv_def f tm line_ok_def pos_def reset_shell_def)
  show "line_of (the_term kb1) = []" "mods (the_term kb1) = [0, 0, 0, 0]" "line_buffer_flag (the_term kb1) = 0"
    by (simp_all add: the_term_def f ct tm term_no_def reset_shell_def line_of_def mods_def)
qed

text \<open>Clearing the line flag of the reader keeps the invariant.\<close>

lemma read_start_inv:
  assumes "kb_inv s" "display_ok s"
  defines "t \<equiv> upd_term (cur_sched_term s) (\<lambda>t. t\<lparr>line_buffer_flag := 0\<rparr>) s"
  shows "kb_inv t" "display_ok t"
proof -
  have "edit_frame s t" unfolding t_def by (rule edit_frame_upd_term) simp
  from edit_frame_buffers [OF this] have "buffers_ok t"
    using assms(1) by (simp add: kb_inv_def sched_inv_def)
  then show "kb_inv t" "display_ok t"
    using assms(1,2)
    by (simp_all add: t_def upd_term_def kb_inv_def sched_inv_def slots_ok_def console_inv_def on_screen_def
        line_ok_def pos_def display_ok_def screen_of_def)
qed

lemma wait_line_fold:
  "wait_line keys s = Some ([], s') \<Longrightarrow> s' = fold keyboard_interrupt_handler keys s \<and> line_ready s'"
proof (induction keys arbitrary: s)
  case Nil
  then show ?case by (subst (asm) wait_line.simps) (simp split: if_splits)
next
  case (Cons k ks)
  then show ?case by (subst (asm) wait_line.simps) (simp split: if_splits)
qed

lemma enter_overflows:
  assumes "kb_inv s" "overflowing NEW_LINE (the_term s)"
  shows "fault (keyboard_interrupt_handler NEW_LINE s)"
proof -
  note en = kb_enter_editing [OF assms(1)]
  have "fault (print_scancode NEW_LINE (kb_enter s))"
    using assms(2) en by (intro print_scancode_overflow) (auto simp: overflowing_def accepts_def)
  moreover have "keyboard_interrupt_handler NEW_LINE s =
    kb_leave (upd_term (cur_terminal (kb_enter s)) (\<lambda>t. t\<lparr>line_buffer_flag := 1\<rparr>)
      (print_scancode NEW_LINE (kb_enter s)))"
    by (simp add: keyboard_handler_eq ignored_def recent_release_exec_def Let_def word_le_def)
  ultimately show ?thesis by (simp add: kb_leave_def upd_term_def)
qed

section \<open>Properties\<close>





lemma plain_kb1: "plain_key 35 (the_term kb1)" "plain_key 23 (the_term kb1)"
  using kb1_inv(7) by (simp_all add: mods_def plain_key_def control_key_def)

lemma in_program_demo: "in_program 0x8048000 2"
  unfolding in_program_def
proof (intro allI impI)
  fix i :: int assume "0 \<le> i \<and> i < 2"
  then have "i = 0 \<or> i = 1" by arith
  then show "drop_bit 22 (0x8048000 + word_of_int i :: addr) = 32" by auto
qed


text \<open>Writing. \<open>terminal_write\<close> from a buffer of the running program prints exactly the bytes
  of the buffer on the process's own terminal and returns their number; the interrupt flag is
  restored, the driver's invariant is kept, and not one byte of what the other two terminals show
  changes, whichever terminal is in view.\<close>

theorem terminal_write_prints:
  assumes "kb_inv s" "display_ok s" "page_directory s 32 = prog_frame p OR 0x087" "1 \<le> p" "p \<le> 6"
    and "buf \<noteq> 0" "0 \<le> n" "in_program buf n"
    and "term_no k" "k \<noteq> cur_sched_term s" "i < PAGE_SIZE"
  defines "r \<equiv> terminal_write buf n s"
  shows "fst r = n \<and>
    tty_of (snd r) = fold tty_put (map (\<lambda>i. pmem s (prog_addr p (buf + word_of_int i))) [0..n - 1]) (tty_of s) \<and>
    kb_inv (snd r) \<and> display_ok (snd r) \<and> iflag (snd r) = iflag s \<and>
    shown (snd r) k i = shown s k i"
  unfolding r_def using terminal_write_step [OF assms(1-8)] assms(9-11) by simp

theorem terminal_write_prints_witness:
  "fst (terminal_write 0x8048000 2 kb1) = 2 \<and>
   shown (snd (terminal_write 0x8048000 2 kb1)) 2 7 = shown kb1 2 7"
  using terminal_write_prints [OF kb1_inv(1-3), of "0x8048000" 2 2 7]
  by (simp add: kb1_inv term_no_def in_program_demo)

text \<open>C39: The line buffer can overflow. A line of 127 characters and Enter, typed while no process
  reads, fills the buffer; \<open>terminal_read\<close> then clears the line flag without emptying the buffer,
  and the next Enter stores outside \<open>kb_buf\<close>.\<close>

theorem stale_line_overflows:
  assumes "kb_inv s" "display_ok s" "cur_sched_term s = cur_terminal s" "line_of (the_term s) = []"
    and "line_buffer_flag (the_term s) = 0" "buf \<noteq> 0" "0 \<le> n"
    and "\<forall>k \<in> set ks. plain_key k (the_term s)" "length ks = 127"
  defines "typed \<equiv> fold keyboard_interrupt_handler (ks @ [NEW_LINE]) s"
  shows "\<not> fault typed \<and>
    (\<exists>t. terminal_read_start buf n typed = Some t \<and> fault (keyboard_interrupt_handler NEW_LINE t))"
proof -
  obtain u where w: "wait_line (ks @ NEW_LINE # []) s = Some ([], u)" and u: "kb_inv u" "display_ok u"
    "cur_terminal u = cur_terminal s" "cur_sched_term u = cur_sched_term s" "length (line_of (the_term u)) = 128"
    using wait_typed [OF assms(1-3,5,8), of "[]"] assms(4,9) by auto
  have ut: "u = typed" using wait_line_fold [OF w] by (simp add: typed_def)
  define t where "t = upd_term (cur_sched_term u) (\<lambda>t. t\<lparr>line_buffer_flag := 0\<rparr>) u"
  have "the_term t = (the_term u)\<lparr>line_buffer_flag := 0\<rparr>"
    using u(3,4) assms(3) by (simp add: t_def upd_term_def the_term_def)
  then have "overflowing NEW_LINE (the_term t)"
    using u(5) by (simp add: overflowing_def length_line_of)
  then have "fault (keyboard_interrupt_handler NEW_LINE t)"
    using read_start_inv(1) [OF u(1,2)] by (intro enter_overflows) (simp_all add: t_def)
  moreover have "terminal_read_start buf n typed = Some t"
    using assms(6,7) ut by (simp add: terminal_read_start_def t_def)
  moreover have "\<not> fault typed" using u(1) ut by (simp add: kb_inv_def sched_inv_def console_inv_def)
  ultimately show ?thesis by blast
qed

theorem stale_line_overflows_witness:
  "\<not> fault (fold keyboard_interrupt_handler (replicate 127 35 @ [NEW_LINE]) kb1)"
  using stale_line_overflows [OF kb1_inv(1,2) _ kb1_inv(6), of 4 0 "replicate 127 35"]
  by (simp add: kb1_inv plain_kb1)

end
