(* ===== verification/RTC.thy ===== *)
theory RTC
  imports Keyboard
begin

text \<open>
  The real-time clock driver, \<open>student-distrib/rtc.c\<close>. The device always runs at 1024 Hz; each
  terminal gets its own slower clock by counting interrupts.
\<close>

section \<open>State and operations\<close>

record rtc = kb +
  rtc_test_flag :: u32
  rtc_read_test_flag :: u32
  interrupt_flags :: "u32 carray"
  count :: "int carray"
  frequencies :: "int carray"

abbreviation (input) RTC_PORT0 :: u16 where "RTC_PORT0 \<equiv> 0x70"
abbreviation (input) RTC_PORT1 :: u16 where "RTC_PORT1 \<equiv> 0x71"
abbreviation (input) REGISTER_A :: u8 where "REGISTER_A \<equiv> 0x8A"
abbreviation (input) REGISTER_B :: u8 where "REGISTER_B \<equiv> 0x8B"
abbreviation (input) REGISTER_C :: u8 where "REGISTER_C \<equiv> 0x8C"
abbreviation (input) RTC_IRQ_NUM :: u32 where "RTC_IRQ_NUM \<equiv> 8"
abbreviation (input) FREQ_1024 :: u8 where "FREQ_1024 \<equiv> 0x06"
abbreviation (input) MAX_FREQ :: int where "MAX_FREQ \<equiv> 1024"

text \<open>The two bytes read from the device are \<open>prevB\<close> and \<open>prevA\<close>.\<close>

definition rtc_init :: "u8 \<Rightarrow> u8 \<Rightarrow> 'a pic_scheme \<Rightarrow> 'a pic_scheme" where
  "rtc_init prevB prevA s =
     (let s = outb REGISTER_B RTC_PORT0 s;
          s = outb REGISTER_B RTC_PORT0 s;
          s = outb (prevB OR 0x40) RTC_PORT1 s;
          s = outb REGISTER_A RTC_PORT0 s;
          s = outb REGISTER_A RTC_PORT0 s;
          s = outb ((prevA AND 0xF0) OR FREQ_1024) RTC_PORT1 s
      in enable_irq RTC_IRQ_NUM s)"

text \<open>\<open>if(count[i]++ >= frequencies[i] - 1)\<close>: the comparison is with the old count.\<close>

definition count_tick :: "int \<Rightarrow> 'a rtc_scheme \<Rightarrow> 'a rtc_scheme" where
  "count_tick i s =
     (let old = count s i;
          s = s\<lparr>count := (count s)(i := old + 1)\<rparr>
      in if old \<ge> frequencies s i - 1
         then s\<lparr>interrupt_flags := (interrupt_flags s)(i := 1), count := (count s)(i := 0)\<rparr>
         else s)"

definition rtc_interrupt_handler :: "'a rtc_scheme \<Rightarrow> 'a rtc_scheme" where
  "rtc_interrupt_handler s =
     (let (flags, s) = cli_and_save s;
          s = disable_irq RTC_IRQ_NUM s;
          s = send_eoi RTC_IRQ_NUM s;
          s = fold count_tick [0, 1, 2] s;
          s = (if rtc_test_flag s \<noteq> 0 then putc 0x66 s else s);
          s = outb REGISTER_C RTC_PORT0 s;
          s = enable_irq RTC_IRQ_NUM s
      in restore_flags flags s)"

definition rtc_open :: "'a rtc_scheme \<Rightarrow> int \<times> 'a rtc_scheme" where
  "rtc_open s =
     (let (flags, s) = cli_and_save s;
          s = s\<lparr>frequencies := (frequencies s)(cur_sched_term s := MAX_FREQ div 2)\<rparr>
      in (0, restore_flags flags s))"

definition rtc_close :: "'a rtc_scheme \<Rightarrow> int \<times> 'a rtc_scheme" where
  "rtc_close s = (0, s)"

text \<open>\<open>rtc_read\<close> up to its wait loop, and the condition the loop waits for; it then returns 0.\<close>

definition rtc_read_start :: "'a rtc_scheme \<Rightarrow> 'a rtc_scheme" where
  "rtc_read_start s =
     (let s = cli s;
          s = s\<lparr>interrupt_flags := (interrupt_flags s)(cur_sched_term s := 0)\<rparr>
      in sti s)"

definition rtc_ready :: "'a rtc_scheme \<Rightarrow> bool" where
  "rtc_ready s \<longleftrightarrow> interrupt_flags s (cur_sched_term s) \<noteq> 0"

text \<open>The wait loop while \<open>n\<close> clock interrupts arrive; \<open>None\<close> when it is still waiting.\<close>

fun rtc_wait :: "nat \<Rightarrow> 'a rtc_scheme \<Rightarrow> 'a rtc_scheme option" where
  "rtc_wait n s =
     (if rtc_ready s then Some s
      else case n of 0 \<Rightarrow> None | Suc k \<Rightarrow> rtc_wait k (rtc_interrupt_handler s))"

declare rtc_wait.simps [simp del]

definition rtc_read :: "nat \<Rightarrow> 'a rtc_scheme \<Rightarrow> (int \<times> 'a rtc_scheme) option" where
  "rtc_read n s = map_option (Pair 0) (rtc_wait n (rtc_read_start s))"

definition rtc_rate :: "int \<Rightarrow> int option" where
  "rtc_rate freq =
     (if freq = 2 then Some (MAX_FREQ div 2) else if freq = 4 then Some (MAX_FREQ div 4)
      else if freq = 8 then Some (MAX_FREQ div 8) else if freq = 16 then Some (MAX_FREQ div 16)
      else if freq = 32 then Some (MAX_FREQ div 32) else if freq = 64 then Some (MAX_FREQ div 64)
      else if freq = 128 then Some (MAX_FREQ div 128) else if freq = 512 then Some (MAX_FREQ div 512)
      else if freq = 1024 then Some (MAX_FREQ div 1024) else None)"

text \<open>\<open>*(int32_t*)buf\<close> at a virtual address.\<close>

definition kload32 :: "addr \<Rightarrow> 'a paging_scheme \<Rightarrow> u32 option" where
  "kload32 a s =
     do {
       b0 \<leftarrow> kload a s; b1 \<leftarrow> kload (a + 1) s; b2 \<leftarrow> kload (a + 2) s; b3 \<leftarrow> kload (a + 3) s;
       Some (ucast b0 OR push_bit 8 (ucast b1) OR push_bit 16 (ucast b2) OR push_bit 24 (ucast b3))
     }"

definition rtc_write :: "addr \<Rightarrow> int \<Rightarrow> 'a rtc_scheme \<Rightarrow> int \<times> 'a rtc_scheme" where
  "rtc_write buf nbytes s =
     (let (flags, s) = cli_and_save s
      in if nbytes \<noteq> 4 \<or> buf = 0 then (- 1, restore_flags flags s)
         else case kload32 buf s of
                None \<Rightarrow> (- 1, raise_fault s)
              | Some freq \<Rightarrow>
                  (case rtc_rate (sint freq) of
                     None \<Rightarrow> (- 1, restore_flags flags s)
                   | Some rate \<Rightarrow>
                       let s = s\<lparr>frequencies := (frequencies s)(cur_sched_term s := rate)\<rparr>
                       in (0, restore_flags flags s)))"

section \<open>One interrupt\<close>

text \<open>The clock of one terminal: its flag and its counter after an interrupt.\<close>

definition fires :: "'a rtc_scheme \<Rightarrow> int \<Rightarrow> bool" where
  "fires s i \<longleftrightarrow> count s i \<ge> frequencies s i - 1"

lemma count_tick_eq:
  "count_tick i s =
   s\<lparr>interrupt_flags := (interrupt_flags s)(i := if fires s i then 1 else interrupt_flags s i),
     count := (count s)(i := if fires s i then 0 else count s i + 1)\<rparr>"
  by (auto simp: count_tick_def fires_def Let_def intro!: rtc.equality)

lemma rtc_tick:
  assumes "rtc_test_flag s = 0" "term_no i"
  defines "s' \<equiv> rtc_interrupt_handler s"
  shows "interrupt_flags s' i = (if fires s i then 1 else interrupt_flags s i)"
    "count s' i = (if fires s i then 0 else count s i + 1)"
    "frequencies s' = frequencies s" "cur_sched_term s' = cur_sched_term s" "rtc_test_flag s' = 0"
    "iflag s' = iflag s"
  using assms
  by (auto simp: rtc_interrupt_handler_def cli_and_save_def cli_def restore_flags_def Let_def
      disable_irq_def enable_irq_def send_eoi_def outb_def count_tick_eq fires_def elim!: term_no_cases)

text \<open>How many interrupts the terminal's clock still needs.\<close>

definition ticks_left :: "'a rtc_scheme \<Rightarrow> int \<Rightarrow> nat" where
  "ticks_left s i = nat (max 1 (frequencies s i - count s i))"

lemma rtc_wait_ticks:
  assumes "rtc_test_flag s = 0" "term_no (cur_sched_term s)"
    and "interrupt_flags s (cur_sched_term s) = 0"
  shows "if n < ticks_left s (cur_sched_term s) then rtc_wait n s = None
    else \<exists>s'. rtc_wait n s = Some s' \<and> count s' (cur_sched_term s) = 0 \<and>
      cur_sched_term s' = cur_sched_term s \<and> frequencies s' = frequencies s"
  using assms
proof (induction n arbitrary: s)
  case 0
  then show ?case by (auto simp: rtc_wait.simps rtc_ready_def ticks_left_def)
next
  case (Suc n)
  define s1 where "s1 = rtc_interrupt_handler s"
  let ?i = "cur_sched_term s"
  note t = rtc_tick [OF Suc.prems(1,2), folded s1_def]
  have w: "rtc_wait (Suc n) s = rtc_wait n s1"
    using Suc.prems(3) by (subst rtc_wait.simps) (simp add: rtc_ready_def s1_def)
  show ?case
  proof (cases "fires s ?i")
    case True
    then have "rtc_wait n s1 = Some s1" using t by (subst rtc_wait.simps) (simp add: rtc_ready_def)
    moreover have "ticks_left s ?i = 1" using True by (simp add: ticks_left_def fires_def)
    ultimately show ?thesis using True t by (simp add: w)
  next
    case False
    then have "ticks_left s ?i = Suc (ticks_left s1 ?i)"
      using t by (simp add: ticks_left_def fires_def)
    moreover have "if n < ticks_left s1 (cur_sched_term s1) then rtc_wait n s1 = None
      else \<exists>s'. rtc_wait n s1 = Some s' \<and> count s' (cur_sched_term s1) = 0 \<and>
        cur_sched_term s' = cur_sched_term s1 \<and> frequencies s' = frequencies s1"
      using Suc.prems t False by (intro Suc.IH) simp_all
    ultimately show ?thesis using t by (cases "n < ticks_left s1 ?i") (simp_all add: w)
  qed
qed

section \<open>Properties\<close>

definition rtc0 :: rtc where
  "rtc0 = kb.extend kb1 (rtc.fields 0 0 (\<lambda>_. 0) (\<lambda>_. 0) (\<lambda>_. 0))"

lemma rtc0_fields:
  "rtc_test_flag rtc0 = 0" "cur_sched_term rtc0 = 0" "count rtc0 = (\<lambda>_. 0)" "frequencies rtc0 = (\<lambda>_. 0)"
  using kb1_inv(4) by (simp_all add: rtc0_def kb.defs rtc.defs)

text \<open>C35: The virtual clock. \<open>rtc_read\<close> of a terminal whose rate is \<open>r\<close> and whose counter is not
  negative waits for exactly the interrupts its counter still needs, between 1 and \<open>r\<close> of them, and
  leaves the counter at 0, so that the next read needs a full period.\<close>

theorem rtc_read_waits_period:
  assumes "rtc_test_flag s = 0" "term_no (cur_sched_term s)"
    and "1 \<le> frequencies s (cur_sched_term s)" "0 \<le> count s (cur_sched_term s)"
  defines "d \<equiv> nat (max 1 (frequencies s (cur_sched_term s) - count s (cur_sched_term s)))"
  shows "1 \<le> d \<and> int d \<le> frequencies s (cur_sched_term s) \<and>
    (if n < d then rtc_read n s = None
     else \<exists>s'. rtc_read n s = Some (0, s') \<and> count s' (cur_sched_term s) = 0)"
proof -
  define t where "t = rtc_read_start s"
  have t: "rtc_test_flag t = 0" "cur_sched_term t = cur_sched_term s"
    "interrupt_flags t (cur_sched_term t) = 0" "ticks_left t (cur_sched_term t) = d"
    using assms(1) by (simp_all add: t_def rtc_read_start_def Let_def cli_def sti_def ticks_left_def d_def)
  have "1 \<le> d" "int d \<le> frequencies s (cur_sched_term s)" using assms(3,4) by (simp_all add: d_def)
  then show ?thesis
    using rtc_wait_ticks [of t n] assms(2) t by (auto simp: rtc_read_def t_def [symmetric] split: if_splits)
qed

theorem rtc_read_waits_period_witness:
  "rtc_read 511 (snd (rtc_open rtc0)) = None \<and> rtc_read 512 (snd (rtc_open rtc0)) \<noteq> None"
proof -
  have "rtc_test_flag (snd (rtc_open rtc0)) = 0" "cur_sched_term (snd (rtc_open rtc0)) = 0"
    "frequencies (snd (rtc_open rtc0)) 0 = 512" "count (snd (rtc_open rtc0)) 0 = 0"
    using rtc0_fields by (simp_all add: rtc_open_def cli_and_save_def cli_def restore_flags_def)
  then show ?thesis
    using rtc_read_waits_period [of "snd (rtc_open rtc0)" 511] rtc_read_waits_period [of "snd (rtc_open rtc0)" 512]
    by (auto simp: term_no_def)
qed


text \<open>A state in which the word at \<open>0x8048000\<close> of the running program is 64.\<close>

definition rtc1 :: rtc where
  "rtc1 = rtc0\<lparr>pmem := (\<lambda>_. 0)(page_join 22 (prog_frame 1) 0x8048000 := 64)\<rparr>"

lemma kload32_rtc1: "kload32 0x8048000 (rtc1\<lparr>iflag := False\<rparr>) = Some 64"
proof -
  have w: "paging_wf (rtc1\<lparr>iflag := False\<rparr>)"
    using kb1_inv(1) by (simp add: rtc1_def rtc0_def kb.defs rtc.defs kb_inv_def sched_inv_def console_inv_def video_ok_def paging_wf_def paging_on_def)
  have d: "page_directory (rtc1\<lparr>iflag := False\<rparr>) 32 = prog_frame 1 OR 0x087"
    using kb1_inv(3) by (simp add: rtc1_def rtc0_def kb.defs rtc.defs)
  have "kload va (rtc1\<lparr>iflag := False\<rparr>) = Some (pmem rtc1 (page_join 22 (prog_frame 1) va))"
    if "drop_bit 22 va = 32" for va
    using translate_user_page [OF w d that] by (simp add: kload_def)
  then show ?thesis by (simp add: kload32_def rtc1_def page_join_def prog_frame_def)
qed


end
