(* ===== verification/CString.thy ===== *)
theory CString
  imports CMemory
begin

text \<open>
  The C string routines of \<open>student-distrib/lib.c\<close>: \<open>strlen\<close>, \<open>strncmp\<close>,
  \<open>strcpy\<close> and \<open>strncpy\<close>. \<open>strlen\<close> and \<open>strcpy\<close> run until they meet a zero byte, so they
  are partial: \<open>None\<close> stands for a loop that never ends. The lemmas relate each routine to
  the byte list that the memory holds.
\<close>

section \<open>The routines\<close>

partial_function (option) strlen_loop :: "mem \<Rightarrow> addr \<Rightarrow> u32 \<Rightarrow> u32 option" where
  "strlen_loop m s len = (if m (s + len) \<noteq> 0 then strlen_loop m s (len + 1) else Some len)"

definition strlen :: "mem \<Rightarrow> addr \<Rightarrow> u32 option" where
  "strlen m s = strlen_loop m s 0"

text \<open>\<open>int8_t\<close> is a signed character, so the returned difference is one of signed values.
  The comparison \<open>i < n\<close> is unsigned.\<close>

function strncmp_loop :: "mem \<Rightarrow> addr \<Rightarrow> addr \<Rightarrow> u32 \<Rightarrow> u32 \<Rightarrow> int" where
  "strncmp_loop m s1 s2 n i =
     (if i < n
      then (if m (s1 + i) \<noteq> m (s2 + i) \<or> m (s1 + i) = 0
            then sint (m (s1 + i)) - sint (m (s2 + i))
            else strncmp_loop m s1 s2 n (i + 1))
      else 0)"
  by pat_completeness auto
termination
  by (relation "measure (\<lambda>(m, s1, s2, n, i). unat n - unat i)") (auto, unat_arith)

definition strncmp :: "mem \<Rightarrow> addr \<Rightarrow> addr \<Rightarrow> u32 \<Rightarrow> int" where
  "strncmp m s1 s2 n = strncmp_loop m s1 s2 n 0"

partial_function (option) strcpy_loop :: "mem \<Rightarrow> addr \<Rightarrow> addr \<Rightarrow> u32 \<Rightarrow> mem option" where
  "strcpy_loop m dest src i =
     (if m (src + i) \<noteq> 0 then strcpy_loop (m(dest + i := m (src + i))) dest src (i + 1)
      else Some (m(dest + i := 0)))"

definition strcpy :: "mem \<Rightarrow> addr \<Rightarrow> addr \<Rightarrow> mem option" where
  "strcpy m dest src = strcpy_loop m dest src 0"

function strncpy_copy :: "mem \<Rightarrow> addr \<Rightarrow> addr \<Rightarrow> u32 \<Rightarrow> u32 \<Rightarrow> mem \<times> u32" where
  "strncpy_copy m dest src n i =
     (if m (src + i) \<noteq> 0 \<and> i < n
      then strncpy_copy (m(dest + i := m (src + i))) dest src n (i + 1)
      else (m, i))"
  by pat_completeness auto
termination
  by (relation "measure (\<lambda>(m, d, s, n, i). unat n - unat i)") (auto, unat_arith)

function strncpy_fill :: "mem \<Rightarrow> addr \<Rightarrow> u32 \<Rightarrow> u32 \<Rightarrow> mem" where
  "strncpy_fill m dest n i =
     (if i < n then strncpy_fill (m(dest + i := 0)) dest n (i + 1) else m)"
  by pat_completeness auto
termination
  by (relation "measure (\<lambda>(m, d, n, i). unat n - unat i)") (auto, unat_arith)

declare strncmp_loop.simps [simp del] strncpy_copy.simps [simp del] strncpy_fill.simps [simp del]

definition strncpy :: "mem \<Rightarrow> addr \<Rightarrow> addr \<Rightarrow> u32 \<Rightarrow> mem" where
  "strncpy m dest src n =
     (let (m', i) = strncpy_copy m dest src n 0 in strncpy_fill m' dest n i)"

section \<open>Byte lists in memory\<close>

definition bytes_at :: "mem \<Rightarrow> addr \<Rightarrow> nat \<Rightarrow> u8 list" where
  "bytes_at m s n = map (\<lambda>i. m (s + of_nat i)) [0..<n]"

definition cstr :: "u8 list \<Rightarrow> u8 list" where
  "cstr bs = takeWhile (\<lambda>b. b \<noteq> 0) bs"

text \<open>A terminated string with content \<open>xs\<close> at \<open>s\<close>.\<close>

definition is_cstr :: "mem \<Rightarrow> addr \<Rightarrow> u8 list \<Rightarrow> bool" where
  "is_cstr m s xs \<longleftrightarrow>
     bytes_at m s (length xs) = xs \<and> m (s + of_nat (length xs)) = 0 \<and>
     0 \<notin> set xs \<and> length xs < 2 ^ 32 - 1"

lemma length_bytes_at [simp]: "length (bytes_at m s n) = n"
  by (simp add: bytes_at_def)

lemma nth_bytes_at [simp]: "i < n \<Longrightarrow> bytes_at m s n ! i = m (s + of_nat i)"
  by (simp add: bytes_at_def)

lemma bytes_at_0 [simp]: "bytes_at m s 0 = []"
  by (simp add: bytes_at_def)

lemma bytes_at_Suc: "bytes_at m s (Suc n) = m s # bytes_at m (s + 1) n"
  by (rule nth_equalityI) (auto simp: nth_Cons algebra_simps split: nat.split)

lemma take_bytes_at [simp]: "take k (bytes_at m s n) = bytes_at m s (min k n)"
  by (rule nth_equalityI) auto

lemma bytes_at_cong:
  "(\<And>i. i < n \<Longrightarrow> m (s + of_nat i) = m' (s + of_nat i)) \<Longrightarrow> bytes_at m s n = bytes_at m' s n"
  by (rule nth_equalityI) auto

lemma cstr_Nil [simp]: "cstr [] = []"
  by (simp add: cstr_def)

lemma cstr_Cons: "cstr (b # bs) = (if b = 0 then [] else b # cstr bs)"
  by (simp add: cstr_def)

lemma length_cstr_le: "length (cstr bs) \<le> length bs"
  by (simp add: cstr_def length_takeWhile_le)

lemma cstr_no_zero: "0 \<notin> set bs \<Longrightarrow> cstr bs = bs"
  by (auto simp: cstr_def)

lemma is_cstrD:
  assumes "is_cstr m s xs"
  shows "i < length xs \<Longrightarrow> m (s + of_nat i) = xs ! i"
    and "i < length xs \<Longrightarrow> m (s + of_nat i) \<noteq> 0"
    and "m (s + of_nat (length xs)) = 0"
    and "length xs < 2 ^ 32 - 1"
proof -
  show eq: "i < length xs \<Longrightarrow> m (s + of_nat i) = xs ! i"
    using assms by (metis is_cstr_def nth_bytes_at)
  then show "i < length xs \<Longrightarrow> m (s + of_nat i) \<noteq> 0"
    using assms by (metis is_cstr_def nth_mem)
qed (use assms in \<open>auto simp: is_cstr_def\<close>)

section \<open>strlen and strncmp\<close>

lemma strlen_loop_cstr:
  assumes "is_cstr m s xs" and "i \<le> length xs"
  shows "strlen_loop m s (of_nat i) = Some (of_nat (length xs))"
  using assms(2)
proof (induction "length xs - i" arbitrary: i)
  case 0
  then show ?case
    using is_cstrD(3) [OF assms(1)] by (simp add: strlen_loop.simps)
next
  case (Suc k)
  then have i: "i < length xs" by simp
  with Suc have "strlen_loop m s (of_nat (Suc i)) = Some (of_nat (length xs))"
    by (intro Suc.hyps(1)) auto
  with i show ?case
    using is_cstrD(2) [OF assms(1) i]
    by (subst strlen_loop.simps) (simp add: add.commute)
qed

lemma strlen_cstr: "is_cstr m s xs \<Longrightarrow> strlen m s = Some (of_nat (length xs))"
  using strlen_loop_cstr [of m s xs 0] by (simp add: strlen_def)

text \<open>The comparison as a function of the two byte lists.\<close>

fun cmp_bytes :: "u8 list \<Rightarrow> u8 list \<Rightarrow> int" where
  "cmp_bytes (a # as) (b # bs) =
     (if a \<noteq> b \<or> a = 0 then sint a - sint b else cmp_bytes as bs)"
| "cmp_bytes _ _ = 0"

lemma sint_eq_8 [simp]: "sint a = sint (b :: u8) \<longleftrightarrow> a = b"
  by (rule word_eq_iff_signed [symmetric])

lemma sint_eq_0_8 [simp]: "sint (b :: u8) = 0 \<longleftrightarrow> b = 0"
  using sint_eq_8 [of b 0] by (simp del: sint_eq_8)

lemma cmp_bytes_0:
  "length as = length bs \<Longrightarrow> cmp_bytes as bs = 0 \<longleftrightarrow> cstr as = cstr bs"
  by (induction as bs rule: list_induct2) (auto simp: cstr_Cons)

lemma strncmp_loop_bytes:
  "i \<le> n \<Longrightarrow> strncmp_loop m s1 s2 n i =
     cmp_bytes (bytes_at m (s1 + i) (unat n - unat i)) (bytes_at m (s2 + i) (unat n - unat i))"
proof (induction m s1 s2 n i rule: strncmp_loop.induct)
  case (1 m s1 s2 n i)
  show ?case
  proof (cases "i < n")
    case False
    with "1.prems" show ?thesis by (simp add: strncmp_loop.simps)
  next
    case True
    then have le: "i + 1 \<le> n" and u: "unat n - unat i = Suc (unat n - unat (i + 1))"
      by unat_arith+
    from True "1.IH" le show ?thesis
      by (simp add: strncmp_loop.simps [of m s1 s2 n i] u bytes_at_Suc add.assoc)
  qed
qed

text \<open>\<open>strncmp\<close> returns zero exactly when the two strings agree up to a zero byte or \<open>n\<close> bytes.\<close>

lemma strncmp_eq_0_iff:
  "strncmp m s1 s2 n = 0 \<longleftrightarrow>
     cstr (bytes_at m s1 (unat n)) = cstr (bytes_at m s2 (unat n))"
  using strncmp_loop_bytes [of 0 n m s1 s2] by (simp add: strncmp_def cmp_bytes_0)

section \<open>Copying strings\<close>

lemma copied_snoc:
  assumes "i < n" and "n \<le> d - s"
  shows "(copied m d s i)(d + i := copied m d s i (s + i)) = copied m d s (i + 1)"
proof -
  have "i \<le> i + 1" and "i + 1 \<le> d - s" using assms by unat_arith+
  then have "copied (copied m d s i) (d + i) (s + i) (i + 1 - i) = copied m d s (i + 1)"
    by (rule copied_split)
  then show ?thesis by (simp add: copied_1)
qed

lemma copied_src:
  assumes "i < n" and "n \<le> d - s"
  shows "copied m d s i (s + i) = m (s + i)"
proof -
  have e: "s + i - d = i - (d - s)" by simp
  have "\<not> i - (d - s) < i" using assms by unat_arith
  then show ?thesis by (simp add: copied_def e)
qed

lemma strcpy_loop_copied:
  assumes "is_cstr m s xs" and "of_nat (length xs) + 1 \<le> d - s" and "i \<le> length xs"
  shows "strcpy_loop (copied m d s (of_nat i)) d s (of_nat i) =
    Some (copied m d s (of_nat (length xs) + 1))"
  using assms(3)
proof (induction "length xs - i" arbitrary: i)
  case 0
  let ?n = "of_nat (length xs) :: addr"
  have lt: "?n < ?n + 1"
    using is_cstrD(4) [OF assms(1)] of_nat_less32 [of "length xs" "Suc (length xs)"]
    by (simp add: add.commute)
  have "i = length xs" using 0 by simp
  with lt show ?case
    using is_cstrD(3) [OF assms(1)] copied_src [OF lt assms(2)] copied_snoc [OF lt assms(2), of m]
    by (subst strcpy_loop.simps) simp
next
  case (Suc k)
  let ?i = "of_nat i :: addr" and ?n = "of_nat (length xs) :: addr"
  have i: "i < length xs" using Suc by simp
  have lt: "?i < ?n + 1"
    using is_cstrD(4) [OF assms(1)] i of_nat_less32 [of i "Suc (length xs)"]
    by (simp add: add.commute)
  have "strcpy_loop (copied m d s (of_nat (Suc i))) d s (of_nat (Suc i)) =
      Some (copied m d s (?n + 1))"
    using Suc i by (intro Suc.hyps(1)) auto
  then show ?case
    using is_cstrD(2) [OF assms(1) i] copied_src [OF lt assms(2)] copied_snoc [OF lt assms(2), of m]
    by (subst strcpy_loop.simps) (simp add: add.commute)
qed

lemma strcpy_copied:
  "is_cstr m s xs \<Longrightarrow> of_nat (length xs) + 1 \<le> d - s \<Longrightarrow>
   strcpy m d s = Some (copied m d s (of_nat (length xs) + 1))"
  using strcpy_loop_copied [of m s xs d 0] by (simp add: strcpy_def)

lemma strncpy_copy_copied:
  assumes "i \<le> n" and "n \<le> d - s"
  shows "strncpy_copy (copied m d s i) d s n i =
    (let k = i + of_nat (length (cstr (bytes_at m (s + i) (unat n - unat i))))
     in (copied m d s k, k))"
  using assms(1)
proof (induction "unat n - unat i" arbitrary: i)
  case 0
  then have "i = n" by unat_arith
  then show ?case by (simp add: strncpy_copy.simps)
next
  case (Suc u)
  then have lt: "i < n" and le: "i + 1 \<le> n" and u: "u = unat n - unat (i + 1)"
    and u': "unat n - unat i = Suc (unat n - unat (i + 1))"
    by unat_arith+
  have "strncpy_copy (copied m d s i) d s n i =
      (if m (s + i) \<noteq> 0 then strncpy_copy (copied m d s (i + 1)) d s n (i + 1)
       else (copied m d s i, i))"
    using lt copied_src [OF lt assms(2)] copied_snoc [OF lt assms(2), of m]
    by (subst strncpy_copy.simps) simp
  then show ?case
    using Suc.hyps(1) [OF u le] unfolding u' bytes_at_Suc
    by (simp add: cstr_Cons Let_def add.assoc)
qed

lemma strncpy_fill_filled: "i \<le> n \<Longrightarrow> strncpy_fill m d n i = filled m (d + i) 0 (n - i)"
proof (induction m d n i rule: strncpy_fill.induct)
  case (1 m d n i)
  show ?case
  proof (cases "i < n")
    case False
    with "1.prems" show ?thesis by (simp add: strncpy_fill.simps)
  next
    case True
    then have le: "i + 1 \<le> n" and one: "1 \<le> n - i" by unat_arith+
    have "n - i - 1 = n - (i + 1)" by simp
    with True "1.IH" le filled_split [OF one, of m "d + i" 0] show ?thesis
      by (simp add: strncpy_fill.simps [of m d n i] filled_1 add.assoc)
  qed
qed

lemma strncpy_copied:
  fixes m :: mem and d s :: addr and n :: u32
  assumes "n \<le> d - s"
  defines "k \<equiv> of_nat (length (cstr (bytes_at m s (unat n))))"
  shows "strncpy m d s n = filled (copied m d s k) (d + k) 0 (n - k)"
proof -
  have "length (cstr (bytes_at m s (unat n))) \<le> unat n"
    using length_cstr_le [of "bytes_at m s (unat n)"] by simp
  then have "k \<le> n"
    using of_nat_le32 [of _ "unat n"] unat_lt32 [of n] by (simp add: k_def)
  with strncpy_copy_copied [of 0 n d s m] assms(1) show ?thesis
    by (simp add: strncpy_def k_def Let_def strncpy_fill_filled)
qed

end
