(* ===== verification/FileSystem.thy ===== *)
theory FileSystem
  imports CString
begin

text \<open>
  The read-only file system of \<open>student-distrib/file_system.c\<close>. The image lies in memory at
  \<open>fs_start\<close>: the boot block with the directory, one block per inode, then the data blocks, all
  of 4 KB. The functions here work on the memory the kernel addresses; the file descriptors
  that call them belong to the system calls.
\<close>

section \<open>Layout\<close>

abbreviation (input) FOUR_KB :: u32 where "FOUR_KB \<equiv> 4096"
abbreviation (input) NAME_LENGTH :: u32 where "NAME_LENGTH \<equiv> 32"

text \<open>Little-endian double words; \<open>memcpy\<close> of four bytes into a local variable is \<open>load32\<close>.\<close>

definition load32 :: "mem \<Rightarrow> addr \<Rightarrow> u32" where
  "load32 m a =
     ucast (m a) OR push_bit 8 (ucast (m (a + 1))) OR push_bit 16 (ucast (m (a + 2))) OR
     push_bit 24 (ucast (m (a + 3)))"

definition store32 :: "addr \<Rightarrow> u32 \<Rightarrow> mem \<Rightarrow> mem" where
  "store32 a v m =
     m(a := ucast v, a + 1 := ucast (drop_bit 8 v), a + 2 := ucast (drop_bit 16 v),
       a + 3 := ucast (drop_bit 24 v))"

text \<open>\<open>boot_block_t\<close>: three counts, 52 reserved bytes, then the directory entries of 64 bytes.\<close>

definition num_dentries :: "mem \<Rightarrow> addr \<Rightarrow> u32" where "num_dentries m fs = load32 m fs"
definition num_inodes :: "mem \<Rightarrow> addr \<Rightarrow> u32" where "num_inodes m fs = load32 m (fs + 4)"
definition num_dblocks :: "mem \<Rightarrow> addr \<Rightarrow> u32" where "num_dblocks m fs = load32 m (fs + 8)"

definition dentry_addr :: "addr \<Rightarrow> u32 \<Rightarrow> addr" where
  "dentry_addr fs i = fs + 64 + 64 * i"

text \<open>The fields of \<open>dentry_t\<close>: the name in the first 32 bytes, type and inode after it.\<close>

definition file_type :: "mem \<Rightarrow> addr \<Rightarrow> u32" where "file_type m d = load32 m (d + 32)"
definition inode_num :: "mem \<Rightarrow> addr \<Rightarrow> u32" where "inode_num m d = load32 m (d + 36)"

section \<open>The directory\<close>

text \<open>\<open>NULL\<close> is 0; \<open>None\<close> when the file name has no terminator, so that \<open>strlen\<close> never returns.\<close>

function find_dentry_from :: "mem \<Rightarrow> addr \<Rightarrow> addr \<Rightarrow> u32 \<Rightarrow> addr option" where
  "find_dentry_from m fs filename i =
     (if i < num_dentries m fs
      then case strlen m filename of
             None \<Rightarrow> None
           | Some len \<Rightarrow>
               if strncmp m (dentry_addr fs i) filename len = 0 \<and>
                  strncmp m (dentry_addr fs i) filename NAME_LENGTH = 0
               then Some (dentry_addr fs i)
               else find_dentry_from m fs filename (i + 1)
      else Some 0)"
  by pat_completeness auto
termination
  by (relation "measure (\<lambda>(m, fs, filename, i). unat (num_dentries m fs) - unat i)") (auto, unat_arith+)

declare find_dentry_from.simps [simp del]

definition find_dentry :: "mem \<Rightarrow> addr \<Rightarrow> addr \<Rightarrow> addr option" where
  "find_dentry m fs filename = find_dentry_from m fs filename 0"

text \<open>The copy both readers make: the name, then type and inode.\<close>

definition copy_dentry :: "mem \<Rightarrow> addr \<Rightarrow> addr \<Rightarrow> mem" where
  "copy_dentry m dentry file_dentry =
     (let m = strncpy m dentry file_dentry NAME_LENGTH;
          m = store32 (dentry + 32) (file_type m file_dentry) m
      in store32 (dentry + 36) (inode_num m file_dentry) m)"

definition read_dentry_by_name :: "mem \<Rightarrow> addr \<Rightarrow> addr \<Rightarrow> addr \<Rightarrow> (int \<times> mem) option" where
  "read_dentry_by_name m fs filename dentry =
     (case find_dentry m fs filename of
        None \<Rightarrow> None
      | Some file_dentry \<Rightarrow>
          if file_dentry = 0 then Some (- 1, m) else Some (0, copy_dentry m dentry file_dentry))"

definition read_dentry_by_index :: "mem \<Rightarrow> addr \<Rightarrow> u32 \<Rightarrow> addr \<Rightarrow> int \<times> mem" where
  "read_dentry_by_index m fs index dentry =
     (if index \<ge> num_dentries m fs then (- 1, m)
      else (0, copy_dentry m dentry (dentry_addr fs index)))"

section \<open>File data\<close>

definition inode_addr :: "addr \<Rightarrow> u32 \<Rightarrow> addr" where
  "inode_addr fs inode = fs + FOUR_KB * (inode + 1)"

definition dblock_addr :: "mem \<Rightarrow> addr \<Rightarrow> u32 \<Rightarrow> addr" where
  "dblock_addr m fs dblock_num = fs + (num_inodes m fs + 1) * FOUR_KB + dblock_num * FOUR_KB"

text \<open>The copy loop. Each round copies to the end of the current block or to the end point,
  so the distance to the end point shrinks, also when it wraps around.\<close>

definition copy_length :: "u32 \<Rightarrow> u32 \<Rightarrow> u32" where
  "copy_length cur end =
     (if FOUR_KB - cur mod FOUR_KB > end - cur then end - cur else FOUR_KB - cur mod FOUR_KB)"

lemma unat_minus_less: "0 < c \<Longrightarrow> c \<le> x \<Longrightarrow> unat (x - c) < unat (x :: u32)"
  by unat_arith

lemma copy_length_bounds:
  assumes "cur \<noteq> end"
  shows "0 < copy_length cur end" "copy_length cur end \<le> end - cur"
proof -
  have "unat (cur mod FOUR_KB) < 4096" by (simp add: unat_mod)
  then have "cur mod FOUR_KB < FOUR_KB" by (simp add: word_less_nat_alt)
  then have "0 < FOUR_KB - cur mod FOUR_KB" by unat_arith
  moreover have "0 < end - cur" using assms by (simp add: word_neq_0_conv [symmetric])
  ultimately show "0 < copy_length cur end" by (simp add: copy_length_def)
  show "copy_length cur end \<le> end - cur" by (auto simp: copy_length_def)
qed

function read_loop :: "addr \<Rightarrow> addr \<Rightarrow> u32 \<Rightarrow> u32 \<Rightarrow> u32 \<Rightarrow> addr \<Rightarrow> addr \<Rightarrow> mem \<Rightarrow> u32 \<times> mem" where
  "read_loop fs buf end cur copied_length num_addr dblock m =
     (if cur = end then (copied_length, m)
      else
        let copyLength = copy_length cur end;
            m = memcpy m (buf + copied_length) (dblock + cur mod FOUR_KB) copyLength;
            num_addr = num_addr + 4
        in read_loop fs buf end (cur + copyLength) (copied_length + copyLength) num_addr
             (dblock_addr m fs (load32 m num_addr)) m)"
  by pat_completeness auto
termination
proof (relation "measure (\<lambda>(fs, buf, end, cur, copied_length, num_addr, dblock, m). unat (end - cur))", goal_cases)
  case 1
  then show ?case by simp
next
  case (2 fs buf "end" cur copied_length num_addr dblock m copyLength m' num_addr')
  then have "unat (end - cur - copy_length cur end) < unat (end - cur)"
    by (intro unat_minus_less copy_length_bounds)
  then show ?case using 2(2) by (simp only: in_measure prod.case diff_diff_eq)
qed

declare read_loop.simps [simp del]

text \<open>The result is \<open>int32_t\<close>; -1 is the word of all ones.\<close>

definition read_data :: "mem \<Rightarrow> addr \<Rightarrow> u32 \<Rightarrow> u32 \<Rightarrow> addr \<Rightarrow> u32 \<Rightarrow> u32 \<times> mem" where
  "read_data m fs inode offset buf len =
     (if inode \<ge> num_inodes m fs then (- 1, m)
      else
        let inode_a = inode_addr fs inode;
            file_size = load32 m inode_a
        in if offset > file_size then (0, m)
           else
             let end = (if offset + len > file_size then file_size else offset + len);
                 num_addr = inode_a + 4 + 4 * (offset div FOUR_KB)
             in read_loop fs buf end offset 0 num_addr (dblock_addr m fs (load32 m num_addr)) m)"

section \<open>What an image must be\<close>

definition fs_len :: "mem \<Rightarrow> addr \<Rightarrow> nat" where
  "fs_len m fs = (1 + unat (num_inodes m fs) + unat (num_dblocks m fs)) * 4096"

text \<open>An address inside the image, as an offset from its start.\<close>

definition in_fs :: "mem \<Rightarrow> addr \<Rightarrow> addr \<Rightarrow> bool" where
  "in_fs m fs a \<longleftrightarrow> unat (a - fs) < fs_len m fs"

definition file_size :: "mem \<Rightarrow> addr \<Rightarrow> u32 \<Rightarrow> u32" where
  "file_size m fs inode = load32 m (inode_addr fs inode)"

text \<open>Where the inode stores the number of its \<open>b\<close>-th block, and the address of that block.\<close>

definition slot_addr :: "addr \<Rightarrow> u32 \<Rightarrow> nat \<Rightarrow> addr" where
  "slot_addr fs inode b = inode_addr fs inode + 4 + 4 * of_nat b"

definition block_addr :: "mem \<Rightarrow> addr \<Rightarrow> u32 \<Rightarrow> nat \<Rightarrow> addr" where
  "block_addr m fs inode b = dblock_addr m fs (load32 m (slot_addr fs inode b))"

text \<open>The image fits the address space, the inode exists, its size fits the 1023 block slots, and
  the blocks it uses exist.\<close>

definition file_ok :: "mem \<Rightarrow> addr \<Rightarrow> u32 \<Rightarrow> bool" where
  "file_ok m fs inode \<longleftrightarrow>
     fs_len m fs < 2 ^ 32 \<and> inode < num_inodes m fs \<and> unat (file_size m fs inode) \<le> 1023 * 4096 \<and>
     (\<forall>b < 1023. b * 4096 < unat (file_size m fs inode) \<longrightarrow>
        load32 m (slot_addr fs inode b) < num_dblocks m fs)"

text \<open>The content of a file, byte by byte.\<close>

definition file_byte :: "mem \<Rightarrow> addr \<Rightarrow> u32 \<Rightarrow> nat \<Rightarrow> u8" where
  "file_byte m fs inode k = m (block_addr m fs inode (k div 4096) + of_nat (k mod 4096))"

definition file_bytes :: "mem \<Rightarrow> addr \<Rightarrow> u32 \<Rightarrow> u8 list" where
  "file_bytes m fs inode = map (file_byte m fs inode) [0..<unat (file_size m fs inode)]"

lemma load32_cong:
  "m' a = m a \<Longrightarrow> m' (a + 1) = m (a + 1) \<Longrightarrow> m' (a + 2) = m (a + 2) \<Longrightarrow> m' (a + 3) = m (a + 3) \<Longrightarrow>
   load32 m' a = load32 m a"
  by (simp add: load32_def)

lemma in_fs_offset:
  "fs_len m fs < 2 ^ 32 \<Longrightarrow> in_fs m fs (fs + of_nat k) \<longleftrightarrow> k < fs_len m fs" if "k < 2 ^ 32"
  using that by (simp add: in_fs_def unat_of_nat32)

lemma slot_offset:
  "slot_addr fs inode b = fs + of_nat (4096 * (unat inode + 1) + 4 + 4 * b)"
  by (simp add: slot_addr_def inode_addr_def algebra_simps)

lemma slot_in_fs:
  assumes "file_ok m fs inode" "b < 1023" "j < 4"
  shows "in_fs m fs (slot_addr fs inode b + of_nat j)"
proof -
  have "unat inode < unat (num_inodes m fs)" "fs_len m fs < 2 ^ 32"
    using assms(1) by (simp_all add: file_ok_def word_less_nat_alt)
  then have "4096 * (unat inode + 1) + 4 + 4 * b + j < fs_len m fs"
    using assms(2,3) by (simp add: fs_len_def algebra_simps)
  moreover have "slot_addr fs inode b + of_nat j = fs + of_nat (4096 * (unat inode + 1) + 4 + 4 * b + j)"
    by (simp add: slot_offset algebra_simps)
  ultimately show ?thesis
    using \<open>fs_len m fs < 2 ^ 32\<close> by (simp only: in_fs_offset)
qed

lemma block_in_fs:
  assumes "file_ok m fs inode" "b < 1023" "b * 4096 < unat (file_size m fs inode)" "y < 4096"
  shows "in_fs m fs (block_addr m fs inode b + of_nat y)"
proof -
  let ?d = "load32 m (slot_addr fs inode b)"
  have d: "unat ?d < unat (num_dblocks m fs)" and l: "fs_len m fs < 2 ^ 32"
    using assms(1-3) by (auto simp: file_ok_def word_less_nat_alt)
  have "block_addr m fs inode b + of_nat y =
      fs + of_nat ((unat (num_inodes m fs) + 1 + unat ?d) * 4096 + y)"
    by (simp add: block_addr_def dblock_addr_def algebra_simps)
  moreover have "(unat (num_inodes m fs) + 1 + unat ?d) * 4096 + y < fs_len m fs"
    using d assms(4) by (simp add: fs_len_def)
  ultimately show ?thesis using l by (simp only: in_fs_offset)
qed

section \<open>Reading is copying the file's content\<close>

text \<open>Memory with the bytes \<open>off\<close> to \<open>c\<close> of the file at \<open>buf\<close>.\<close>

definition file_copied :: "mem \<Rightarrow> addr \<Rightarrow> u32 \<Rightarrow> addr \<Rightarrow> nat \<Rightarrow> nat \<Rightarrow> mem" where
  "file_copied m fs inode buf off c =
     (\<lambda>a. if unat (a - buf) < c - off then file_byte m fs inode (off + unat (a - buf)) else m a)"

text \<open>The destination lies outside the image.\<close>

definition apart :: "mem \<Rightarrow> addr \<Rightarrow> addr \<Rightarrow> nat \<Rightarrow> bool" where
  "apart m fs buf n \<longleftrightarrow> (\<forall>a. unat (a - buf) < n \<longrightarrow> \<not> in_fs m fs a)"

lemma file_copied_fs:
  "apart m fs buf n \<Longrightarrow> c - off \<le> n \<Longrightarrow> in_fs m fs a \<Longrightarrow> file_copied m fs inode buf off c a = m a"
  by (auto simp: file_copied_def apart_def)

lemma load32_fs:
  assumes "\<And>a. in_fs m fs a \<Longrightarrow> m' a = m a" and "\<And>j. j < 4 \<Longrightarrow> in_fs m fs (a + of_nat j)"
  shows "load32 m' a = load32 m a"
  using assms(2) [of 0] assms(2) [of 1] assms(2) [of 2] assms(2) [of 3] assms(1)
  by (intro load32_cong) simp_all

lemma num_inodes_fs:
  assumes "\<And>a. in_fs m fs a \<Longrightarrow> m' a = m a" "fs_len m fs < 2 ^ 32"
  shows "num_inodes m' fs = num_inodes m fs"
  unfolding num_inodes_def
proof (rule load32_fs [OF assms(1)])
  fix j :: nat assume "j < 4"
  then have "in_fs m fs (fs + of_nat (4 + j))"
    using assms(2) by (subst in_fs_offset) (auto simp: fs_len_def)
  then show "in_fs m fs (fs + 4 + of_nat j)" by (simp add: algebra_simps)
qed

lemma block_addr_fs:
  assumes "\<And>a. in_fs m fs a \<Longrightarrow> m' a = m a" "file_ok m fs inode" "b < 1023"
  shows "dblock_addr m' fs (load32 m' (slot_addr fs inode b)) = block_addr m fs inode b"
proof -
  have "load32 m' (slot_addr fs inode b) = load32 m (slot_addr fs inode b)"
    using slot_in_fs [OF assms(2,3)] by (intro load32_fs [OF assms(1)]) auto
  moreover have "num_inodes m' fs = num_inodes m fs"
    using assms(2) by (intro num_inodes_fs [OF assms(1)]) (auto simp: file_ok_def)
  ultimately show ?thesis by (simp add: block_addr_def dblock_addr_def)
qed

lemma unat_copy_length:
  assumes "unat cur < unat end"
  shows "unat (copy_length cur end) = min (4096 - unat cur mod 4096) (unat end - unat cur)"
proof -
  have m: "unat (cur mod FOUR_KB) = unat cur mod 4096" by (simp add: unat_mod)
  then have "unat (FOUR_KB - cur mod FOUR_KB) = 4096 - unat cur mod 4096"
    by (subst unat_sub) (simp_all add: word_le_nat_alt)
  moreover have "unat (end - cur) = unat end - unat cur"
    using assms by (subst unat_sub) (simp_all add: word_le_nat_alt)
  ultimately show ?thesis by (simp add: copy_length_def word_less_nat_alt min_def)
qed

lemma within_block:
  fixes c x n :: nat
  assumes "c mod n + x < n"
  shows "(c + x) div n = c div n" "(c + x) mod n = c mod n + x"
proof -
  define q r where "q = c div n" and "r = c mod n"
  have e: "c = q * n + r" by (simp add: q_def r_def)
  have "r + x < n" using assms by (simp add: r_def)
  then have "(q * n + (r + x)) div n = q" "(q * n + (r + x)) mod n = r + x" by simp_all
  then show "(c + x) div n = c div n" "(c + x) mod n = c mod n + x"
    unfolding q_def [symmetric] r_def [symmetric] by (simp_all add: e add.assoc)
qed

lemma offset_range:
  assumes "p + k < 2 ^ 32"
  shows "(w :: u32) - of_nat p < of_nat k \<longleftrightarrow> p \<le> unat w \<and> unat w < p + k"
    and "p \<le> unat w \<Longrightarrow> unat (w - of_nat p) = unat w - p"
proof -
  have u: "unat (of_nat p :: u32) = p" "unat (of_nat k :: u32) = k"
    using assms by (simp_all add: unat_of_nat32)
  show d: "unat (w - of_nat p) = unat w - p" if "p \<le> unat w"
    using that u by (subst unat_sub) (simp_all add: word_le_nat_alt)
  have "unat (w - of_nat p) = 2 ^ 32 + unat w - p" if "unat w < p"
    using that u by (simp add: unat_sub_if_size word_size)
  then show "w - of_nat p < of_nat k \<longleftrightarrow> p \<le> unat w \<and> unat w < p + k"
    using d assms u by (cases "p \<le> unat w") (auto simp: word_less_nat_alt)
qed

text \<open>One round of the loop.\<close>

lemma copy_round:
  fixes m :: mem and fs buf :: addr and inode :: u32
  assumes "file_ok m fs inode" "apart m fs buf n" "c = off + p" "p + k \<le> n"
    and "c + k \<le> unat (file_size m fs inode)" "c mod 4096 + k \<le> 4096" "n < 2 ^ 32" "0 < k"
  shows "memcpy (file_copied m fs inode buf off c) (buf + of_nat p)
      (block_addr m fs inode (c div 4096) + of_nat (c mod 4096)) (of_nat k) =
    file_copied m fs inode buf off (c + k)"
proof -
  let ?M = "file_copied m fs inode buf off c"
  let ?d = "buf + of_nat p" and ?s = "block_addr m fs inode (c div 4096) + of_nat (c mod 4096)"
  have sz: "unat (file_size m fs inode) \<le> 1023 * 4096" using assms(1) by (simp add: file_ok_def)
  have b: "c div 4096 < 1023" "c div 4096 * 4096 < unat (file_size m fs inode)"
    using assms(5,8) sz
    by (auto simp: less_mult_imp_div_less intro: le_less_trans [OF div_times_less_eq_dividend])
  have src: "in_fs m fs (?s + of_nat x)" if "x < k" for x
    using block_in_fs [OF assms(1) b, of "c mod 4096 + x"] assms(6) that by (simp add: algebra_simps)
  have kn: "unat (of_nat k :: u32) = k" "unat (of_nat p :: u32) = p"
    using assms(3,4,6,7) by (simp_all add: unat_of_nat32)
  have "\<not> ?d - ?s < of_nat k"
  proof
    assume "?d - ?s < of_nat k"
    then have "unat (?d - ?s) < k" by (simp add: word_less_nat_alt kn)
    from src [OF this] have "in_fs m fs ?d" by simp
    then show False using assms(2,3,4,8) kn by (simp add: apart_def)
  qed
  then have "memcpy ?M ?d ?s (of_nat k) = copied ?M ?d ?s (of_nat k)"
    by (intro memcpy_copied) simp
  also have "\<dots> = file_copied m fs inode buf off (c + k)"
  proof
    fix a
    let ?y = "unat (a - buf)"
    have r: "a - ?d < of_nat k \<longleftrightarrow> p \<le> ?y \<and> ?y < p + k"
      and x: "p \<le> ?y \<Longrightarrow> unat (a - ?d) = ?y - (p)"
      using offset_range [of "p" k "a - buf"] assms(3,4,7) by (simp_all add: diff_diff_eq)
    show "copied ?M ?d ?s (of_nat k) a = file_copied m fs inode buf off (c + k) a"
    proof (cases "a - ?d < of_nat k")
      case True
      then have y: "p \<le> ?y" "?y < p + k" using r by auto
      define x where "x = ?y - (p)"
      have "x < k" "off + ?y = c + x" using y assms(3) by (simp_all add: x_def)
      moreover have "a - ?d = of_nat x" unfolding x_def x [OF y(1), symmetric] by simp
      ultimately have xk: "x < k" "a - ?d = of_nat x" "off + ?y = c + x" by auto
      have "c mod 4096 + x < 4096" using assms(6) xk by simp
      then have "(c + x) div 4096 = c div 4096" "(c + x) mod 4096 = c mod 4096 + x"
        by (auto dest: within_block)
      then have "file_byte m fs inode (off + ?y) = m (?s + of_nat x)"
        by (simp add: file_byte_def xk algebra_simps)
      moreover have "?M (?s + of_nat x) = m (?s + of_nat x)"
        using src [OF xk(1)] assms(3,4) by (intro file_copied_fs [OF assms(2)]) auto
      moreover have "copied ?M ?d ?s (of_nat k) a = ?M (?s + of_nat x)"
        using True by (simp only: copied_def if_True xk)
      moreover have "file_copied m fs inode buf off (c + k) a = file_byte m fs inode (off + ?y)"
        using y assms(3) by (simp add: file_copied_def)
      ultimately show ?thesis by simp
    next
      case False
      then show ?thesis using r assms(3) by (auto simp: copied_def file_copied_def)
    qed
  qed
  finally show ?thesis .
qed


lemma read_loop_copies:
  assumes "file_ok m fs inode" "apart m fs buf n" "n < 2 ^ 32" "unat end \<le> unat (file_size m fs inode)"
    and "unat end = off + n" "unat cur = off + p" "p \<le> n"
  shows "read_loop fs buf end cur (of_nat p) (slot_addr fs inode (unat cur div 4096))
      (block_addr m fs inode (unat cur div 4096)) (file_copied m fs inode buf off (off + p)) =
    (of_nat n, file_copied m fs inode buf off (off + n))"
  using assms(6,7)
proof (induction "n - p" arbitrary: p cur rule: less_induct)
  case less
  show ?case
  proof (cases "p = n")
    case True
    then have "cur = end" using less.prems assms(5) by (simp add: word_unat_eq_iff)
    with True show ?thesis by (simp add: read_loop.simps)
  next
    case False
    define c where "c = off + p"
    define k where "k = min (4096 - c mod 4096) (n - p)"
    have lt: "unat cur < unat end" using False less.prems assms(5) by simp
    have cl: "copy_length cur end = of_nat k"
      using unat_copy_length [OF lt] less.prems assms(5) by (simp add: k_def c_def word_unat_eq_iff unat_of_nat32)
    have k: "0 < k" "c mod 4096 + k \<le> 4096" "p + k \<le> n"
      using False less.prems by (auto simp: k_def)
    have cm: "cur mod FOUR_KB = of_nat (c mod 4096)"
      using less.prems by (simp add: word_unat_eq_iff unat_mod unat_of_nat32 c_def)
    have "unat (cur + of_nat k) = unat cur + k"
      using less.prems(1) k(3) assms(5) unat_lt32 [of "end"]
      by (subst unat_add_lem [THEN iffD1]) (simp_all add: unat_of_nat32)
    then have uk: "unat (cur + of_nat k) = off + (p + k)" using less.prems(1) by simp
    let ?m' = "file_copied m fs inode buf off (off + (p + k))"
    have "memcpy (file_copied m fs inode buf off (off + p)) (buf + of_nat p)
        (block_addr m fs inode (c div 4096) + of_nat (c mod 4096)) (of_nat k) = ?m'"
      using copy_round [OF assms(1,2) c_def k(3) _ k(2) assms(3) k(1)] k(3) assms(4,5)
      by (simp add: c_def add.assoc)
    then have "read_loop fs buf end cur (of_nat p) (slot_addr fs inode (c div 4096))
        (block_addr m fs inode (c div 4096)) (file_copied m fs inode buf off (off + p)) =
      read_loop fs buf end (cur + of_nat k) (of_nat (p + k)) (slot_addr fs inode (c div 4096) + 4)
        (dblock_addr ?m' fs (load32 ?m' (slot_addr fs inode (c div 4096) + 4))) ?m'"
      using lt by (subst read_loop.simps) (auto simp: cl cm Let_def)
    also have "\<dots> = (of_nat n, file_copied m fs inode buf off (off + n))"
    proof (cases "p + k = n")
      case True
      then have "cur + of_nat k = end" using uk assms(5) by (simp add: word_unat_eq_iff)
      with True show ?thesis by (simp add: read_loop.simps)
    next
      case False
      then have "k = 4096 - c mod 4096" using less.prems(2) by (auto simp: k_def min_def split: if_splits)
      moreover have "c div 4096 * 4096 + c mod 4096 = c" "c mod 4096 < 4096" by simp_all
      ultimately have "c + k = c div 4096 * 4096 + 4096" by linarith
      then have "c + k = (c div 4096 + 1) * 4096" by simp
      then have ck: "off + (p + k) = (c div 4096 + 1) * 4096" by (simp only: c_def add.assoc)
      then have b: "unat (cur + of_nat k) div 4096 = c div 4096 + 1" using uk by simp
      have "(c div 4096 + 1) * 4096 < 1023 * 4096"
        using ck False k(3) assms(1,4,5) by (simp add: file_ok_def)
      then have b1: "c div 4096 + 1 < 1023" by simp
      have sl: "slot_addr fs inode (c div 4096) + 4 = slot_addr fs inode (c div 4096 + 1)"
        by (simp add: slot_addr_def algebra_simps)
      have same: "?m' a = m a" if "in_fs m fs a" for a
        using k(3) that by (intro file_copied_fs [OF assms(2)]) auto
      have "read_loop fs buf end (cur + of_nat k) (of_nat (p + k))
          (slot_addr fs inode (unat (cur + of_nat k) div 4096))
          (block_addr m fs inode (unat (cur + of_nat k) div 4096)) ?m' =
        (of_nat n, file_copied m fs inode buf off (off + n))"
        using k False uk by (intro less.hyps) auto
      then show ?thesis by (simp only: b sl block_addr_fs [OF same assms(1) b1])
    qed
    finally show ?thesis using less.prems by (simp add: c_def)
  qed
qed


lemma file_copied_0: "file_copied m fs inode buf off off = m"
  by (simp add: file_copied_def)

text \<open>The number of bytes a read returns.\<close>

definition read_count :: "nat \<Rightarrow> nat \<Rightarrow> nat \<Rightarrow> nat" where
  "read_count sz offset len = min len (sz - offset)"

lemma read_data_copies:
  assumes "file_ok m fs inode" "unat offset + unat len < 2 ^ 32"
  defines "n \<equiv> read_count (unat (file_size m fs inode)) (unat offset) (unat len)"
  assumes "apart m fs buf n"
  shows "read_data m fs inode offset buf len =
    (of_nat n, file_copied m fs inode buf (unat offset) (unat offset + n))"
proof -
  have ino: "\<not> num_inodes m fs \<le> inode" using assms(1) by (simp add: file_ok_def not_le)
  show ?thesis
  proof (cases "offset > file_size m fs inode")
    case True
    then have "n = 0" by (simp add: n_def read_count_def word_less_nat_alt)
    with True ino show ?thesis
      by (simp add: read_data_def Let_def file_size_def [symmetric] file_copied_0)
  next
    case False
    then have le: "unat offset \<le> unat (file_size m fs inode)" by (simp add: word_less_nat_alt)
    define e where "e = (if offset + len > file_size m fs inode then file_size m fs inode else offset + len)"
    have ol: "unat (offset + len) = unat offset + unat len"
      using assms(2) by (subst unat_add_lem [THEN iffD1]) simp_all
    have en: "unat e = unat offset + n" "unat e \<le> unat (file_size m fs inode)"
      using le ol by (auto simp: e_def n_def read_count_def word_less_nat_alt min_def)
    have n32: "n < 2 ^ 32" using en(1) unat_lt32 [of e] by simp
    have slot: "inode_addr fs inode + 4 + 4 * (offset div FOUR_KB) = slot_addr fs inode (unat offset div 4096)"
    proof -
      have "unat offset div 4096 < 2 ^ 32" using unat_lt32 [of offset] by (rule le_less_trans [OF div_le_dividend])
      then have "offset div FOUR_KB = of_nat (unat offset div 4096)"
        by (simp add: word_unat_eq_iff unat_div unat_of_nat32)
      then show ?thesis by (simp add: slot_addr_def)
    qed
    have "read_data m fs inode offset buf len =
        read_loop fs buf e offset 0 (slot_addr fs inode (unat offset div 4096))
          (block_addr m fs inode (unat offset div 4096)) m"
      using False ino
      by (simp only: read_data_def Let_def file_size_def [symmetric] if_False e_def [symmetric] slot block_addr_def)
    also have "\<dots> = (of_nat n, file_copied m fs inode buf (unat offset) (unat offset + n))"
      using read_loop_copies [OF assms(1,4) n32 en(2,1), of offset 0] by (simp add: file_copied_0)
    finally show ?thesis .
  qed
qed


text \<open>The count returned is the distance from the offset to the end point, modulo \<open>2\<close> to the 32,
  whatever memory holds.\<close>

lemma fst_read_loop: "fst (read_loop fs buf end cur copied_length num_addr dblock m) = copied_length + (end - cur)"
proof (induction fs buf "end" cur copied_length num_addr dblock m rule: read_loop.induct)
  case (1 fs buf "end" cur copied_length num_addr dblock m)
  show ?case
    using 1 by (subst read_loop.simps) (simp add: Let_def)
qed

section \<open>Looking up a name\<close>

text \<open>The name of an entry: up to 32 characters, ended by a zero byte when shorter.\<close>

definition dentry_name :: "mem \<Rightarrow> addr \<Rightarrow> u8 list" where
  "dentry_name m d = cstr (bytes_at m d 32)"

text \<open>A name as a caller passes it is compared in its first 32 characters only.\<close>

definition matches :: "mem \<Rightarrow> addr \<Rightarrow> addr \<Rightarrow> u8 list \<Rightarrow> bool" where
  "matches m fs d name \<longleftrightarrow> length name \<le> 32 \<and> dentry_name m d = name"

lemma cstr_append_zero: "0 \<notin> set xs \<Longrightarrow> cstr (xs @ 0 # ys) = xs"
  by (induction xs) (auto simp: cstr_def)

lemma cstr_bytes_of_cstr:
  assumes "is_cstr m s xs"
  shows "cstr (bytes_at m s n) = take n xs"
proof (cases "n \<le> length xs")
  case True
  have "take n xs = take n (bytes_at m s (length xs))" using assms by (simp only: is_cstr_def)
  then have b: "bytes_at m s n = take n xs" using True by simp
  have "0 \<notin> set (take n xs)" using assms by (auto simp: is_cstr_def dest: in_set_takeD)
  then show ?thesis unfolding b by (rule cstr_no_zero)
next
  case False
  let ?r = "drop (Suc (length xs)) (bytes_at m s n)"
  have "bytes_at m s n = take (length xs) (bytes_at m s n) @ bytes_at m s n ! length xs # ?r"
    using False by (simp only: id_take_nth_drop length_bytes_at not_le)
  moreover have "take (length xs) (bytes_at m s n) = xs" using False assms by (simp add: is_cstr_def)
  moreover have "bytes_at m s n ! length xs = 0" using False is_cstrD(3) [OF assms] by simp
  ultimately have "bytes_at m s n = xs @ 0 # ?r" by simp
  moreover have "cstr (xs @ 0 # ?r) = xs" using assms by (intro cstr_append_zero) (simp add: is_cstr_def)
  ultimately show ?thesis using False by simp
qed

text \<open>The two comparisons together accept an entry exactly when its name is the first 32
  characters of the given name.\<close>

lemma entry_test:
  assumes "is_cstr m filename name"
  shows "strncmp m d filename (of_nat (length name)) = 0 \<and> strncmp m d filename NAME_LENGTH = 0 \<longleftrightarrow>
    dentry_name m d = take 32 name \<and> cstr (bytes_at m d (length name)) = name"
proof -
  have "length name < 2 ^ 32" using is_cstrD(4) [OF assms] by simp
  then have "unat (of_nat (length name) :: u32) = length name" by (rule unat_of_nat32)
  then show ?thesis
    by (auto simp: strncmp_eq_0_iff cstr_bytes_of_cstr [OF assms] dentry_name_def)
qed


lemma load32_low: "ucast (load32 m a) = m a"
  by (rule bit_word_eqI) (auto simp: load32_def bit_simps)

text \<open>Names the directory can hold, and directories whose entries have one of the three types.\<close>

definition plain_name :: "u8 list \<Rightarrow> bool" where
  "plain_name name \<longleftrightarrow> (\<forall>c \<in> set name. c > 2)"

definition types_ok :: "mem \<Rightarrow> addr \<Rightarrow> bool" where
  "types_ok m fs \<longleftrightarrow> (\<forall>i < num_dentries m fs. file_type m (dentry_addr fs i) \<le> 2)"

lemma entry_test_plain:
  assumes "is_cstr m filename name" "plain_name name" "file_type m d \<le> 2"
  shows "strncmp m d filename (of_nat (length name)) = 0 \<and> strncmp m d filename NAME_LENGTH = 0 \<longleftrightarrow>
    dentry_name m d = name"
  unfolding entry_test [OF assms(1)]
proof (cases "length name \<le> 32")
  case True
  have "cstr (bytes_at m d (length name)) = name" if "dentry_name m d = name"
  proof -
    have "take (length name) (bytes_at m d 32) = bytes_at m d (length name)" using True by simp
    moreover have "take (length name) (bytes_at m d 32) = name"
      using that unfolding dentry_name_def cstr_def by (metis takeWhile_eq_take)
    moreover have "0 \<notin> set name" using assms(1) by (simp add: is_cstr_def)
    ultimately show ?thesis using cstr_no_zero by metis
  qed
  with True show "(dentry_name m d = take 32 name \<and> cstr (bytes_at m d (length name)) = name) = (dentry_name m d = name)"
    by auto
next
  case False
  have "cstr (bytes_at m d (length name)) \<noteq> name"
  proof
    assume c: "cstr (bytes_at m d (length name)) = name"
    then have "bytes_at m d (length name) = name"
      by (metis cstr_def length_bytes_at takeWhile_eq_take take_all le_refl)
    then have "m (d + 32) = name ! 32" using False nth_bytes_at [of 32 "length name" m d] by simp
    moreover have "name ! 32 > 2" using assms(2) False by (simp add: plain_name_def)
    moreover have "m (d + 32) \<le> 2"
    proof -
      have "unat (file_type m d) \<le> 2" using assms(3) by (simp add: word_le_nat_alt)
      then have "unat (ucast (file_type m d) :: u8) \<le> 2"
        by (simp add: unsigned_ucast_eq take_bit_nat_eq_self)
      then show ?thesis unfolding file_type_def load32_low by (simp add: word_le_nat_alt)
    qed
    ultimately show False by simp
  qed
  moreover have "length (dentry_name m d) \<le> 32"
    unfolding dentry_name_def using length_cstr_le [of "bytes_at m d 32"] by simp
  ultimately show "(dentry_name m d = take 32 name \<and> cstr (bytes_at m d (length name)) = name) = (dentry_name m d = name)"
    using False by auto
qed

lemma find_dentry_from_first:
  assumes "is_cstr m filename name" "plain_name name" "types_ok m fs"
  shows "find_dentry_from m fs filename i =
    Some (case find (\<lambda>j. dentry_name m (dentry_addr fs (of_nat j)) = name)
            [unat i..<unat (num_dentries m fs)] of
       None \<Rightarrow> 0 | Some j \<Rightarrow> dentry_addr fs (of_nat j))"
proof (induction "unat (num_dentries m fs) - unat i" arbitrary: i)
  case 0
  then show ?case by (simp add: find_dentry_from.simps word_less_nat_alt)
next
  case (Suc k)
  have lt: "i < num_dentries m fs" and u: "unat (i + 1) = Suc (unat i)"
    and k: "k = unat (num_dentries m fs) - unat (i + 1)"
    using Suc.hyps(2) by unat_arith+
  have t: "file_type m (dentry_addr fs i) \<le> 2" using assms(3) lt by (simp add: types_ok_def)
  have "[unat i..<unat (num_dentries m fs)] = unat i # [unat (i + 1)..<unat (num_dentries m fs)]"
    unfolding u using lt by (simp add: upt_conv_Cons word_less_nat_alt)
  then show ?case
    using Suc.hyps(1) [OF k] entry_test_plain [OF assms(1,2) t]
    by (subst find_dentry_from.simps) (simp add: lt strlen_cstr [OF assms(1)])
qed

text \<open>The first entry with the given name.\<close>

definition lookup_name :: "mem \<Rightarrow> addr \<Rightarrow> u8 list \<Rightarrow> nat option" where
  "lookup_name m fs name =
     find (\<lambda>j. dentry_name m (dentry_addr fs (of_nat j)) = name) [0..<unat (num_dentries m fs)]"

lemma lookup_bound:
  assumes "lookup_name m fs name = Some j"
  shows "j < unat (num_dentries m fs)" "(of_nat j :: u32) < num_dentries m fs"
proof -
  show "j < unat (num_dentries m fs)" using assms by (auto simp: lookup_name_def find_Some_iff)
  then show "(of_nat j :: u32) < num_dentries m fs"
    using unat_lt32 [of "num_dentries m fs"] by (simp add: word_less_nat_alt unat_of_nat32)
qed

lemma find_dentry_lookup:
  assumes "is_cstr m filename name" "plain_name name" "types_ok m fs"
  shows "find_dentry m fs filename =
    Some (case lookup_name m fs name of None \<Rightarrow> 0 | Some j \<Rightarrow> dentry_addr fs (of_nat j))"
  using find_dentry_from_first [OF assms, of 0] by (simp add: find_dentry_def lookup_name_def)

section \<open>Copying a directory entry\<close>

lemma load32_store32: "load32 (store32 a v m) a = v"
proof -
  have "load32 (store32 a v m) a = ucast (ucast v :: u8) OR push_bit 8 (ucast (ucast (drop_bit 8 v) :: u8)) OR
     push_bit 16 (ucast (ucast (drop_bit 16 v) :: u8)) OR push_bit 24 (ucast (ucast (drop_bit 24 v) :: u8))"
    by (simp add: load32_def store32_def)
  also have "\<dots> = v"
  proof (rule bit_word_eqI)
    fix n assume "n < LENGTH(32)"
    then consider "n < 8" | "8 \<le> n" "n < 16" | "16 \<le> n" "n < 24" | "24 \<le> n" "n < 32" by fastforce
    then show "bit (ucast (ucast v :: u8) OR push_bit 8 (ucast (ucast (drop_bit 8 v) :: u8)) OR
        push_bit 16 (ucast (ucast (drop_bit 16 v) :: u8)) OR
        push_bit 24 (ucast (ucast (drop_bit 24 v) :: u8)) :: u32) n = bit v n"
      by cases (auto simp: bit_simps)
  qed
  finally show ?thesis .
qed

lemma store32_other: "4 \<le> b - a \<Longrightarrow> store32 a v m b = m b"
  by (auto simp: store32_def word_le_def)

lemma load32_store32_other:
  assumes "4 \<le> b - a" "b - a \<le> 0xFFFFFFFC"
  shows "load32 (store32 a v m) b = load32 m b"
proof -
  define x where "x = b - a"
  have n: "4 \<le> unat x" "unat x \<le> 4294967292"
    using assms by (simp_all add: x_def word_le_nat_alt)
  then have "unat (x + 1) = unat x + 1" "unat (x + 2) = unat x + 2" "unat (x + 3) = unat x + 3"
    by (subst unat_add_lem [THEN iffD1]; simp)+
  then have "4 \<le> x + 1" "4 \<le> x + 2" "4 \<le> x + 3" using n by (simp_all add: word_le_nat_alt)
  moreover have "b + 1 - a = x + 1" "b + 2 - a = x + 2" "b + 3 - a = x + 3" by (simp_all add: x_def)
  ultimately show ?thesis
    using assms(1) by (intro load32_cong store32_other) (simp_all only:)
qed


text \<open>The copy of an entry, when it lies apart from the 64 bytes of the original: name, type and
  inode are those of the original.\<close>

lemma bytes_at_same: "(\<And>i. i < n \<Longrightarrow> m' (a + of_nat i) = m (a + of_nat i)) \<Longrightarrow> bytes_at m' a n = bytes_at m a n"
  by (simp add: bytes_at_def)

lemma strncpy_pointwise:
  fixes m :: mem and d f :: addr and n :: u32
  assumes "n \<le> d - f"
  defines "k \<equiv> length (cstr (bytes_at m f (unat n)))"
  shows "i < unat n \<Longrightarrow> strncpy m d f n (d + of_nat i) = (if i < k then m (f + of_nat i) else 0)"
    "n \<le> a - d \<Longrightarrow> strncpy m d f n a = m a"
proof -
  have k: "k \<le> unat n" unfolding k_def using length_cstr_le [of "bytes_at m f (unat n)"] by simp
  then obtain q where q: "unat n = k + q" using le_Suc_ex by blast
  have lt: "unat n < 2 ^ 32" by (rule unat_lt32)
  have "of_nat (unat n) = (of_nat k :: u32) + of_nat q" unfolding q by simp
  then have e: "n - of_nat k = of_nat q" by simp
  have s: "strncpy m d f n a =
      (if a - d - of_nat k < of_nat q then 0
       else if a - d < of_nat k then m (f + (a - d)) else m a)" for a
    using strncpy_copied [OF assms(1), of m] e by (simp add: k_def filled_def copied_def diff_diff_eq)
  have r: "w - of_nat k < of_nat q \<longleftrightarrow> k \<le> unat w \<and> unat w < unat n" for w :: u32
    using offset_range(1) [of k q w] q lt by simp
  have kw: "w < of_nat k \<longleftrightarrow> unat w < k" for w :: u32
    using k lt by (simp add: word_less_nat_alt unat_of_nat32)
  show "strncpy m d f n (d + of_nat i) = (if i < k then m (f + of_nat i) else 0)" if "i < unat n"
    using that lt by (simp add: s r kw unat_of_nat32)
  show "strncpy m d f n a = m a" if "n \<le> a - d"
    using that k by (simp add: s r kw word_le_nat_alt)
qed

lemma strncpy_bytes:
  fixes m :: mem and d f :: addr and n :: u32
  assumes "n \<le> d - f"
  defines "c \<equiv> cstr (bytes_at m f (unat n))"
  shows "bytes_at (strncpy m d f n) d (unat n) = c @ replicate (unat n - length c) 0"
proof (rule nth_equalityI)
  have k: "length c \<le> unat n" unfolding c_def using length_cstr_le [of "bytes_at m f (unat n)"] by simp
  then show "length (bytes_at (strncpy m d f n) d (unat n)) = length (c @ replicate (unat n - length c) 0)" by simp
  have c: "c = take (length c) (bytes_at m f (unat n))" unfolding c_def cstr_def by (rule takeWhile_eq_take)
  fix i assume "i < length (bytes_at (strncpy m d f n) d (unat n))"
  then have i: "i < unat n" by simp
  have "c ! i = m (f + of_nat i)" if "i < length c"
    using arg_cong [OF c, of "\<lambda>l. l ! i"] that k by simp
  then show "bytes_at (strncpy m d f n) d (unat n) ! i = (c @ replicate (unat n - length c) 0) ! i"
    using strncpy_pointwise(1) [OF assms(1) i, of m] i by (simp add: c_def [symmetric] nth_append)
qed

lemma strncpy_name:
  assumes "NAME_LENGTH \<le> d - f"
  shows "dentry_name (strncpy m d f NAME_LENGTH) d = dentry_name m f"
proof -
  let ?c = "cstr (bytes_at m f 32)"
  have nz: "0 \<notin> set ?c" unfolding cstr_def by (auto dest: set_takeWhileD)
  have "bytes_at (strncpy m d f NAME_LENGTH) d 32 = ?c @ replicate (32 - length ?c) 0"
    using strncpy_bytes [OF assms, of m] by simp
  then show ?thesis
    using cstr_append_zero [OF nz] cstr_no_zero [OF nz]
    by (cases "32 - length ?c") (simp_all add: dentry_name_def)
qed

text \<open>Stores at offsets from a common base.\<close>

lemma store32_offset:
  assumes "y < p \<or> p + 4 \<le> y" "p + 4 < 2 ^ 32" "y < 2 ^ 32"
  shows "store32 (d + of_nat p) v m (d + of_nat y) = m (d + of_nat y)"
proof (rule store32_other)
  have "\<not> of_nat y - (of_nat p :: u32) < of_nat 4"
    using offset_range(1) [of p 4 "of_nat y"] assms by (auto simp: unat_of_nat32)
  then show "4 \<le> d + of_nat y - (d + of_nat p)" by simp
qed

lemma copy_dentry_fields:
  fixes m :: mem and d f :: addr
  assumes "64 \<le> d - f" "64 \<le> f - d"
  defines "m' \<equiv> copy_dentry m d f"
  shows "dentry_name m' d = dentry_name m f" "file_type m' d = file_type m f" "inode_num m' d = inode_num m f"
    "40 \<le> a - d \<Longrightarrow> m' a = m a"
proof -
  let ?n = "strncpy m d f NAME_LENGTH"
  define t where "t = store32 (d + of_nat 32) (file_type ?n f) ?n"
  have m': "m' = store32 (d + of_nat 36) (inode_num t f) t"
    by (simp add: m'_def copy_dentry_def Let_def t_def)
  have dn: "NAME_LENGTH \<le> d - f" using assms(1) by unat_arith
  have wn: "?n (d + of_nat y) = m (d + of_nat y)" if "32 \<le> y" "y < 2 ^ 32" for y
    using strncpy_pointwise(2) [OF dn, of "d + of_nat y" m] that by (simp add: word_le_nat_alt unat_of_nat32)
  have wt: "t (d + of_nat y) = ?n (d + of_nat y)" if "y < 32 \<or> 36 \<le> y" "y < 2 ^ 32" for y
    unfolding t_def by (rule store32_offset) (use that in auto)
  have wm: "m' (d + of_nat y) = t (d + of_nat y)" if "y < 36 \<or> 40 \<le> y" "y < 2 ^ 32" for y
    unfolding m' by (rule store32_offset) (use that in auto)
  define x where "x = unat (f - d)"
  have f: "f = d + of_nat x" by (simp add: x_def)
  have x1: "64 \<le> x" using assms(2) by (simp add: x_def word_le_nat_alt)
  have x2: "x + 64 \<le> 2 ^ 32"
  proof -
    have "unat w + 64 \<le> 2 ^ 32" if "64 \<le> 0 - w" for w :: u32
      using that unat_sub_if_size [of 0 w] unat_lt32 [of w]
      by (simp add: word_le_nat_alt word_size split: if_splits)
    from this [of "f - d"] show ?thesis using assms(1) by (simp add: x_def)
  qed
  have ft: "load32 t (f + of_nat p) = load32 m (f + of_nat p)"
    and fn: "load32 ?n (f + of_nat p) = load32 m (f + of_nat p)" if "p + 4 \<le> 64" for p
  proof -
    have e: "f + of_nat p + of_nat j = d + of_nat (x + p + j)" for j by (simp add: f add.assoc)
    have same: "?n (f + of_nat p + of_nat j) = m (f + of_nat p + of_nat j) \<and>
        t (f + of_nat p + of_nat j) = m (f + of_nat p + of_nat j)" if "j < 4" for j
    proof -
      have y: "36 \<le> x + p + j" "x + p + j < 2 ^ 32" using that \<open>p + 4 \<le> 64\<close> x1 x2 by simp_all
      have "?n (d + of_nat (x + p + j)) = m (d + of_nat (x + p + j))" by (rule wn) (use y in auto)
      moreover have "t (d + of_nat (x + p + j)) = ?n (d + of_nat (x + p + j))" by (rule wt) (use y in auto)
      ultimately show ?thesis unfolding e by simp
    qed
    from same [of 0] same [of 1] same [of 2] same [of 3]
    show "load32 t (f + of_nat p) = load32 m (f + of_nat p)" "load32 ?n (f + of_nat p) = load32 m (f + of_nat p)"
      by (auto intro!: load32_cong)
  qed
  show "40 \<le> a - d \<Longrightarrow> m' a = m a"
    using wm [of "unat (a - d)"] wt [of "unat (a - d)"] wn [of "unat (a - d)"] unat_lt32 [of "a - d"]
    by (simp add: word_le_nat_alt)
  have "bytes_at m' d 32 = bytes_at ?n d 32" by (rule bytes_at_same) (simp add: wm wt)
  then show "dentry_name m' d = dentry_name m f"
    using strncpy_name [OF dn, of m] by (simp add: dentry_name_def)
  have "load32 m' (d + of_nat 32) = load32 t (d + of_nat 32)"
    using wm [of 32] wm [of 33] wm [of 34] wm [of 35] by (intro load32_cong) (simp_all add: add.commute)
  then show "file_type m' d = file_type m f"
    using fn [of 32] by (simp add: file_type_def t_def load32_store32)
  show "inode_num m' d = inode_num m f"
    using ft [of 36] by (simp add: inode_num_def m' load32_store32)
qed


section \<open>An example image\<close>

text \<open>An image at 0x400000 with two entries \<open>a\<close> and \<open>shell\<close> of type 2 for the same inode of 40
  bytes and two data blocks, the file in block 1: an executable with its entry point at 0x8048100;
  a name at 0x500000.\<close>

definition demo_fs :: mem where
  "demo_fs =
     (\<lambda>_. 0)
       (0x400000 := 2, 0x400004 := 1, 0x400008 := 2,
        0x400040 := 0x61, 0x400060 := 2,
        0x400080 := 0x73, 0x400081 := 0x68, 0x400082 := 0x65, 0x400083 := 0x6C, 0x400084 := 0x6C, 0x4000A0 := 2,
        0x401000 := 40, 0x401004 := 1,
        0x403000 := 0x7F, 0x403001 := 0x45, 0x403002 := 0x4C, 0x403003 := 0x46,
        0x403019 := 0x81, 0x40301A := 0x04, 0x40301B := 0x08,
        0x500000 := 0x61)"

lemma demo_counts:
  "num_dentries demo_fs 0x400000 = 2" "num_inodes demo_fs 0x400000 = 1" "num_dblocks demo_fs 0x400000 = 2"
  "file_size demo_fs 0x400000 0 = 40" "load32 demo_fs (slot_addr 0x400000 0 0) = 1"
  "fs_len demo_fs 0x400000 = 16384"
proof -
  show c: "num_dentries demo_fs 0x400000 = 2" "num_inodes demo_fs 0x400000 = 1" "num_dblocks demo_fs 0x400000 = 2"
    by (simp_all add: num_dentries_def num_inodes_def num_dblocks_def load32_def demo_fs_def)
  show "file_size demo_fs 0x400000 0 = 40" "load32 demo_fs (slot_addr 0x400000 0 0) = 1"
    by (simp_all add: file_size_def slot_addr_def inode_addr_def load32_def demo_fs_def)
  show "fs_len demo_fs 0x400000 = 16384" by (simp add: fs_len_def c)
qed

lemma demo_ok: "file_ok demo_fs 0x400000 0"
proof -
  have "b = 0" if "b * 4096 < 40" for b :: nat using that by (cases b) simp_all
  then have "load32 demo_fs (slot_addr 0x400000 0 b) < 2" if "b * 4096 < 40" for b :: nat
    using that demo_counts(5) by fastforce
  then show ?thesis by (simp add: file_ok_def demo_counts)
qed

lemma demo_apart: "apart demo_fs 0x400000 0x8048000 n" if "n \<le> 4096"
proof -
  have "16384 \<le> unat (a - 0x400000)" if "unat (a - 0x8048000) < 4096" for a :: addr
  proof -
    define w where "w = a - 0x8048000"
    have "a - 0x400000 = w + 0x7C48000" by (simp add: w_def)
    moreover have "unat (w + 0x7C48000) = unat w + 0x7C48000"
      using that by (subst unat_add_lem [THEN iffD1]) (simp_all add: w_def)
    ultimately show ?thesis by (simp only:)
  qed
  then show ?thesis
    using that unfolding apart_def in_fs_def demo_counts by (meson leD less_le_trans)
qed

section \<open>Properties\<close>

text \<open>C7: Reading a file. For a well-formed inode, when \<open>offset + len\<close> does not wrap and the buffer
  lies outside the image, \<open>read_data\<close> returns the number of bytes left in the file from the offset,
  at most \<open>len\<close> (0 past the end), copies exactly these bytes of the file's content to the buffer,
  across block boundaries, and changes no other byte of memory.\<close>

theorem read_data_reads_file:
  assumes "file_ok m fs inode" "unat offset + unat len < 2 ^ 32"
  defines "n \<equiv> min (unat len) (length (file_bytes m fs inode) - unat offset)"
  assumes "apart m fs buf n"
  shows "read_data m fs inode offset buf len =
    (of_nat n, \<lambda>a. if unat (a - buf) < n then file_bytes m fs inode ! (unat offset + unat (a - buf)) else m a)"
proof -
  have n: "n = read_count (unat (file_size m fs inode)) (unat offset) (unat len)"
    by (simp add: n_def read_count_def file_bytes_def)
  have "file_copied m fs inode buf (unat offset) (unat offset + n) =
      (\<lambda>a. if unat (a - buf) < n then file_bytes m fs inode ! (unat offset + unat (a - buf)) else m a)"
    by (auto simp: file_copied_def fun_eq_iff file_bytes_def n_def)
  then show ?thesis using read_data_copies [OF assms(1,2)] assms(4) n by simp
qed

theorem read_data_reads_file_witness:
  "fst (read_data demo_fs 0x400000 0 2 0x8048000 100) = 38"
proof -
  have "length (file_bytes demo_fs 0x400000 0) = 40" by (simp add: file_bytes_def demo_counts)
  then show ?thesis
    using read_data_reads_file [OF demo_ok, of 2 100 "0x8048000"] demo_apart [of 38] by simp
qed

text \<open>C28: Looking up a file. For a terminated name without control characters in a directory whose
  entries have the types 0 to 2, \<open>find_dentry\<close> returns the address of the first entry with exactly
  this name, and \<open>NULL\<close> when there is none, in particular for every name longer than 32 characters.\<close>

theorem find_dentry_finds_first:
  assumes "is_cstr m filename name" "plain_name name" "types_ok m fs"
  shows "find_dentry m fs filename =
    Some (case find (\<lambda>j. dentry_name m (dentry_addr fs (of_nat j)) = name)
            [0..<unat (num_dentries m fs)] of
       None \<Rightarrow> 0 | Some j \<Rightarrow> dentry_addr fs (of_nat j))"
  using find_dentry_lookup [OF assms] by (simp add: lookup_name_def)

lemma two_entries: "[0..<2] = [0, 1 :: nat]"
  by (simp add: numeral_2_eq_2)

lemma demo_name: "is_cstr demo_fs 0x500000 [0x61]" "plain_name [0x61]" "types_ok demo_fs 0x400000"
proof -
  show "is_cstr demo_fs 0x500000 [0x61]" by (simp add: is_cstr_def bytes_at_def demo_fs_def)
  show "plain_name [0x61]" by (simp add: plain_name_def)
  have "i = 0 \<or> i = 1" if "i < 2" for i :: u32 using that by unat_arith
  moreover have "load32 demo_fs 0x400060 = 2" "load32 demo_fs 0x4000A0 = 2"
    by (simp_all add: load32_def demo_fs_def)
  ultimately show "types_ok demo_fs 0x400000"
    by (fastforce simp: types_ok_def demo_counts file_type_def dentry_addr_def)
qed

theorem find_dentry_finds_first_witness: "find_dentry demo_fs 0x400000 0x500000 = Some 0x400040"
proof -
  have "is_cstr demo_fs 0x400040 [0x61]" by (simp add: is_cstr_def bytes_at_def demo_fs_def)
  from cstr_bytes_of_cstr [OF this, of 32] have "dentry_name demo_fs 0x400040 = [0x61]"
    by (simp add: dentry_name_def)
  then show ?thesis
    using find_dentry_finds_first [OF demo_name] by (simp add: demo_counts dentry_addr_def two_entries)
qed

text \<open>Reading a directory entry by index copies its name, type and inode and nothing else: the
  copy has the three fields of the entry, no byte outside the first 40 bytes of the copy changes, and
  an index past the last entry gives -1 and changes nothing.\<close>

theorem read_dentry_by_index_copies:
  fixes m :: mem
  assumes "64 \<le> d - dentry_addr fs i" "64 \<le> dentry_addr fs i - d"
  defines "r \<equiv> read_dentry_by_index m fs i d"
  shows "(if i < num_dentries m fs
     then fst r = 0 \<and> dentry_name (snd r) d = dentry_name m (dentry_addr fs i) \<and>
       file_type (snd r) d = file_type m (dentry_addr fs i) \<and>
       inode_num (snd r) d = inode_num m (dentry_addr fs i) \<and>
       (\<forall>a. 40 \<le> a - d \<longrightarrow> snd r a = m a)
     else r = (- 1, m))"
  unfolding r_def read_dentry_by_index_def
  using copy_dentry_fields [OF assms(1,2), where m = m] by (auto simp: not_le)

theorem read_dentry_by_index_copies_witness:
  "dentry_name (snd (read_dentry_by_index demo_fs 0x400000 0 0x7FF000)) 0x7FF000 =
     dentry_name demo_fs 0x400040"
  using read_dentry_by_index_copies [of "0x7FF000" "0x400000" 0 demo_fs]
  by (simp add: dentry_addr_def demo_counts)




end
