(* ===== verification/UserMemory.thy ===== *)
theory UserMemory
  imports Paging CString
begin

text \<open>
  The kernel's view of memory through the page tables. Routines that work on memory (strings,
  files) run on the view; what they wrote is stored back byte by byte through the tables. Page
  tables, globals and process control blocks are typed state of their own and not part of it.
\<close>

section \<open>The view\<close>

definition mapped :: "'a paging_scheme \<Rightarrow> addr \<Rightarrow> bool" where
  "mapped s a \<longleftrightarrow> translate False s a \<noteq> None"

text \<open>Bytes of unmapped pages read as 0 in the view; the operations below check for them.\<close>

definition vmem :: "'a paging_scheme \<Rightarrow> mem" where
  "vmem s a = (case kload a s of None \<Rightarrow> 0 | Some b \<Rightarrow> b)"

text \<open>Store \<open>n\<close> bytes of \<open>m\<close> from address \<open>a\<close> on, at the same virtual addresses.\<close>

definition store_range :: "addr \<Rightarrow> nat \<Rightarrow> mem \<Rightarrow> 'a paging_scheme \<Rightarrow> 'a paging_scheme" where
  "store_range a n m s = fold (\<lambda>i. kstore (a + of_nat i) (m (a + of_nat i))) [0..<n] s"

text \<open>\<open>strlen\<close> of a pointer; \<open>None\<close> when the scan runs into an unmapped page.\<close>

definition vstrlen :: "addr \<Rightarrow> 'a paging_scheme \<Rightarrow> u32 option" where
  "vstrlen a s =
     (case strlen (vmem s) a of
        None \<Rightarrow> None
      | Some n \<Rightarrow> if mapped s (a + n) then Some n else None)"

text \<open>A local variable or a string constant of the kernel in the view. They are placed on a page
  that is never mapped, so no other pointer reaches them.\<close>

definition put_bytes :: "addr \<Rightarrow> u8 list \<Rightarrow> mem \<Rightarrow> mem" where
  "put_bytes a bs m = (\<lambda>x. if unat (x - a) < length bs then bs ! unat (x - a) else m x)"

section \<open>Storing back\<close>

lemma translate_pmem [simp]: "translate u (s\<lparr>pmem := q\<rparr>) = translate u s"
  by (simp add: fun_eq_iff translate_def table_at_def Let_def)

text \<open>A region the kernel can use: all its bytes are mapped, to different physical bytes.\<close>

definition plain_region :: "'a paging_scheme \<Rightarrow> addr set \<Rightarrow> bool" where
  "plain_region s R \<longleftrightarrow> (\<forall>a \<in> R. mapped s a) \<and> inj_on (translate False s) R"

lemma plain_region_pmem [simp]: "plain_region (s\<lparr>pmem := q\<rparr>) R = plain_region s R"
  by (simp add: plain_region_def mapped_def)

lemma kstore_view:
  assumes "plain_region s R" "a \<in> R"
  obtains q where "kstore a b s = s\<lparr>pmem := q\<rparr>" "\<And>x. x \<in> R \<Longrightarrow> vmem (s\<lparr>pmem := q\<rparr>) x = ((vmem s)(a := b)) x"
proof -
  obtain p where p: "translate False s a = Some p"
    using assms by (auto simp: plain_region_def mapped_def)
  have "translate False s x \<noteq> Some p" if "x \<in> R" "x \<noteq> a" for x
    using assms that p unfolding plain_region_def inj_on_def by metis
  then have "vmem (s\<lparr>pmem := (pmem s)(p := b)\<rparr>) x = ((vmem s)(a := b)) x" if "x \<in> R" for x
    using that p by (auto simp: vmem_def kload_def split: option.splits)
  then show thesis using p by (intro that [of "(pmem s)(p := b)"]) (simp_all add: kstore_def)
qed

lemma store_range_Suc:
  "store_range a (Suc n) m s = kstore (a + of_nat n) (m (a + of_nat n)) (store_range a n m s)"
  by (simp add: store_range_def)

lemma store_range_0 [simp]: "store_range a 0 m s = s"
  by (simp add: store_range_def)

lemma in_range_Suc:
  assumes "n < 2 ^ 32"
  shows "unat (x - a) < Suc n \<longleftrightarrow> unat (x - a) < n \<or> x = (a :: u32) + of_nat n"
proof -
  have "x = a + of_nat n \<longleftrightarrow> x - a = of_nat n" by (auto simp: algebra_simps)
  also have "\<dots> \<longleftrightarrow> unat (x - a) = n" using assms by (simp add: word_unat_eq_iff unat_of_nat32)
  finally have "x = a + of_nat n \<longleftrightarrow> unat (x - a) = n" .
  then show ?thesis by auto
qed

lemma store_range_view:
  assumes "plain_region s R" "n \<le> 2 ^ 32" "\<And>i. i < n \<Longrightarrow> a + of_nat i \<in> R"
  obtains q where "store_range a n m s = s\<lparr>pmem := q\<rparr>"
    "\<And>x. x \<in> R \<Longrightarrow> vmem (s\<lparr>pmem := q\<rparr>) x = (if unat (x - a) < n then m x else vmem s x)"
proof -
  have "\<exists>q. store_range a n m s = s\<lparr>pmem := q\<rparr> \<and>
      (\<forall>x\<in>R. vmem (s\<lparr>pmem := q\<rparr>) x = (if unat (x - a) < n then m x else vmem s x))"
    using assms(2,3)
  proof (induction n)
    case 0
    then show ?case by (intro exI [of _ "pmem s"]) simp
  next
    case (Suc n)
    then obtain q where q: "store_range a n m s = s\<lparr>pmem := q\<rparr>"
      "\<forall>x\<in>R. vmem (s\<lparr>pmem := q\<rparr>) x = (if unat (x - a) < n then m x else vmem s x)" by auto
    have "plain_region (s\<lparr>pmem := q\<rparr>) R" "a + of_nat n \<in> R" using assms(1) Suc.prems by simp_all
    then obtain r where r: "kstore (a + of_nat n) (m (a + of_nat n)) (s\<lparr>pmem := q\<rparr>) = s\<lparr>pmem := q\<rparr>\<lparr>pmem := r\<rparr>"
      "\<And>x. x \<in> R \<Longrightarrow> vmem (s\<lparr>pmem := q\<rparr>\<lparr>pmem := r\<rparr>) x =
         ((vmem (s\<lparr>pmem := q\<rparr>))(a + of_nat n := m (a + of_nat n))) x"
      by (rule kstore_view) blast
    show ?case
    proof (intro exI conjI ballI)
      show "store_range a (Suc n) m s = s\<lparr>pmem := r\<rparr>" by (simp add: store_range_Suc q(1) r(1))
      fix x assume "x \<in> R"
      then have "vmem (s\<lparr>pmem := r\<rparr>) x = (if x = a + of_nat n then m x else if unat (x - a) < n then m x else vmem s x)"
        using r(2) q(2) by simp
      then show "vmem (s\<lparr>pmem := r\<rparr>) x = (if unat (x - a) < Suc n then m x else vmem s x)"
        using in_range_Suc [of n x a] Suc.prems(1) by auto
    qed
  qed
  then show thesis using that by blast
qed

section \<open>The kernel page and the program page\<close>

definition main_region :: "addr set" where
  "main_region = {a. drop_bit 22 a = 1 \<or> drop_bit 22 a = 32}"

lemma same_page_eqI:
  "drop_bit n a = drop_bit n b \<Longrightarrow> take_bit n a = take_bit n b \<Longrightarrow> a = (b :: u32)"
  by (metis bits_ident)

text \<open>Some process's program page is mapped.\<close>

definition runs_program :: "'a paging_scheme \<Rightarrow> int \<Rightarrow> bool" where
  "runs_program s p \<longleftrightarrow> paging_wf s \<and> 1 \<le> p \<and> p \<le> 6 \<and> page_directory s 32 = prog_frame p OR 0x087"

lemma runs_program_pmem [simp]: "runs_program (s\<lparr>pmem := q\<rparr>) p = runs_program s p"
  by (simp add: runs_program_def paging_wf_def paging_on_def)

lemma main_translate:
  assumes "runs_program s p"
  shows "drop_bit 22 a = 1 \<Longrightarrow> translate False s a = Some a"
    and "drop_bit 22 a = 32 \<Longrightarrow> translate False s a = Some (prog_frame p + take_bit 22 a)"
  using assms translate_kernel [of s a False] translate_user_page [of s "prog_frame p" a False]
  by (simp_all add: runs_program_def page_join_frame)

lemma prog_frame_parts:
  assumes "1 \<le> p" "p \<le> 6"
  shows "drop_bit 22 (prog_frame p + take_bit 22 a) = word_of_int (p + 1)"
    and "take_bit 22 (prog_frame p + take_bit 22 a) = take_bit 22 a"
proof -
  have "take_bit 22 (prog_frame p) = 0" using assms by (elim pid_cases) (simp_all add: prog_frame_def)
  note o = page_offset [OF this, of "take_bit 22 a"]
  show "drop_bit 22 (prog_frame p + take_bit 22 a) = word_of_int (p + 1)"
    using o assms by (simp add: drop_prog_frame)
  show "take_bit 22 (prog_frame p + take_bit 22 a) = take_bit 22 a" using o by simp
qed

lemma main_region_plain:
  assumes "runs_program s p"
  shows "plain_region s main_region"
  unfolding plain_region_def
proof
  note t = main_translate [OF assms]
  have p: "1 \<le> p" "p \<le> 6" using assms by (simp_all add: runs_program_def)
  show "\<forall>a\<in>main_region. mapped s a" using t by (auto simp: main_region_def mapped_def)
  have ne: "(word_of_int (p + 1) :: u32) \<noteq> 1" using p by (elim pid_cases) simp_all
  show "inj_on (translate False s) main_region"
  proof (rule inj_onI)
    fix a b assume ab: "a \<in> main_region" "b \<in> main_region" "translate False s a = translate False s b"
    have f: "drop_bit 22 (prog_frame p + take_bit 22 b) \<noteq> 1" for b
      using ne prog_frame_parts(1) [OF p, of b] by simp
    from ab f t prog_frame_parts(2) [OF p] show "a = b"
      unfolding main_region_def by (auto intro: same_page_eqI [of 22])
  qed
qed

text \<open>Stores to the program page change the process's own frame only.\<close>

definition own_frame :: "int \<Rightarrow> 'a paging_scheme \<Rightarrow> mem \<Rightarrow> bool" where
  "own_frame p s q \<longleftrightarrow> (\<forall>pa. drop_bit 22 pa \<noteq> word_of_int (p + 1) \<longrightarrow> q pa = pmem s pa)"

lemma store_range_frame:
  assumes "runs_program s p" "\<forall>i < n. drop_bit 22 (a + of_nat i) = 32"
  shows "translate False (store_range a n m s) = translate False s \<and> own_frame p s (pmem (store_range a n m s))"
  using assms(2)
proof (induction n)
  case 0
  then show ?case by (simp add: own_frame_def)
next
  case (Suc n)
  let ?t = "store_range a n m s" and ?b = "a + of_nat n"
  have p: "1 \<le> p" "p \<le> 6" using assms(1) by (simp_all add: runs_program_def)
  have ih: "translate False ?t = translate False s" "own_frame p s (pmem ?t)" using Suc by simp_all
  have "translate False s ?b = Some (prog_frame p + take_bit 22 ?b)"
    using main_translate(2) [OF assms(1)] Suc.prems by simp
  then have "store_range a (Suc n) m s = ?t\<lparr>pmem := (pmem ?t)(prog_frame p + take_bit 22 ?b := m ?b)\<rparr>"
    by (simp add: store_range_Suc kstore_def ih(1))
  then show ?case using ih prog_frame_parts(1) [OF p, of ?b] by (auto simp: own_frame_def)
qed

end
