(* ===== verification/Files.thy ===== *)
theory Files
  imports RTC FileSystem UserMemory
begin

text \<open>
  File descriptors: the process control blocks of \<open>student-distrib/syscalls.h\<close>, the file and
  directory operations of \<open>file_system.c\<close> that work on descriptors, and the system calls \<open>open\<close>,
  \<open>close\<close>, \<open>read\<close> and \<open>write\<close> of \<open>syscalls.c\<close> (\<open>sys_open\<close> and so on here), which dispatch through the jump tables.
\<close>

section \<open>State\<close>

text \<open>The five \<open>jump_table\<close> objects of \<open>syscalls.c\<close>.\<close>

datatype jump_table = rtc_table | file_table | dir_table | stdin_table | stdout_table

record file_desc =
  jump_ptr :: jump_table
  fd_inode :: u32
  file_position :: u32
  fd_flags :: int

text \<open>\<open>pcb_t\<close>; \<open>args\<close> has \<open>BUF_LENGTH\<close> bytes.\<close>

record pcb =
  pid :: int
  parent_pid :: int
  current_esp :: u32
  parent_esp :: u32
  parent_ebp :: u32
  fdt :: "file_desc carray"
  args :: "u8 list"
  pcb_vidmem :: int
  pcb_freq :: int

text \<open>The globals of \<open>syscalls.c\<close> and \<open>file_system.c\<close>. The control blocks are kept by their address
  at the bottom of each kernel stack.\<close>

record kernel = rtc +
  process_num :: int
  process_array :: "int carray"
  pcbs :: "addr \<Rightarrow> pcb"
  fs_start :: addr

abbreviation (input) MAX_FD_NUM :: int where "MAX_FD_NUM \<equiv> 7"
abbreviation (input) MAX_PROGS :: int where "MAX_PROGS \<equiv> 6"
abbreviation (input) LOCAL_DENTRY :: addr where "LOCAL_DENTRY \<equiv> 0x1000"
abbreviation (input) CONSTANT :: addr where "CONSTANT \<equiv> 0x1100"

definition file_system_init :: "addr \<Rightarrow> 'a kernel_scheme \<Rightarrow> 'a kernel_scheme" where
  "file_system_init file_sys_start s = s\<lparr>fs_start := file_sys_start\<rparr>"

definition get_pcb_add :: "'a kernel_scheme \<Rightarrow> addr" where
  "get_pcb_add s = esp s AND (EIGHT_MB - EIGHT_KB)"

definition cur_pcb :: "'a kernel_scheme \<Rightarrow> pcb" where
  "cur_pcb s = pcbs s (get_pcb_add s)"

definition upd_pcb :: "(pcb \<Rightarrow> pcb) \<Rightarrow> 'a kernel_scheme \<Rightarrow> 'a kernel_scheme" where
  "upd_pcb f s = s\<lparr>pcbs := (pcbs s)(get_pcb_add s := f (cur_pcb s))\<rparr>"

definition upd_fd :: "int \<Rightarrow> (file_desc \<Rightarrow> file_desc) \<Rightarrow> 'a kernel_scheme \<Rightarrow> 'a kernel_scheme" where
  "upd_fd fd f = upd_pcb (\<lambda>p. p\<lparr>fdt := (fdt p)(fd := f (fdt p fd))\<rparr>)"

section \<open>Files and directories\<close>

text \<open>\<open>read_data\<close> through the page tables: the routine runs on the view and the bytes it copied are
  stored back.\<close>

definition vread_data :: "u32 \<Rightarrow> u32 \<Rightarrow> addr \<Rightarrow> u32 \<Rightarrow> 'a kernel_scheme \<Rightarrow> u32 \<times> 'a kernel_scheme" where
  "vread_data inode offset buf len s =
     (let (r, m) = read_data (vmem s) (fs_start s) inode offset buf len;
          n = (if inode \<ge> num_inodes (vmem s) (fs_start s) then 0 else unat r)
      in (r, store_range buf n m s))"

definition file_open :: "'a kernel_scheme \<Rightarrow> int \<times> 'a kernel_scheme" where
  "file_open s = (0, s)"

definition file_close :: "'a kernel_scheme \<Rightarrow> int \<times> 'a kernel_scheme" where
  "file_close s = (0, s)"

definition file_read :: "int \<Rightarrow> addr \<Rightarrow> int \<Rightarrow> 'a kernel_scheme \<Rightarrow> int \<times> 'a kernel_scheme" where
  "file_read fd buf num_bytes s =
     (let d = fdt (cur_pcb s) fd in
      if fd_inode d = - 1 then (- 1, s)
      else
        let (read_ret, s) = vread_data (fd_inode d) (file_position d) buf (word_of_int num_bytes) s
        in if read_ret = - 1 then (- 1, s)
           else (sint read_ret, upd_fd fd (\<lambda>d. d\<lparr>file_position := file_position d + read_ret\<rparr>) s))"

definition file_write :: "'a kernel_scheme \<Rightarrow> int \<times> 'a kernel_scheme" where
  "file_write s = (- 1, s)"

definition dir_open :: "'a kernel_scheme \<Rightarrow> int \<times> 'a kernel_scheme" where
  "dir_open s = (0, s)"

definition dir_close :: "'a kernel_scheme \<Rightarrow> int \<times> 'a kernel_scheme" where
  "dir_close s = (0, s)"

definition dir_read :: "int \<Rightarrow> addr \<Rightarrow> int \<Rightarrow> 'a kernel_scheme \<Rightarrow> int \<times> 'a kernel_scheme" where
  "dir_read fd buf nbytes s =
     (let d = fdt (cur_pcb s) fd in
      if file_position d = - 1 then (- 1, s)
      else if file_position d \<ge> num_dentries (vmem s) (fs_start s) then (0, s)
      else
        let (r, m) = read_dentry_by_index (vmem s) (fs_start s) (file_position d) LOCAL_DENTRY
        in if r = - 1 then (- 1, s)
           else
             let s = store_range buf 32 (strncpy m buf LOCAL_DENTRY NAME_LENGTH) s;
                 s = upd_fd fd (\<lambda>d. d\<lparr>file_position := file_position d + 1\<rparr>) s
             in (32, s))"

definition dir_write :: "'a kernel_scheme \<Rightarrow> int \<times> 'a kernel_scheme" where
  "dir_write s = (- 1, s)"

definition invalid_read :: "'a kernel_scheme \<Rightarrow> int \<times> 'a kernel_scheme" where
  "invalid_read s = (- 1, s)"

definition invalid_write :: "'a kernel_scheme \<Rightarrow> int \<times> 'a kernel_scheme" where
  "invalid_write s = (- 1, s)"

section \<open>The jump tables\<close>

text \<open>A read may wait: for a line, under the key strokes \<open>keys\<close>, or for the clock, under \<open>irqs\<close>
  clock interrupts. \<open>None\<close> when it is still waiting after them.\<close>

fun table_read :: "jump_table \<Rightarrow> int \<Rightarrow> addr \<Rightarrow> int \<Rightarrow> u8 list \<Rightarrow> nat \<Rightarrow> 'a kernel_scheme \<Rightarrow>
    (int \<times> 'a kernel_scheme) option" where
  "table_read rtc_table fd buf nbytes keys irqs s = rtc_read irqs s"
| "table_read file_table fd buf nbytes keys irqs s = Some (file_read fd buf nbytes s)"
| "table_read dir_table fd buf nbytes keys irqs s = Some (dir_read fd buf nbytes s)"
| "table_read stdin_table fd buf nbytes keys irqs s =
     map_option (\<lambda>(r, rest, s). (r, s)) (terminal_read buf nbytes keys s)"
| "table_read stdout_table fd buf nbytes keys irqs s = Some (invalid_read s)"

fun table_write :: "jump_table \<Rightarrow> addr \<Rightarrow> int \<Rightarrow> 'a kernel_scheme \<Rightarrow> int \<times> 'a kernel_scheme" where
  "table_write rtc_table buf nbytes s = rtc_write buf nbytes s"
| "table_write file_table buf nbytes s = file_write s"
| "table_write dir_table buf nbytes s = dir_write s"
| "table_write stdin_table buf nbytes s = invalid_write s"
| "table_write stdout_table buf nbytes s = terminal_write buf nbytes s"

fun table_close :: "jump_table \<Rightarrow> 'a kernel_scheme \<Rightarrow> int \<times> 'a kernel_scheme" where
  "table_close rtc_table s = rtc_close s"
| "table_close file_table s = file_close s"
| "table_close dir_table s = dir_close s"
| "table_close stdin_table s = terminal_close s"
| "table_close stdout_table s = terminal_close s"

section \<open>The system calls\<close>

definition sys_read :: "int \<Rightarrow> addr \<Rightarrow> int \<Rightarrow> u8 list \<Rightarrow> nat \<Rightarrow> 'a kernel_scheme \<Rightarrow>
    (int \<times> 'a kernel_scheme) option" where
  "sys_read fd buf nbytes keys irqs s =
     (let s = cli s in
      if fd < 0 \<or> fd > MAX_FD_NUM then Some (- 1, sti s)
      else
        let curr_file = fdt (cur_pcb s) fd
        in if fd_flags curr_file = - 1 then Some (- 1, sti s)
           else table_read (jump_ptr curr_file) fd buf nbytes keys irqs (sti s))"

definition sys_write :: "int \<Rightarrow> addr \<Rightarrow> int \<Rightarrow> 'a kernel_scheme \<Rightarrow> int \<times> 'a kernel_scheme" where
  "sys_write fd buf nbytes s =
     (let s = cli s in
      if fd < 0 \<or> fd > MAX_FD_NUM then (- 1, sti s)
      else
        let curr_file = fdt (cur_pcb s) fd
        in if fd_flags curr_file = - 1 then (- 1, sti s)
           else table_write (jump_ptr curr_file) buf nbytes (sti s))"

text \<open>\<open>strncmp(filename, literal, n)\<close>\<close>

definition strncmp_const :: "addr \<Rightarrow> u8 list \<Rightarrow> u32 \<Rightarrow> 'a paging_scheme \<Rightarrow> int" where
  "strncmp_const filename lit n s =
     strncmp (put_bytes CONSTANT (lit @ [0]) (vmem s)) filename CONSTANT n"

definition stdin_name :: "u8 list" where
  "stdin_name = [0x73, 0x74, 0x64, 0x69, 0x6E]"

definition stdout_name :: "u8 list" where
  "stdout_name = [0x73, 0x74, 0x64, 0x6F, 0x75, 0x74]"

text \<open>The body of the loop of \<open>open\<close> for the free descriptor \<open>i\<close>.\<close>

definition open_fd :: "int \<Rightarrow> u32 \<Rightarrow> u32 \<Rightarrow> 'a kernel_scheme \<Rightarrow> int \<times> 'a kernel_scheme" where
  "open_fd i ftype inum s =
     (let mark = upd_fd i (\<lambda>d. d\<lparr>fd_flags := 1, file_position := 0\<rparr>) in
      if ftype = 0
      then (i, mark (snd (rtc_open (upd_fd i (\<lambda>d. d\<lparr>jump_ptr := rtc_table, fd_inode := 0\<rparr>) s))))
      else if ftype = 1
      then (i, mark (snd (dir_open (upd_fd i (\<lambda>d. d\<lparr>jump_ptr := dir_table, fd_inode := 0\<rparr>) s))))
      else if ftype = 2
      then (i, mark (snd (file_open (upd_fd i (\<lambda>d. d\<lparr>jump_ptr := file_table, fd_inode := inum\<rparr>) s))))
      else (- 1, s))"

definition free_fd :: "pcb \<Rightarrow> int option" where
  "free_fd p = find (\<lambda>i. fd_flags (fdt p i) = - 1) [2..MAX_FD_NUM]"

definition sys_open :: "addr \<Rightarrow> 'a kernel_scheme \<Rightarrow> int \<times> 'a kernel_scheme" where
  "sys_open filename s =
     (if filename = 0 then (- 1, s)
      else case vstrlen filename s of
             None \<Rightarrow> (- 1, raise_fault s)
           | Some n \<Rightarrow>
               if strncmp_const filename [] n s = 0 then (- 1, s)
               else if strncmp_const filename stdin_name n s = 0 then (0, snd (terminal_open s))
               else if strncmp_const filename stdout_name n s = 0 then (1, snd (terminal_open s))
               else (case read_dentry_by_name (vmem s) (fs_start s) filename LOCAL_DENTRY of
                       None \<Rightarrow> (- 1, raise_fault s)
                     | Some (r, m) \<Rightarrow>
                         if r = - 1 then (- 1, s)
                         else (case free_fd (cur_pcb s) of
                                 None \<Rightarrow> (- 1, s)
                               | Some i \<Rightarrow>
                                   open_fd i (file_type m LOCAL_DENTRY) (inode_num m LOCAL_DENTRY) s)))"

definition sys_close :: "int \<Rightarrow> 'a kernel_scheme \<Rightarrow> int \<times> 'a kernel_scheme" where
  "sys_close fd s =
     (if fd < 2 \<or> fd > MAX_FD_NUM then (- 1, s)
      else if fd_flags (fdt (cur_pcb s) fd) = 1
      then (0, upd_fd fd (\<lambda>d. d\<lparr>fd_flags := - 1\<rparr>) (snd (table_close (jump_ptr (fdt (cur_pcb s) fd)) s)))
      else (- 1, s))"

section \<open>What the drivers leave alone\<close>

text \<open>The process table, the control blocks, the scheduler's slots, the stack registers and the page
  directory are out of reach of the device drivers.\<close>

record core =
  core_esp :: u32
  core_ebp :: u32
  core_cur :: int
  core_prev :: int
  core_sched :: "sched_node carray"
  core_tss :: u32
  core_shell :: u32
  core_dir :: "u32 carray"
  core_cr :: "u32 list"

definition core_of :: "'a sched_scheme \<Rightarrow> core" where
  "core_of s =
     \<lparr>core_esp = esp s, core_ebp = ebp s, core_cur = cur_sched_term s, core_prev = prev_sched_term s,
      core_sched = sched_arr s, core_tss = tss_esp0 s, core_shell = program_addr_test s,
      core_dir = page_directory s,
      core_cr = [cr0 s, cr3 s, cr4 s, page_directory_addr s, first_page_table_addr s, second_page_table_addr s]\<rparr>"

definition kept :: "'a rtc_scheme \<Rightarrow> 'a \<times> core" where
  "kept s = (rtc.more s, core_of s)"

lemma fold_kept: "(\<And>x s. kept (f x s) = kept s) \<Longrightarrow> kept (fold f xs s) = kept s"
  by (induction xs arbitrary: s) simp_all

lemma kept_machine [simp]:
  "kept (outb b p s) = kept s" "kept (cli s) = kept s" "kept (sti s) = kept s"
  "kept (restore_flags f s) = kept s" "kept (raise_fault s) = kept s"
  "kept (send_eoi i s) = kept s" "kept (enable_irq i s) = kept s" "kept (disable_irq i s) = kept s"
  by (simp_all add: kept_def core_of_def outb_def cli_def sti_def restore_flags_def raise_fault_def
      send_eoi_def enable_irq_def disable_irq_def Let_def)

lemma kept_pages [simp]:
  "kept (kstore a b s) = kept s" "kept (page_copy d c s) = kept s"
  "kept (set_page_table1_entry v p s) = kept s"
  by (simp_all add: kept_def core_of_def kstore_def page_copy_def set_page_table1_entry_def raise_fault_def
      split: option.split)

lemma kept_store_range [simp]: "kept (store_range a n m s) = kept s"
  by (simp add: store_range_def fold_kept)

lemma kept_screen [simp]:
  "kept (upd_term i f s) = kept s" "kept (show_cursor s) = kept s" "kept (move_cursor x y s) = kept s"
  "kept (put_cell c j s) = kept s" "kept (copy_cell j s) = kept s"
  by (simp_all add: upd_term_def show_cursor_def move_cursor_def put_cell_def copy_cell_def Let_def
      split: option.split) (simp_all add: kept_def core_of_def)

lemma kept_clear [simp]: "kept (clear s) = kept s" "kept (scroll_up s) = kept s"
  by (simp_all add: clear_def scroll_up_def fold_kept)

lemma kept_globals [simp]:
  "kept (s\<lparr>current_line := l\<rparr>) = kept s" "kept (s\<lparr>cur_terminal := c\<rparr>) = kept s"
  "kept (s\<lparr>print_terminal := c\<rparr>) = kept s" "kept (s\<lparr>kb_flags := b\<rparr>) = kept s"
  "kept (s\<lparr>count := f\<rparr>) = kept s" "kept (s\<lparr>interrupt_flags := g\<rparr>) = kept s"
  "kept (s\<lparr>frequencies := f\<rparr>) = kept s"
  by (simp_all add: kept_def core_of_def)

lemma kept_text [simp]: "kept (new_line s) = kept s" "kept (reset_screen s) = kept s"
  "kept (back_space s) = kept s"
  by (simp_all add: new_line_def reset_screen_def back_space_def Let_def)

lemma kept_putc [simp]: "kept (putc c s) = kept s"
  by (simp add: putc_def Let_def)

lemma kept_print_scancode [simp]: "kept (print_scancode c s) = kept s"
  by (simp add: print_scancode_def kb_store_def Let_def)

lemma kept_reprint [simp]: "kept (reprint s) = kept s"
  by (simp add: reprint_def fold_kept)

lemma kept_change_shell [simp]: "kept (snd (change_shell k s)) = kept s"
  by (simp add: change_shell_def Let_def)

lemma kept_keyboard [simp]: "kept (keyboard_interrupt_handler c s) = kept s"
  by (simp add: keyboard_interrupt_handler_def recent_release_exec_def after_release_exec_def
      cli_and_save_def Let_def)

lemma kept_rtc_tick [simp]: "kept (rtc_interrupt_handler s) = kept s"
  by (simp add: rtc_interrupt_handler_def cli_and_save_def count_tick_def Let_def)

lemma kept_wait_line: "wait_line ks s = Some (r, s') \<Longrightarrow> kept s' = kept s"
  by (induction ks s rule: wait_line.induct)
    (subst (asm) (2) wait_line.simps, auto split: if_splits list.splits)

lemma kept_rtc_wait: "rtc_wait n s = Some s' \<Longrightarrow> kept s' = kept s"
  by (induction n s rule: rtc_wait.induct)
    (subst (asm) (2) rtc_wait.simps, auto split: if_splits nat.splits)

lemma kept_rtc_read: "rtc_read n s = Some (r, s') \<Longrightarrow> kept s' = kept s"
  by (auto simp: rtc_read_def rtc_read_start_def Let_def dest: kept_rtc_wait)

lemma kept_terminal_read:
  assumes "terminal_read buf n ks s = Some (r, rest, s')"
  shows "kept s' = kept s"
  using assms
  by (auto simp: terminal_read_def terminal_read_start_def terminal_read_finish_def Let_def fold_kept
      split: option.splits if_splits dest!: kept_wait_line)

lemma kept_write_byte [simp]: "kept (write_byte b i s) = kept s"
  by (simp add: write_byte_def split: option.split)

lemma kept_drivers [simp]:
  "kept (snd (terminal_write buf n s)) = kept s" "kept (snd (terminal_open s)) = kept s"
  "kept (snd (terminal_close s)) = kept s" "kept (snd (rtc_open s)) = kept s"
  "kept (snd (rtc_close s)) = kept s" "kept (snd (rtc_write buf n s)) = kept s"
  by (simp_all add: terminal_write_def terminal_open_def terminal_close_def rtc_open_def rtc_close_def
      rtc_write_def cli_and_save_def Let_def fold_kept split: option.split)

lemma kept_kernel:
  assumes "kept s' = kept s"
  shows "process_num s' = process_num s" "process_array s' = process_array s" "pcbs s' = pcbs s"
    "fs_start s' = fs_start s" "esp s' = esp s" "get_pcb_add s' = get_pcb_add s" "cur_pcb s' = cur_pcb s"
    "core_of s' = core_of s"
  using assms by (cases s; cases s'; simp add: kept_def core_of_def get_pcb_add_def cur_pcb_def)+

section \<open>Reading into the program page\<close>

text \<open>The image lies in the kernel page, a buffer in the program page.\<close>

definition fs_placed :: "'a kernel_scheme \<Rightarrow> bool" where
  "fs_placed s \<longleftrightarrow> (\<forall>a. in_fs (vmem s) (fs_start s) a \<longrightarrow> drop_bit 22 a = 1)"

definition user_range :: "addr \<Rightarrow> nat \<Rightarrow> bool" where
  "user_range buf n \<longleftrightarrow> n \<le> 2 ^ 32 \<and> (\<forall>i < n. drop_bit 22 (buf + of_nat i) = 32)"

lemma user_range_at: "user_range buf n \<Longrightarrow> unat (a - buf) < n \<Longrightarrow> drop_bit 22 a = 32"
  unfolding user_range_def by (elim conjE allE [of _ "unat (a - buf)"]) simp

lemma user_range_mono: "user_range buf n \<Longrightarrow> k \<le> n \<Longrightarrow> user_range buf k"
  by (simp add: user_range_def)

lemma user_range_apart: "fs_placed s \<Longrightarrow> user_range buf n \<Longrightarrow> apart (vmem s) (fs_start s) buf n"
  unfolding apart_def fs_placed_def by (auto dest!: user_range_at)

lemma store_user:
  assumes "runs_program s p" "user_range buf n"
  obtains q where "store_range buf n m s = s\<lparr>pmem := q\<rparr>"
    "\<And>x. x \<in> main_region \<Longrightarrow> vmem (s\<lparr>pmem := q\<rparr>) x = (if unat (x - buf) < n then m x else vmem s x)"
    "own_frame p s q"
proof -
  obtain q where q: "store_range buf n m s = s\<lparr>pmem := q\<rparr>"
    "\<And>x. x \<in> main_region \<Longrightarrow> vmem (s\<lparr>pmem := q\<rparr>) x = (if unat (x - buf) < n then m x else vmem s x)"
    using assms store_range_view [OF main_region_plain [OF assms(1)], of n buf m]
    by (auto simp: user_range_def main_region_def)
  moreover have "own_frame p s q"
    using store_range_frame [OF assms(1), of n buf m] assms(2) q(1) by (simp add: user_range_def)
  ultimately show thesis by (rule that)
qed

text \<open>Memory that agrees on the image has the same files.\<close>

lemma image_load:
  assumes "\<And>a. in_fs m fs a \<Longrightarrow> m' a = m a" "fs_len m fs < 2 ^ 32" "k + 3 < fs_len m fs"
  shows "load32 m' (fs + of_nat k) = load32 m (fs + of_nat k)"
proof (rule load32_fs [OF assms(1)])
  fix j :: nat assume "j < 4"
  then have "in_fs m fs (fs + of_nat (k + j))" using assms(2,3) by (subst in_fs_offset) simp_all
  then show "in_fs m fs (fs + of_nat k + of_nat j)" by (simp add: add.assoc)
qed

lemma header_same:
  assumes "\<And>a. in_fs m fs a \<Longrightarrow> m' a = m a" "fs_len m fs < 2 ^ 32"
  shows "num_dentries m' fs = num_dentries m fs" "num_inodes m' fs = num_inodes m fs"
    "num_dblocks m' fs = num_dblocks m fs" "fs_len m' fs = fs_len m fs" "in_fs m' fs = in_fs m fs"
proof -
  have "4096 \<le> fs_len m fs" by (simp add: fs_len_def)
  with image_load [OF assms, of 0] image_load [OF assms, of 4] image_load [OF assms, of 8]
  show "num_dentries m' fs = num_dentries m fs" and n: "num_inodes m' fs = num_inodes m fs"
    "num_dblocks m' fs = num_dblocks m fs"
    by (simp_all add: num_dentries_def num_inodes_def num_dblocks_def)
  then show fl: "fs_len m' fs = fs_len m fs" by (simp add: fs_len_def)
  then show "in_fs m' fs = in_fs m fs" by (simp add: in_fs_def fun_eq_iff)
qed

lemma image_same:
  fixes m m' :: mem
  assumes "\<And>a. in_fs m fs a \<Longrightarrow> m' a = m a" "file_ok m fs inode"
  shows "in_fs m' fs = in_fs m fs" "file_size m' fs inode = file_size m fs inode"
    "file_ok m' fs inode" "k < unat (file_size m fs inode) \<Longrightarrow> file_byte m' fs inode k = file_byte m fs inode k"
proof -
  have l: "fs_len m fs < 2 ^ 32" and ino: "unat inode < unat (num_inodes m fs)"
    and sz: "unat (file_size m fs inode) \<le> 1023 * 4096"
    using assms(2) by (simp_all add: file_ok_def word_less_nat_alt)
  note n = header_same [OF assms(1) l]
  show "in_fs m' fs = in_fs m fs" by (rule n)
  have "4096 * (unat inode + 1) + 3 < fs_len m fs" using ino by (simp add: fs_len_def)
  from image_load [OF assms(1) l this] show fsz: "file_size m' fs inode = file_size m fs inode"
    by (simp add: file_size_def inode_addr_def algebra_simps)
  have slot: "load32 m' (slot_addr fs inode b) = load32 m (slot_addr fs inode b)" if "b < 1023" for b
    using slot_in_fs [OF assms(2) that] by (intro load32_fs [OF assms(1)]) auto
  then show "file_ok m' fs inode" using assms(2) by (simp add: file_ok_def n fsz)
  show "file_byte m' fs inode k = file_byte m fs inode k" if "k < unat (file_size m fs inode)"
  proof -
    have b: "k div 4096 < 1023" "k div 4096 * 4096 < unat (file_size m fs inode)"
      using that sz div_mult_mod_eq [of k 4096] by linarith+
    have "block_addr m' fs inode (k div 4096) = block_addr m fs inode (k div 4096)"
      using slot [OF b(1)] by (simp add: block_addr_def dblock_addr_def n)
    then show ?thesis
      using assms(1) [OF block_in_fs [OF assms(2) b, of "k mod 4096"]] by (simp add: file_byte_def)
  qed
qed

lemma vread_data_user:
  assumes "runs_program s p" "fs_placed s" "file_ok (vmem s) (fs_start s) inode"
    and "unat offset + unat len < 2 ^ 32"
    and "n = read_count (unat (file_size (vmem s) (fs_start s) inode)) (unat offset) (unat len)"
    and "user_range buf n"
  obtains q where "vread_data inode offset buf len s = (of_nat n, s\<lparr>pmem := q\<rparr>)"
    "\<And>x. x \<in> main_region \<Longrightarrow> vmem (s\<lparr>pmem := q\<rparr>) x =
       (if unat (x - buf) < n then file_byte (vmem s) (fs_start s) inode (unat offset + unat (x - buf))
        else vmem s x)"
    "own_frame p s q"
proof -
  note r = read_data_copies [OF assms(3,4), folded assms(5), OF user_range_apart [OF assms(2,6)]]
  obtain q where q: "store_range buf n (file_copied (vmem s) (fs_start s) inode buf (unat offset) (unat offset + n)) s = s\<lparr>pmem := q\<rparr>"
    "\<And>x. x \<in> main_region \<Longrightarrow> vmem (s\<lparr>pmem := q\<rparr>) x =
      (if unat (x - buf) < n then file_copied (vmem s) (fs_start s) inode buf (unat offset) (unat offset + n) x else vmem s x)"
    "own_frame p s q"
    by (rule store_user [OF assms(1,6)]) (rule that)
  have "\<not> num_inodes (vmem s) (fs_start s) \<le> inode" using assms(3) by (simp add: file_ok_def not_le)
  moreover have "n < 2 ^ 32"
    using assms(5) unat_lt32 [of len] by (simp add: read_count_def min_def)
  ultimately show thesis
    using q by (intro that [of q]) (simp_all add: vread_data_def r unat_of_nat32 file_copied_def)
qed

section \<open>Reading a file through its descriptor\<close>

lemma upd_fd_frame [simp]:
  "vmem (upd_fd fd f s) = vmem s" "runs_program (upd_fd fd f s) p = runs_program s p"
  "fs_start (upd_fd fd f s) = fs_start s" "fs_placed (upd_fd fd f s) = fs_placed s"
  "get_pcb_add (upd_fd fd f s) = get_pcb_add s" "esp (upd_fd fd f s) = esp s"
  "process_num (upd_fd fd f s) = process_num s" "process_array (upd_fd fd f s) = process_array s"
proof -
  show v: "vmem (upd_fd fd f s) = vmem s"
    by (simp add: fun_eq_iff vmem_def kload_def upd_fd_def upd_pcb_def translate_def table_at_def Let_def)
  show "fs_start (upd_fd fd f s) = fs_start s" "get_pcb_add (upd_fd fd f s) = get_pcb_add s"
    "esp (upd_fd fd f s) = esp s"
    "process_num (upd_fd fd f s) = process_num s" "process_array (upd_fd fd f s) = process_array s"
    by (simp_all add: upd_fd_def upd_pcb_def get_pcb_add_def)
  then show "fs_placed (upd_fd fd f s) = fs_placed s" by (simp add: fs_placed_def v)
  show "runs_program (upd_fd fd f s) p = runs_program s p"
    by (simp add: runs_program_def upd_fd_def upd_pcb_def paging_wf_def paging_on_def)
qed

lemma cur_pcb_upd_fd [simp]:
  "cur_pcb (upd_fd fd f s) = (cur_pcb s)\<lparr>fdt := (fdt (cur_pcb s))(fd := f (fdt (cur_pcb s) fd))\<rparr>"
  by (simp add: cur_pcb_def upd_fd_def upd_pcb_def get_pcb_add_def)

lemma pmem_frame [simp]:
  "cur_pcb (s\<lparr>pmem := q\<rparr>) = cur_pcb s" "get_pcb_add (s\<lparr>pmem := q\<rparr>) = get_pcb_add s"
  by (simp_all add: cur_pcb_def get_pcb_add_def)

lemma fs_placed_same:
  assumes "fs_placed s" "file_ok (vmem s) (fs_start s) inode" "fs_start t = fs_start s"
    and "\<And>a. drop_bit 22 a = 1 \<Longrightarrow> vmem t a = vmem s a"
  shows "fs_placed t" "file_ok (vmem t) (fs_start t) inode"
    "file_size (vmem t) (fs_start t) inode = file_size (vmem s) (fs_start s) inode"
    "k < unat (file_size (vmem s) (fs_start s) inode) \<Longrightarrow>
       file_byte (vmem t) (fs_start t) inode k = file_byte (vmem s) (fs_start s) inode k"
proof -
  have "vmem t a = vmem s a" if "in_fs (vmem s) (fs_start s) a" for a
    using assms(1,4) that by (simp add: fs_placed_def)
  note i = image_same [OF this assms(2)]
  show "fs_placed t" using assms(1) by (simp add: fs_placed_def assms(3) i)
  show "file_ok (vmem t) (fs_start t) inode"
    "file_size (vmem t) (fs_start t) inode = file_size (vmem s) (fs_start s) inode"
    "k < unat (file_size (vmem s) (fs_start s) inode) \<Longrightarrow>
       file_byte (vmem t) (fs_start t) inode k = file_byte (vmem s) (fs_start s) inode k"
    unfolding assms(3) using i by simp_all
qed

lemma small_count:
  assumes "n \<le> 1023 * 4096"
  shows "(of_nat n :: u32) \<noteq> - 1" "sint (of_nat n :: u32) = int n"
proof -
  have u: "uint (of_nat n :: u32) = int n"
    using assms unat_of_nat32 [of n] by (simp only: uint_nat) simp
  have "uint (- 1 :: u32) = 0xFFFFFFFF" by (simp add: unsigned_minus_1_eq_mask mask_eq_exp_minus_1)
  with u assms show "(of_nat n :: u32) \<noteq> - 1" by auto
  show "sint (of_nat n :: u32) = int n"
    using u assms by (simp add: sint_uint signed_take_bit_int_eq_self)
qed

text \<open>A descriptor of an open regular file.\<close>

definition reads_file :: "'a kernel_scheme \<Rightarrow> int \<Rightarrow> int \<Rightarrow> u32 \<Rightarrow> bool" where
  "reads_file s p fd inode \<longleftrightarrow>
     runs_program s p \<and> fs_placed s \<and> file_ok (vmem s) (fs_start s) inode \<and>
     fd_inode (fdt (cur_pcb s) fd) = inode"

abbreviation (input) pos_of :: "'a kernel_scheme \<Rightarrow> int \<Rightarrow> nat" where
  "pos_of s fd \<equiv> unat (file_position (fdt (cur_pcb s) fd))"

abbreviation (input) size_of :: "'a kernel_scheme \<Rightarrow> u32 \<Rightarrow> nat" where
  "size_of s inode \<equiv> unat (file_size (vmem s) (fs_start s) inode)"

text \<open>Memory after \<open>n\<close> bytes of the file from position \<open>k\<close> have arrived at \<open>buf\<close>.\<close>

definition delivered :: "'a kernel_scheme \<Rightarrow> 'a kernel_scheme \<Rightarrow> u32 \<Rightarrow> addr \<Rightarrow> nat \<Rightarrow> nat \<Rightarrow> bool" where
  "delivered s t inode buf k n \<longleftrightarrow>
     (\<forall>x \<in> main_region. vmem t x =
        (if unat (x - buf) < n then file_byte (vmem s) (fs_start s) inode (k + unat (x - buf)) else vmem s x))"

lemma file_read_step:
  fixes s :: "'a kernel_scheme"
  assumes "reads_file s p fd inode" "0 \<le> len" "int (pos_of s fd) + len < 2 ^ 32"
  defines "n \<equiv> min (nat len) (size_of s inode - pos_of s fd)"
  assumes "user_range buf n"
  defines "r \<equiv> file_read fd buf len s"
  shows "fst r = int n" "reads_file (snd r) p fd inode" "delivered s (snd r) inode buf (pos_of s fd) n"
    "pos_of (snd r) fd = pos_of s fd + n" "size_of (snd r) inode = size_of s inode" "fs_start (snd r) = fs_start s"
    "k < size_of s inode \<Longrightarrow>
       file_byte (vmem (snd r)) (fs_start (snd r)) inode k = file_byte (vmem s) (fs_start s) inode k"
    "\<exists>q. snd r = upd_fd fd (\<lambda>d. d\<lparr>file_position := file_position d + of_nat n\<rparr>) (s\<lparr>pmem := q\<rparr>) \<and> own_frame p s q"
proof -
  have a: "runs_program s p" "fs_placed s" "file_ok (vmem s) (fs_start s) inode"
    and ino: "fd_inode (fdt (cur_pcb s) fd) = inode" using assms(1) by (simp_all add: reads_file_def)
  have "0 \<le> int (pos_of s fd)" by (rule of_nat_0_le_iff)
  then have "len < 2 ^ 32" using assms(3) by linarith
  then have l: "unat (word_of_int len :: u32) = nat len"
    using assms(2) by (simp add: unat_eq_nat_uint uint_word_of_int_eq take_bit_int_eq_self)
  have n: "n = read_count (size_of s inode) (pos_of s fd) (unat (word_of_int len :: u32))"
    by (simp add: n_def read_count_def l)
  have "int (pos_of s fd + nat len) < int (2 ^ 32)" using assms(2,3) by simp
  then have fit: "pos_of s fd + unat (word_of_int len :: u32) < 2 ^ 32" unfolding l by (simp only: of_nat_less_iff)
  obtain q where q: "vread_data inode (file_position (fdt (cur_pcb s) fd)) buf (word_of_int len) s = (of_nat n, s\<lparr>pmem := q\<rparr>)"
    "\<And>x. x \<in> main_region \<Longrightarrow> vmem (s\<lparr>pmem := q\<rparr>) x =
       (if unat (x - buf) < n then file_byte (vmem s) (fs_start s) inode (pos_of s fd + unat (x - buf))
        else vmem s x)" "own_frame p s q"
    by (rule vread_data_user [OF a fit n assms(5)]) (rule that)
  have sz: "size_of s inode \<le> 1023 * 4096" and "inode < num_inodes (vmem s) (fs_start s)"
    using a(3) by (simp_all add: file_ok_def)
  then have "inode \<noteq> - 1" by auto
  have n4: "n \<le> 1023 * 4096" using sz by (simp add: n_def)
  have r: "r = (int n, upd_fd fd (\<lambda>d. d\<lparr>file_position := file_position d + of_nat n\<rparr>) (s\<lparr>pmem := q\<rparr>))"
    using q(1) \<open>inode \<noteq> - 1\<close> small_count [OF n4] by (simp add: r_def file_read_def ino)
  then show "fst r = int n" "fs_start (snd r) = fs_start s" by simp_all
  show "\<exists>q. snd r = upd_fd fd (\<lambda>d. d\<lparr>file_position := file_position d + of_nat n\<rparr>) (s\<lparr>pmem := q\<rparr>) \<and> own_frame p s q"
    using r q(3) by (intro exI [of _ q]) simp
  show "delivered s (snd r) inode buf (pos_of s fd) n" using q(2) by (simp add: delivered_def r)
  have same: "vmem (snd r) x = vmem s x" if "drop_bit 22 x = 1" for x
    using that q(2) [of x] user_range_at [OF assms(5), of x] by (auto simp: r main_region_def)
  note f = fs_placed_same [OF a(2,3) _ same]
  show "reads_file (snd r) p fd inode"
    using f(1,2) a(1) ino by (simp add: reads_file_def r)
  show "size_of (snd r) inode = size_of s inode" using f(3) by (simp add: r)
  show "file_byte (vmem (snd r)) (fs_start (snd r)) inode k = file_byte (vmem s) (fs_start s) inode k"
    if "k < size_of s inode" using f(4) that by (simp add: r)
  have "pos_of s fd + n < 2 ^ 32" using fit by (simp add: n_def l)
  then show "pos_of (snd r) fd = pos_of s fd + n"
    unfolding r using n4 by (simp add: unat_of_nat32) (subst unat_add_lem [THEN iffD1]; simp add: unat_of_nat32)
qed

text \<open>A program that reads a file piece by piece into consecutive memory.\<close>

fun read_chunks :: "int \<Rightarrow> addr \<Rightarrow> int list \<Rightarrow> 'a kernel_scheme \<Rightarrow> int \<times> 'a kernel_scheme" where
  "read_chunks fd buf [] s = (0, s)"
| "read_chunks fd buf (len # lens) s =
     (let (r, s) = file_read fd buf len s; (rest, s) = read_chunks fd (buf + word_of_int r) lens s
      in (r + rest, s))"

lemma delivered_trans:
  fixes s t u :: "'a kernel_scheme"
  assumes "delivered s t inode buf k n" "delivered t u inode (buf + of_nat n) (k + n) j" "n + j < 2 ^ 32"
    and "\<And>i. i < size_of s inode \<Longrightarrow>
       file_byte (vmem t) (fs_start t) inode i = file_byte (vmem s) (fs_start s) inode i"
    and "j = 0 \<or> k + n + j \<le> size_of s inode"
  shows "delivered s u inode buf k (n + j)"
  unfolding delivered_def
proof
  fix x assume x: "x \<in> main_region"
  define w where "w = x - buf"
  have e: "x - (buf + of_nat n) = w - of_nat n" by (simp add: w_def diff_diff_eq)
  have j: "unat (of_nat j :: u32) = j" using assms(3) by (intro unat_of_nat32) simp
  have rg: "unat (w - of_nat n) < j \<longleftrightarrow> n \<le> unat w \<and> unat w < n + j"
    using offset_range(1) [OF assms(3), of w] j by (simp add: word_less_nat_alt)
  have sub: "unat (w - of_nat n) = unat w - n" if "n \<le> unat w" using offset_range(2) [OF assms(3) that] .
  have "vmem u x = (if n \<le> unat w \<and> unat w < n + j
      then file_byte (vmem t) (fs_start t) inode (k + n + unat (w - of_nat n)) else vmem t x)"
    using assms(2) x by (simp add: delivered_def e rg)
  also have "\<dots> = (if unat w < n + j then file_byte (vmem s) (fs_start s) inode (k + unat w) else vmem s x)"
    using assms(1,4,5) x sub by (auto simp: delivered_def w_def)
  finally show "vmem u x = (if unat (x - buf) < n + j
      then file_byte (vmem s) (fs_start s) inode (k + unat (x - buf)) else vmem s x)" by (simp add: w_def)
qed

lemma read_chunks_file:
  fixes s :: "'a kernel_scheme"
  assumes "reads_file s p fd inode" "\<forall>l \<in> set lens. 0 \<le> l" "int (pos_of s fd) + sum_list lens < 2 ^ 32"
  defines "n \<equiv> min (nat (sum_list lens)) (size_of s inode - pos_of s fd)"
  assumes "user_range buf n"
  defines "r \<equiv> read_chunks fd buf lens s"
  shows "fst r = int n \<and> delivered s (snd r) inode buf (pos_of s fd) n \<and> pos_of (snd r) fd = pos_of s fd + n"
  using assms(1-3,5) unfolding r_def n_def
proof (induction lens arbitrary: s buf)
  case Nil
  then show ?case by (simp add: delivered_def)
next
  case (Cons l ls)
  let ?sz = "size_of s inode" and ?k = "pos_of s fd"
  define n1 where "n1 = min (nat l) (?sz - ?k)"
  define n2 where "n2 = min (nat (sum_list ls)) (?sz - (?k + n1))"
  have ls: "0 \<le> l" "0 \<le> sum_list ls" using Cons.prems(2) by (auto intro: sum_list_nonneg)
  have "min (a + b) (z - k) = min a (z - k) + min b (z - (k + min a (z - k)))" for a b z k :: nat
    by linarith
  then have tot: "min (nat (sum_list (l # ls))) (?sz - ?k) = n1 + n2"
    using ls by (simp add: n1_def n2_def nat_add_distrib)
  have ur: "user_range buf (n1 + n2)" using Cons.prems(4) unfolding tot .
  define t where "t = snd (file_read fd buf l s)"
  have lk: "int ?k + l < 2 ^ 32" using Cons.prems(3) ls by simp
  note f = file_read_step [OF Cons.prems(1) ls(1) lk, folded n1_def,
      OF user_range_mono [OF ur le_add1], folded t_def]
  have n12: "n1 + n2 < 2 ^ 32"
    unfolding tot [symmetric] using unat_lt32 [of "file_size (vmem s) (fs_start s) inode"] by linarith
  have "min b (z - k) = 0 \<or> k + min b (z - k) \<le> z" for b z k :: nat by (cases "k \<le> z") auto
  then have dj: "n2 = 0 \<or> ?k + n1 + n2 \<le> ?sz" unfolding n2_def by simp
  have "user_range (buf + of_nat n1) n2"
    using ur by (auto simp: user_range_def add.assoc of_nat_add [symmetric] simp del: of_nat_add)
  moreover have "int (pos_of t fd) + sum_list ls < 2 ^ 32"
    using Cons.prems(3) ls unfolding f(4) n1_def by simp
  ultimately have ih: "fst (read_chunks fd (buf + of_nat n1) ls t) = int n2"
    "delivered t (snd (read_chunks fd (buf + of_nat n1) ls t)) inode (buf + of_nat n1) (?k + n1) n2"
    "pos_of (snd (read_chunks fd (buf + of_nat n1) ls t)) fd = ?k + n1 + n2"
    using Cons.IH [of t "buf + of_nat n1"] f(2) Cons.prems(2) unfolding f(4,5) n2_def [symmetric] by simp_all
  have "read_chunks fd buf (l # ls) s =
      (int (n1 + n2), snd (read_chunks fd (buf + of_nat n1) ls t))"
    using f(1) ih(1)
    by (cases "file_read fd buf l s"; cases "read_chunks fd (buf + of_nat n1) ls t") (auto simp: t_def)
  moreover have "delivered s (snd (read_chunks fd (buf + of_nat n1) ls t)) inode buf ?k (n1 + n2)"
    by (rule delivered_trans [OF f(3) ih(2) n12 f(7) dj])
  ultimately show ?case using ih(3) unfolding tot by simp
qed

section \<open>What a call may change\<close>

text \<open>Only the descriptor table of the calling process.\<close>

definition own_fds_only :: "'a kernel_scheme \<Rightarrow> 'a kernel_scheme \<Rightarrow> bool" where
  "own_fds_only s s' \<longleftrightarrow>
     process_num s' = process_num s \<and> process_array s' = process_array s \<and> fs_start s' = fs_start s \<and>
     core_of s' = core_of s \<and> (\<forall>a. a \<noteq> get_pcb_add s \<longrightarrow> pcbs s' a = pcbs s a) \<and>
     (\<exists>t. cur_pcb s' = (cur_pcb s)\<lparr>fdt := t\<rparr>)"

lemma pcb_fdt_same: "p = p\<lparr>fdt := fdt p\<rparr>" for p :: pcb
  by simp

lemma own_refl [simp]: "own_fds_only s s"
  unfolding own_fds_only_def using pcb_fdt_same by blast

lemma own_trans: "own_fds_only s t \<Longrightarrow> own_fds_only t u \<Longrightarrow> own_fds_only s u"
  unfolding own_fds_only_def by (clarsimp simp: get_pcb_add_def core_of_def) blast

lemma own_kept:
  assumes "kept s' = kept s"
  shows "own_fds_only s s'"
  unfolding own_fds_only_def kept_kernel [OF assms] using pcb_fdt_same by blast

lemma own_upd_fd [simp]: "own_fds_only s (upd_fd fd f s)"
proof -
  have "\<forall>a. a \<noteq> get_pcb_add s \<longrightarrow> pcbs (upd_fd fd f s) a = pcbs s a"
    by (simp add: upd_fd_def upd_pcb_def)
  moreover have "core_of (upd_fd fd f s) = core_of s" by (simp add: core_of_def upd_fd_def upd_pcb_def)
  ultimately show ?thesis by (auto simp: own_fds_only_def)
qed

text \<open>The descriptor table: 0 and 1 are the terminal, the others free or bound to a file.\<close>

definition fd_ok :: "file_desc \<Rightarrow> bool" where
  "fd_ok d \<longleftrightarrow> fd_flags d = - 1 \<or> fd_flags d = 1 \<and> jump_ptr d \<in> {rtc_table, dir_table, file_table}"

definition fdt_ok :: "file_desc carray \<Rightarrow> bool" where
  "fdt_ok t \<longleftrightarrow>
     fd_flags (t 0) = 1 \<and> jump_ptr (t 0) = stdin_table \<and> fd_flags (t 1) = 1 \<and> jump_ptr (t 1) = stdout_table \<and>
     (\<forall>i. 2 \<le> i \<and> i \<le> MAX_FD_NUM \<longrightarrow> fd_ok (t i))"

definition fds_ok :: "'a kernel_scheme \<Rightarrow> bool" where
  "fds_ok s \<longleftrightarrow> fdt_ok (fdt (cur_pcb s))"

lemma fds_ok_kept:
  assumes "kept s' = kept s"
  shows "fds_ok s' = fds_ok s"
  by (simp add: fds_ok_def kept_kernel [OF assms])

lemma fds_ok_position:
  "fds_ok s \<Longrightarrow> fds_ok (upd_fd fd (\<lambda>d. d\<lparr>file_position := f d\<rparr>) s)"
  by (simp add: fds_ok_def fdt_ok_def fd_ok_def)

lemma fds_ok_bind:
  "fds_ok s \<Longrightarrow> 2 \<le> fd \<Longrightarrow> (\<And>d. fd_ok d \<Longrightarrow> fd_ok (f d)) \<Longrightarrow> fd \<le> 7 \<Longrightarrow> fds_ok (upd_fd fd f s)"
  by (simp add: fds_ok_def fdt_ok_def)

lemma kept_vread [simp]: "kept (snd (vread_data i off buf len s)) = kept s"
  by (simp add: vread_data_def split: prod.split)

lemma file_read_frame:
  "own_fds_only s (snd (file_read fd buf n s))" "fds_ok s \<Longrightarrow> fds_ok (snd (file_read fd buf n s))"
proof -
  define v where "v = vread_data (fd_inode (fdt (cur_pcb s) fd)) (file_position (fdt (cur_pcb s) fd)) buf (word_of_int n) s"
  have k: "kept (snd v) = kept s" by (simp add: v_def)
  have r: "snd (file_read fd buf n s) = (if fd_inode (fdt (cur_pcb s) fd) = - 1 then s else if fst v = - 1 then snd v
      else upd_fd fd (\<lambda>d. d\<lparr>file_position := file_position d + fst v\<rparr>) (snd v))"
    by (simp add: file_read_def v_def [symmetric] Let_def split: prod.split)
  show "own_fds_only s (snd (file_read fd buf n s))"
    using own_trans [OF own_kept [OF k] own_upd_fd] own_kept [OF k] by (simp add: r)
  show "fds_ok (snd (file_read fd buf n s))" if "fds_ok s"
    using that fds_ok_kept [OF k] by (simp add: r fds_ok_position)
qed

lemma dir_read_frame:
  "own_fds_only s (snd (dir_read fd buf n s))" "fds_ok s \<Longrightarrow> fds_ok (snd (dir_read fd buf n s))"
proof -
  define m where "m = strncpy (snd (read_dentry_by_index (vmem s) (fs_start s) (file_position (fdt (cur_pcb s) fd)) LOCAL_DENTRY)) buf LOCAL_DENTRY NAME_LENGTH"
  have k: "kept (store_range buf 32 m s) = kept s" by simp
  have r: "snd (dir_read fd buf n s) = s \<or>
      snd (dir_read fd buf n s) = upd_fd fd (\<lambda>d. d\<lparr>file_position := file_position d + 1\<rparr>) (store_range buf 32 m s)"
    by (simp add: dir_read_def m_def Let_def split: prod.split)
  show "own_fds_only s (snd (dir_read fd buf n s))"
    using r own_trans [OF own_kept [OF k] own_upd_fd] by auto
  show "fds_ok (snd (dir_read fd buf n s))" if "fds_ok s"
    using r that fds_ok_kept [OF k] fds_ok_position by auto
qed

lemma sys_read_frame:
  assumes "sys_read fd buf n keys irqs s = Some (r, s')"
  shows "own_fds_only s s'" "fds_ok s \<Longrightarrow> fds_ok s'"
proof -
  have k: "kept (sti (cli s)) = kept s" "kept (cli s) = kept s" by simp_all
  have "own_fds_only s (sti (cli s))" "fds_ok (sti (cli s)) = fds_ok s"
    using own_kept [OF k(1)] fds_ok_kept [OF k(1)] by simp_all
  moreover have "own_fds_only (sti (cli s)) s' \<and> (fds_ok (sti (cli s)) \<longrightarrow> fds_ok s')"
    if "table_read j fd buf n keys irqs (sti (cli s)) = Some (r, s')" for j
    using that file_read_frame [of "sti (cli s)" fd buf n] dir_read_frame [of "sti (cli s)" fd buf n]
    by (cases j) (auto simp: invalid_read_def dest!: kept_rtc_read kept_terminal_read intro: own_kept dest: fds_ok_kept)
  ultimately show "own_fds_only s s'" "fds_ok s \<Longrightarrow> fds_ok s'"
    using assms by (auto simp: sys_read_def Let_def split: if_splits intro: own_trans)
qed

lemma sys_write_frame: "kept (snd (sys_write fd buf n s)) = kept s"
proof -
  have "kept (snd (table_write j buf n t)) = kept t" for j and t :: "'a kernel_scheme"
    by (cases j) (simp_all add: file_write_def dir_write_def invalid_write_def)
  then show ?thesis by (simp add: sys_write_def Let_def)
qed

lemma sys_close_frame:
  "own_fds_only s (snd (sys_close fd s))" "fds_ok s \<Longrightarrow> fds_ok (snd (sys_close fd s))"
proof -
  let ?c = "snd (table_close (jump_ptr (fdt (cur_pcb s) fd)) s)"
  have k: "kept (snd (table_close j s)) = kept s" for j
    by (cases j) (simp_all add: file_close_def dir_close_def)
  have r: "snd (sys_close fd s) = s \<or> 2 \<le> fd \<and> fd \<le> 7 \<and> snd (sys_close fd s) = upd_fd fd (\<lambda>d. d\<lparr>fd_flags := - 1\<rparr>) ?c"
    by (auto simp: sys_close_def)
  show "own_fds_only s (snd (sys_close fd s))"
    using r own_trans [OF own_kept [OF k] own_upd_fd] by auto
  show "fds_ok (snd (sys_close fd s))" if "fds_ok s"
    using r that fds_ok_kept [OF k] fds_ok_bind [of ?c fd "\<lambda>d. d\<lparr>fd_flags := - 1\<rparr>"] by (auto simp: fd_ok_def)
qed

lemma free_fd_Some: "free_fd p = Some i \<Longrightarrow> 2 \<le> i \<and> i \<le> 7 \<and> fd_flags (fdt p i) = - 1"
  unfolding free_fd_def find_Some_iff by (metis atLeastAtMost_iff nth_mem set_upto)

text \<open>The descriptor of a freshly opened file.\<close>

definition fresh_fd :: "u32 \<Rightarrow> u32 \<Rightarrow> file_desc" where
  "fresh_fd ftype inum =
     \<lparr>jump_ptr = (if ftype = 0 then rtc_table else if ftype = 1 then dir_table else file_table),
      fd_inode = (if ftype = 2 then inum else 0), file_position = 0, fd_flags = 1\<rparr>"

lemma upd_fd_twice: "upd_fd i f (upd_fd i g s) = upd_fd i (f \<circ> g) s"
  by (simp add: upd_fd_def upd_pcb_def get_pcb_add_def cur_pcb_def)

lemma fresh_fd_fields:
  "(\<lambda>d. d\<lparr>fd_flags := 1, file_position := 0\<rparr>) \<circ> (\<lambda>d. d\<lparr>jump_ptr := j, fd_inode := n\<rparr>) =
     (\<lambda>_. \<lparr>jump_ptr = j, fd_inode = n, file_position = 0, fd_flags = 1\<rparr>)"
  by (rule ext) simp

lemma open_fd_plain:
  "ftype = 1 \<or> ftype = 2 \<Longrightarrow> open_fd i ftype inum s = (i, upd_fd i (\<lambda>_. fresh_fd ftype inum) s)"
  by (auto simp: open_fd_def dir_open_def file_open_def upd_fd_twice fresh_fd_fields fresh_fd_def)

lemma open_fd_eq:
  fixes s :: "'a kernel_scheme"
  assumes "ftype \<le> 2"
  obtains s1 where "open_fd i ftype inum s = (i, upd_fd i (\<lambda>_. fresh_fd ftype inum) s1)" "kept s1 = kept s"
proof -
  have t: "ftype = 0 \<or> ftype = 1 \<or> ftype = 2" using assms(1) by unat_arith
  have u: "upd_fd i f (s\<lparr>frequencies := g\<rparr>) = (upd_fd i f s)\<lparr>frequencies := g\<rparr>" for f g and s :: "'a kernel_scheme"
    by (simp add: upd_fd_def upd_pcb_def get_pcb_add_def cur_pcb_def)
  have ro: "snd (rtc_open s) = s\<lparr>frequencies := (frequencies s)(cur_sched_term s := 512)\<rparr>" for s :: "'a kernel_scheme"
    by (simp add: rtc_open_def cli_and_save_def cli_def restore_flags_def)
  have fr: "frequencies (upd_fd i f s) = frequencies s" "cur_sched_term (upd_fd i f s) = cur_sched_term s" for f
    by (simp_all add: upd_fd_def upd_pcb_def)
  show thesis
  proof (cases "ftype = 0")
    case True
    have "open_fd i ftype inum s = (i, upd_fd i (\<lambda>_. fresh_fd ftype inum) (s\<lparr>frequencies := (frequencies s)(cur_sched_term s := 512)\<rparr>))"
      using True by (simp add: open_fd_def ro fr u upd_fd_twice fresh_fd_fields fresh_fd_def)
    then show thesis by (rule that) simp
  next
    case False
    then show thesis using t by (intro that [of s]) (simp_all add: open_fd_plain)
  qed
qed

lemma open_fd_other: "\<not> ftype \<le> 2 \<Longrightarrow> open_fd i ftype inum s = (- 1, s)"
  unfolding open_fd_def by (subgoal_tac "ftype \<noteq> 0 \<and> ftype \<noteq> 1 \<and> ftype \<noteq> 2") (auto simp: Let_def)

lemma sys_open_frame:
  "own_fds_only s (snd (sys_open filename s))" "fds_ok s \<Longrightarrow> fds_ok (snd (sys_open filename s))"
proof -
  have fd: "own_fds_only s (snd (open_fd i ft n s)) \<and> (fds_ok s \<longrightarrow> fds_ok (snd (open_fd i ft n s)))"
    if i: "2 \<le> i" "i \<le> 7" for i ft n
  proof (cases "ft \<le> 2")
    case True
    obtain s1 where s1: "open_fd i ft n s = (i, upd_fd i (\<lambda>_. fresh_fd ft n) s1)" "kept s1 = kept s"
      using open_fd_eq [OF True] by metis
    show ?thesis
      using own_trans [OF own_kept [OF s1(2)] own_upd_fd] i fds_ok_kept [OF s1(2)]
      by (auto simp: s1(1) fd_ok_def fresh_fd_def intro!: fds_ok_bind)
  qed (simp add: open_fd_other)
  have k: "kept (snd (terminal_open s)) = kept s" "kept (raise_fault s) = kept s" by simp_all
  note o = own_kept [OF k(1)] own_kept [OF k(2)] fds_ok_kept [OF k(1)] fds_ok_kept [OF k(2)]
  show "own_fds_only s (snd (sys_open filename s))" "fds_ok s \<Longrightarrow> fds_ok (snd (sys_open filename s))"
    using fd free_fd_Some o by (auto simp: sys_open_def split: option.split)
qed

text \<open>The descriptor calls as steps of a process; a read that is still waiting changes nothing yet.\<close>

datatype fd_call = Read int addr int "u8 list" nat | Write int addr int | Open addr | Close int

primrec do_call :: "fd_call \<Rightarrow> 'a kernel_scheme \<Rightarrow> 'a kernel_scheme" where
  "do_call (Read fd buf n keys irqs) s =
     (case sys_read fd buf n keys irqs s of None \<Rightarrow> s | Some (r, s') \<Rightarrow> s')"
| "do_call (Write fd buf n) s = snd (sys_write fd buf n s)"
| "do_call (Open filename) s = snd (sys_open filename s)"
| "do_call (Close fd) s = snd (sys_close fd s)"

text \<open>Calls that respect a relation between the states before and after, and an invariant.\<close>

locale guarded_calls =
  fixes step :: "'c \<Rightarrow> 's \<Rightarrow> 's"
    and frame :: "'s \<Rightarrow> 's \<Rightarrow> bool"
    and ok :: "'s \<Rightarrow> bool"
  assumes frame_refl: "frame s s"
    and frame_trans: "frame s t \<Longrightarrow> frame t u \<Longrightarrow> frame s u"
    and frame_step: "frame s (step c s)"
    and ok_step: "ok s \<Longrightarrow> ok (step c s)"
begin

lemma frame_run: "frame s (fold step cs s)"
proof (induction cs arbitrary: s)
  case (Cons c cs)
  then show ?case using frame_trans [OF frame_step [of s c] Cons.IH] by simp
qed (simp add: frame_refl)

lemma ok_run: "ok s \<Longrightarrow> ok (fold step cs s)"
  by (induction cs arbitrary: s) (simp_all add: ok_step)

end

interpretation fd_calls: guarded_calls do_call own_fds_only fds_ok
proof
  fix s :: "'a kernel_scheme" and c
  have w: "kept (snd (sys_write fd buf n s)) = kept s" for fd buf n by (rule sys_write_frame)
  show "own_fds_only s (do_call c s)"
    using sys_open_frame(1) sys_close_frame(1) own_kept [OF w]
    by (cases c) (auto split: option.split dest: sys_read_frame(1))
  show "fds_ok (do_call c s)" if "fds_ok s"
    using that sys_open_frame(2) sys_close_frame(2) fds_ok_kept [OF w]
    by (cases c) (auto split: option.split dest: sys_read_frame(2))
qed (simp_all, rule own_trans)

section \<open>Opening by name\<close>

lemma put_bytes_at:
  assumes "length bs < 2 ^ 32"
  shows "bytes_at (put_bytes a bs m) a (length bs) = bs"
  using assms by (intro nth_equalityI) (simp_all add: put_bytes_def unat_of_nat32)

lemma put_bytes_other: "length bs \<le> unat (x - a) \<Longrightarrow> put_bytes a bs m x = m x"
  by (simp add: put_bytes_def)

lemma is_cstr_put:
  assumes "0 \<notin> set bs" "length bs < 1000"
  shows "is_cstr (put_bytes a (bs @ [0]) m) a bs"
proof -
  have "bytes_at (put_bytes a (bs @ [0]) m) a (length (bs @ [0])) = bs @ [0]"
    using assms(2) by (intro put_bytes_at) simp
  then have b: "take (length bs) (bytes_at (put_bytes a (bs @ [0]) m) a (length (bs @ [0]))) = bs"
    "bytes_at (put_bytes a (bs @ [0]) m) a (length (bs @ [0])) ! length bs = 0" by simp_all
  then show ?thesis using assms by (simp add: is_cstr_def)
qed

lemma low_not_main: "unat (a :: addr) < 2 ^ 22 \<Longrightarrow> a \<notin> main_region"
proof -
  assume "unat a < 2 ^ 22"
  then have "unat (drop_bit 22 a) = 0" by (simp add: drop_bit_eq_div unat_div)
  then show ?thesis by (auto simp: main_region_def)
qed

lemma put_low:
  assumes "unat a + length bs < 2 ^ 22" "x \<in> main_region"
  shows "put_bytes a bs m x = m x"
proof (rule put_bytes_other, rule ccontr)
  assume "\<not> length bs \<le> unat (x - a)"
  then have lt: "unat a + unat (x - a) < 2 ^ 22" using assms(1) by simp
  then have "unat (a + (x - a)) = unat a + unat (x - a)"
    by (intro unat_add_lem [THEN iffD1]) simp
  with lt have "unat x < 2 ^ 22" by simp
  with low_not_main assms(2) show False by blast
qed

text \<open>A string in the kernel or program page.\<close>

definition names_file :: "'a kernel_scheme \<Rightarrow> addr \<Rightarrow> u8 list \<Rightarrow> bool" where
  "names_file s filename name \<longleftrightarrow>
     is_cstr (vmem s) filename name \<and> (\<forall>i \<le> length name. filename + of_nat i \<in> main_region)"

lemma strncmp_const_prefix:
  assumes "names_file s filename name" "0 \<notin> set lit" "length lit < 1000"
  shows "strncmp_const filename lit (of_nat (length name)) s = 0 \<longleftrightarrow> name = take (length name) lit"
proof -
  let ?m = "put_bytes CONSTANT (lit @ [0]) (vmem s)"
  have c: "is_cstr (vmem s) filename name" using assms(1) by (simp add: names_file_def)
  have n: "unat (of_nat (length name) :: u32) = length name"
    using is_cstrD(4) [OF c] by (intro unat_of_nat32) simp
  have "?m (filename + of_nat i) = vmem s (filename + of_nat i)" if "i \<le> length name" for i
    using assms that by (intro put_low) (simp_all add: names_file_def)
  then have "bytes_at ?m filename (length name) = bytes_at (vmem s) filename (length name)"
    by (intro bytes_at_same) simp
  then have "bytes_at ?m filename (length name) = name" using c by (simp add: is_cstr_def)
  moreover have "0 \<notin> set name" using c by (simp add: is_cstr_def)
  ultimately have "cstr (bytes_at ?m filename (length name)) = name" by (simp add: cstr_no_zero)
  then show ?thesis
    unfolding strncmp_const_def strncmp_eq_0_iff n
    using cstr_bytes_of_cstr [OF is_cstr_put [OF assms(2,3)]] by simp
qed

lemma vstrlen_name:
  assumes "runs_program s p" "names_file s filename name"
  shows "vstrlen filename s = Some (of_nat (length name))"
proof -
  have "filename + of_nat (length name) \<in> main_region" using assms(2) by (simp add: names_file_def)
  then have "mapped s (filename + of_nat (length name))"
    using main_region_plain [OF assms(1)] by (simp add: plain_region_def)
  moreover have "strlen (vmem s) filename = Some (of_nat (length name))"
    using assms(2) strlen_cstr by (simp add: names_file_def)
  ultimately show ?thesis by (simp add: vstrlen_def)
qed

lemma main_region_nonzero: "a \<in> main_region \<Longrightarrow> a \<noteq> 0"
  by (auto simp: main_region_def)

text \<open>The names that \<open>open\<close> takes for the terminal.\<close>

definition terminal_name :: "u8 list \<Rightarrow> bool" where
  "terminal_name name \<longleftrightarrow> name = take (length name) stdin_name \<or> name = take (length name) stdout_name"

lemma sys_open_cases:
  assumes "runs_program s p" "names_file s filename name"
  shows "name = [] \<Longrightarrow> sys_open filename s = (- 1, s)"
    "name \<noteq> [] \<Longrightarrow> name = take (length name) stdin_name \<Longrightarrow> sys_open filename s = (0, snd (terminal_open s))"
    "name \<noteq> [] \<Longrightarrow> name \<noteq> take (length name) stdin_name \<Longrightarrow> name = take (length name) stdout_name \<Longrightarrow>
       sys_open filename s = (1, snd (terminal_open s))"
    "\<not> terminal_name name \<Longrightarrow> sys_open filename s =
       (case read_dentry_by_name (vmem s) (fs_start s) filename LOCAL_DENTRY of
          None \<Rightarrow> (- 1, raise_fault s)
        | Some (r, m) \<Rightarrow>
            if r = - 1 then (- 1, s)
            else (case free_fd (cur_pcb s) of
                    None \<Rightarrow> (- 1, s)
                  | Some i \<Rightarrow> open_fd i (file_type m LOCAL_DENTRY) (inode_num m LOCAL_DENTRY) s))"
proof -
  have "filename \<in> main_region" using assms(2) by (auto simp: names_file_def dest: spec [of _ 0])
  then have nz: "filename \<noteq> 0" by (rule main_region_nonzero)
  note c = strncmp_const_prefix [OF assms(2), of "[]"]
    strncmp_const_prefix [OF assms(2), of stdin_name] strncmp_const_prefix [OF assms(2), of stdout_name]
  have l: "0 \<notin> set stdin_name" "0 \<notin> set stdout_name" by (simp_all add: stdin_name_def stdout_name_def)
  have d: "length stdin_name < 1000" "length stdout_name < 1000" by (simp_all add: stdin_name_def stdout_name_def)
  note o = sys_open_def [of filename s, unfolded vstrlen_name [OF assms]]
  show "name = [] \<Longrightarrow> sys_open filename s = (- 1, s)" using nz c(1) by (simp add: o)
  show "name \<noteq> [] \<Longrightarrow> name = take (length name) stdin_name \<Longrightarrow> sys_open filename s = (0, snd (terminal_open s))"
    using nz c(1) c(2) [OF l(1) d(1)] by (simp add: o)
  show "name \<noteq> [] \<Longrightarrow> name \<noteq> take (length name) stdin_name \<Longrightarrow> name = take (length name) stdout_name \<Longrightarrow>
       sys_open filename s = (1, snd (terminal_open s))"
    using nz c(1) c(2) [OF l(1) d(1)] c(3) [OF l(2) d(2)] by (simp add: o)
  assume n: "\<not> terminal_name name"
  then have "name \<noteq> []" by (auto simp: terminal_name_def)
  with n show "sys_open filename s =
       (case read_dentry_by_name (vmem s) (fs_start s) filename LOCAL_DENTRY of
          None \<Rightarrow> (- 1, raise_fault s)
        | Some (r, m) \<Rightarrow>
            if r = - 1 then (- 1, s)
            else (case free_fd (cur_pcb s) of
                    None \<Rightarrow> (- 1, s)
                  | Some i \<Rightarrow> open_fd i (file_type m LOCAL_DENTRY) (inode_num m LOCAL_DENTRY) s))"
    using nz c(1) c(2) [OF l(1) d(1)] c(3) [OF l(2) d(2)] by (simp add: o terminal_name_def)
qed

text \<open>An image with a directory of at most 63 entries of the types 0 to 2, in the kernel page.\<close>

definition image_ok :: "'a kernel_scheme \<Rightarrow> bool" where
  "image_ok s \<longleftrightarrow>
     fs_placed s \<and> fs_len (vmem s) (fs_start s) < 2 ^ 32 \<and> num_dentries (vmem s) (fs_start s) \<le> 63 \<and>
     types_ok (vmem s) (fs_start s)"

lemma dentry_in_image:
  assumes "image_ok s" "j < num_dentries (vmem s) (fs_start s)" "i < 64"
  shows "in_fs (vmem s) (fs_start s) (dentry_addr (fs_start s) j + of_nat i)"
    "drop_bit 22 (dentry_addr (fs_start s) j + of_nat i) = 1"
proof -
  have l: "fs_len (vmem s) (fs_start s) < 2 ^ 32" using assms(1) by (simp add: image_ok_def)
  have "unat j < 63" using assms(1,2) by (auto simp: image_ok_def word_less_nat_alt word_le_nat_alt)
  then have "64 + 64 * unat j + i < fs_len (vmem s) (fs_start s)" using assms(3) by (simp add: fs_len_def)
  moreover have "dentry_addr (fs_start s) j + of_nat i = fs_start s + of_nat (64 + 64 * unat j + i)"
    by (simp add: dentry_addr_def algebra_simps)
  ultimately show f: "in_fs (vmem s) (fs_start s) (dentry_addr (fs_start s) j + of_nat i)"
    using l by (simp only: in_fs_offset)
  then show "drop_bit 22 (dentry_addr (fs_start s) j + of_nat i) = 1"
    using assms(1) by (simp add: image_ok_def fs_placed_def)
qed

lemma kernel_page_apart:
  assumes "drop_bit 22 (a :: addr) = 1" "unat d < 0x3FFFC0"
  shows "64 \<le> a - d" "64 \<le> d - a"
proof -
  have "push_bit 22 (drop_bit 22 a) + take_bit 22 a = a" by (rule bits_ident)
  then have a: "a = 0x400000 + take_bit 22 a" using assms(1) by simp
  have t: "unat (take_bit 22 a) < 2 ^ 22"
    using take_bit_nat_less_exp [of 22 "unat a"] by (simp add: unsigned_take_bit_eq)
  then have u: "unat a = 0x400000 + unat (take_bit 22 a)"
    by (subst a) (subst unat_add_lem [THEN iffD1]; simp)
  then have "unat (a - d) = unat a - unat d" using assms(2) by (subst unat_sub) (simp_all add: word_le_nat_alt)
  then show "64 \<le> a - d" using u assms(2) by (simp add: word_le_nat_alt)
  have "unat (d - a) = 2 ^ 32 + unat d - unat a"
    using u assms(2) by (simp add: unat_sub_if_size word_size)
  then show "64 \<le> d - a" using u t by (simp add: word_le_nat_alt)
qed

lemma dentry_apart:
  assumes "image_ok s" "j < num_dentries (vmem s) (fs_start s)"
  shows "64 \<le> LOCAL_DENTRY - dentry_addr (fs_start s) j" "64 \<le> dentry_addr (fs_start s) j - LOCAL_DENTRY"
  using kernel_page_apart [of "dentry_addr (fs_start s) j" LOCAL_DENTRY] dentry_in_image(2) [OF assms, of 0] by simp_all

lemma sys_open_lookup:
  assumes "runs_program s p" "names_file s filename name" "\<not> terminal_name name" "plain_name name" "image_ok s"
  shows "sys_open filename s =
    (case lookup_name (vmem s) (fs_start s) name of
       None \<Rightarrow> (- 1, s)
     | Some j \<Rightarrow>
         let d = dentry_addr (fs_start s) (of_nat j) in
         case free_fd (cur_pcb s) of
           None \<Rightarrow> (- 1, s)
         | Some i \<Rightarrow> open_fd i (file_type (vmem s) d) (inode_num (vmem s) d) s)"
    "lookup_name (vmem s) (fs_start s) name = Some j \<Longrightarrow> file_type (vmem s) (dentry_addr (fs_start s) (of_nat j)) \<le> 2"
proof -
  have cs: "is_cstr (vmem s) filename name" and ty: "types_ok (vmem s) (fs_start s)"
    using assms(2,5) by (simp_all add: names_file_def image_ok_def)
  note f = find_dentry_lookup [OF cs assms(4) ty]
  note o = sys_open_cases(4) [OF assms(1-3)]
  note lt = lookup_bound(2)
  show "file_type (vmem s) (dentry_addr (fs_start s) (of_nat j)) \<le> 2"
    if "lookup_name (vmem s) (fs_start s) name = Some j" using ty lt [OF that] by (simp add: types_ok_def)
  show "sys_open filename s =
    (case lookup_name (vmem s) (fs_start s) name of
       None \<Rightarrow> (- 1, s)
     | Some j \<Rightarrow>
         let d = dentry_addr (fs_start s) (of_nat j) in
         case free_fd (cur_pcb s) of
           None \<Rightarrow> (- 1, s)
         | Some i \<Rightarrow> open_fd i (file_type (vmem s) d) (inode_num (vmem s) d) s)"
  proof (cases "lookup_name (vmem s) (fs_start s) name")
    case None
    then show ?thesis by (simp add: o read_dentry_by_name_def f)
  next
    case (Some j)
    let ?d = "dentry_addr (fs_start s) (of_nat j)"
    have nz: "?d \<noteq> 0" using dentry_in_image(2) [OF assms(5) lt [OF Some], of 0] by auto
    define m where "m = copy_dentry (vmem s) LOCAL_DENTRY ?d"
    have m: "file_type m LOCAL_DENTRY = file_type (vmem s) ?d" "inode_num m LOCAL_DENTRY = inode_num (vmem s) ?d"
      unfolding m_def by (intro copy_dentry_fields dentry_apart [OF assms(5) lt [OF Some]])+
    have "read_dentry_by_name (vmem s) (fs_start s) filename LOCAL_DENTRY = Some (0, m)"
      using nz by (simp add: read_dentry_by_name_def f Some m_def)
    then show ?thesis using Some by (simp add: o m Let_def cong: option.case_cong)
  qed
qed

lemma sys_open_file:
  assumes "runs_program s p" "names_file s filename name" "\<not> terminal_name name" "plain_name name" "image_ok s"
  shows "case lookup_name (vmem s) (fs_start s) name of
      None \<Rightarrow> sys_open filename s = (- 1, s)
    | Some j \<Rightarrow>
        (let d = dentry_addr (fs_start s) (of_nat j) in
         case free_fd (cur_pcb s) of
           None \<Rightarrow> sys_open filename s = (- 1, s)
         | Some i \<Rightarrow>
             fst (sys_open filename s) = i \<and>
             fdt (cur_pcb (snd (sys_open filename s))) =
               (fdt (cur_pcb s))(i := fresh_fd (file_type (vmem s) d) (inode_num (vmem s) d)))"
proof (cases "lookup_name (vmem s) (fs_start s) name")
  case None
  then show ?thesis by (simp add: sys_open_lookup(1) [OF assms])
next
  case (Some j)
  let ?d = "dentry_addr (fs_start s) (of_nat j)"
  show ?thesis
  proof (cases "free_fd (cur_pcb s)")
    case None
    then show ?thesis using Some by (simp add: sys_open_lookup(1) [OF assms])
  next
    case (Some i)
    obtain s1 where s1: "open_fd i (file_type (vmem s) ?d) (inode_num (vmem s) ?d) s =
        (i, upd_fd i (\<lambda>_. fresh_fd (file_type (vmem s) ?d) (inode_num (vmem s) ?d)) s1)" "kept s1 = kept s"
      by (rule open_fd_eq [OF sys_open_lookup(2) [OF assms \<open>lookup_name (vmem s) (fs_start s) name = Some j\<close>]])
    have "cur_pcb s1 = cur_pcb s" using kept_kernel(7) [OF s1(2)] .
    then show ?thesis
      using Some \<open>lookup_name (vmem s) (fs_start s) name = Some j\<close> by (simp add: sys_open_lookup(1) [OF assms] s1(1))
  qed
qed

section \<open>Listing the directory\<close>

text \<open>A change of memory outside the kernel page leaves the directory as it is.\<close>

lemma image_ok_same:
  assumes "image_ok s" "fs_start t = fs_start s" "\<And>a. drop_bit 22 a = 1 \<Longrightarrow> vmem t a = vmem s a"
  shows "image_ok t" "num_dentries (vmem t) (fs_start t) = num_dentries (vmem s) (fs_start s)"
    "j < num_dentries (vmem s) (fs_start s) \<Longrightarrow>
       dentry_name (vmem t) (dentry_addr (fs_start t) j) = dentry_name (vmem s) (dentry_addr (fs_start s) j)"
proof -
  have s: "vmem t a = vmem s a" if "in_fs (vmem s) (fs_start s) a" for a
    using assms(1,3) that by (simp add: image_ok_def fs_placed_def)
  have l: "fs_len (vmem s) (fs_start s) < 2 ^ 32" using assms(1) by (simp add: image_ok_def)
  note h = header_same [OF s l]
  show "num_dentries (vmem t) (fs_start t) = num_dentries (vmem s) (fs_start s)" by (simp add: assms(2) h)
  have e: "vmem t (dentry_addr (fs_start s) j + of_nat i) = vmem s (dentry_addr (fs_start s) j + of_nat i)"
    if "j < num_dentries (vmem s) (fs_start s)" "i < 64" for i j
    by (rule assms(3)) (rule dentry_in_image(2) [OF assms(1) that])
  show "dentry_name (vmem t) (dentry_addr (fs_start t) j) = dentry_name (vmem s) (dentry_addr (fs_start s) j)"
    if "j < num_dentries (vmem s) (fs_start s)"
  proof -
    have "bytes_at (vmem t) (dentry_addr (fs_start s) j) 32 = bytes_at (vmem s) (dentry_addr (fs_start s) j) 32"
      using e [OF that] by (intro bytes_at_same) simp
    then show ?thesis by (simp add: dentry_name_def assms(2))
  qed
  have "file_type (vmem t) (dentry_addr (fs_start s) j) = file_type (vmem s) (dentry_addr (fs_start s) j)"
    if "j < num_dentries (vmem s) (fs_start s)" for j
    unfolding file_type_def
    using e [OF that, of 32] e [OF that, of 33] e [OF that, of 34] e [OF that, of 35]
    by (intro load32_cong) (simp_all add: add.assoc)
  then have "types_ok (vmem t) (fs_start s)" using assms(1) by (simp add: types_ok_def h image_ok_def)
  then show "image_ok t" using assms(1) by (simp add: image_ok_def fs_placed_def assms(2) h)
qed

lemma user_apart:
  assumes "drop_bit 22 (a :: addr) = 32" "unat d < 0x3FFFC0"
  shows "64 \<le> a - d"
proof -
  have "push_bit 22 (drop_bit 22 a) + take_bit 22 a = a" by (rule bits_ident)
  then have a: "a = 0x8000000 + take_bit 22 a" using assms(1) by simp
  have t: "unat (take_bit 22 a) < 2 ^ 22"
    using take_bit_nat_less_exp [of 22 "unat a"] by (simp add: unsigned_take_bit_eq)
  then have u: "unat a = 0x8000000 + unat (take_bit 22 a)"
    by (subst a) (subst unat_add_lem [THEN iffD1]; simp)
  then have "unat (a - d) = unat a - unat d" using assms(2) by (subst unat_sub) (simp_all add: word_le_nat_alt)
  then show ?thesis using u assms(2) by (simp add: word_le_nat_alt)
qed

lemma dir_read_step:
  fixes s :: "'a kernel_scheme" and n :: int
  assumes "runs_program s p" "image_ok s" "user_range buf 32"
    and "file_position (fdt (cur_pcb s) fd) = k" "k < num_dentries (vmem s) (fs_start s)"
  defines "r \<equiv> dir_read fd buf n s"
  shows "fst r = 32" "dentry_name (vmem (snd r)) buf = dentry_name (vmem s) (dentry_addr (fs_start s) k)"
    "file_position (fdt (cur_pcb (snd r)) fd) = k + 1" "runs_program (snd r) p" "fs_start (snd r) = fs_start s"
    "drop_bit 22 a = 1 \<Longrightarrow> vmem (snd r) a = vmem s a"
    "bytes_at (vmem (snd r)) buf 32 = dentry_name (vmem s) (dentry_addr (fs_start s) k) @
       replicate (32 - length (dentry_name (vmem s) (dentry_addr (fs_start s) k))) 0"
    "x \<in> main_region \<Longrightarrow> 32 \<le> unat (x - buf) \<Longrightarrow> vmem (snd r) x = vmem s x"
    "\<exists>q. snd r = upd_fd fd (\<lambda>d. d\<lparr>file_position := file_position d + 1\<rparr>) (s\<lparr>pmem := q\<rparr>) \<and> own_frame p s q"
proof -
  let ?d = "dentry_addr (fs_start s) k"
  define m where "m = copy_dentry (vmem s) LOCAL_DENTRY ?d"
  have nm: "dentry_name m LOCAL_DENTRY = dentry_name (vmem s) ?d"
    unfolding m_def by (intro copy_dentry_fields dentry_apart [OF assms(2,5)])
  define c where "c = strncpy m buf LOCAL_DENTRY NAME_LENGTH"
  obtain q where q: "store_range buf 32 c s = s\<lparr>pmem := q\<rparr>"
    "\<And>x. x \<in> main_region \<Longrightarrow> vmem (s\<lparr>pmem := q\<rparr>) x = (if unat (x - buf) < 32 then c x else vmem s x)"
    "own_frame p s q"
    by (rule store_user [OF assms(1,3)]) (rule that)
  have k1: "k \<noteq> - 1" using assms(5) by auto
  have r: "r = (32, upd_fd fd (\<lambda>d. d\<lparr>file_position := file_position d + 1\<rparr>) (s\<lparr>pmem := q\<rparr>))"
    using assms(5) k1 q(1)
    by (simp add: r_def dir_read_def assms(4) read_dentry_by_index_def Let_def m_def c_def not_le [symmetric])
  then show "fst r = 32" "file_position (fdt (cur_pcb (snd r)) fd) = k + 1" "runs_program (snd r) p"
    "fs_start (snd r) = fs_start s" using assms(1,4) by simp_all
  show "vmem (snd r) a = vmem s a" if "drop_bit 22 a = 1"
    using that q(2) [of a] user_range_at [OF assms(3), of a] by (auto simp: r main_region_def)
  show "vmem (snd r) x = vmem s x" if "x \<in> main_region" "32 \<le> unat (x - buf)" using q(2) that by (simp add: r)
  show "\<exists>q. snd r = upd_fd fd (\<lambda>d. d\<lparr>file_position := file_position d + 1\<rparr>) (s\<lparr>pmem := q\<rparr>) \<and> own_frame p s q"
    using r q(3) by (intro exI [of _ q]) simp
  have b: "buf + of_nat i \<in> main_region" if "i < 32" for i
    using assms(3) that by (simp add: user_range_def main_region_def)
  have b0: "drop_bit 22 buf = 32" using user_range_at [OF assms(3), of buf] by simp
  have "bytes_at (vmem (snd r)) buf 32 = bytes_at c buf 32"
    using b q(2) by (intro bytes_at_same) (simp add: r unat_of_nat32)
  moreover have ap: "NAME_LENGTH \<le> buf - LOCAL_DENTRY"
    using user_apart [of buf LOCAL_DENTRY] b0 by (simp add: word_le_nat_alt)
  ultimately show "bytes_at (vmem (snd r)) buf 32 = dentry_name (vmem s) ?d @ replicate (32 - length (dentry_name (vmem s) ?d)) 0"
    using strncpy_bytes [OF ap, of m] nm by (simp add: c_def dentry_name_def)
  have "dentry_name (vmem (snd r)) buf = dentry_name c buf"
    using \<open>bytes_at (vmem (snd r)) buf 32 = bytes_at c buf 32\<close> by (simp add: dentry_name_def)
  moreover have "dentry_name c buf = dentry_name m LOCAL_DENTRY" unfolding c_def using ap by (rule strncpy_name)
  ultimately show "dentry_name (vmem (snd r)) buf = dentry_name (vmem s) ?d" using nm by simp
qed

text \<open>The loop of a program that lists the directory: read names until 0 is returned.\<close>

fun list_dir :: "nat \<Rightarrow> int \<Rightarrow> addr \<Rightarrow> 'a kernel_scheme \<Rightarrow> u8 list list option" where
  "list_dir 0 fd buf s = None"
| "list_dir (Suc n) fd buf s =
     (let (r, t) = dir_read fd buf 32 s in
      if r = 0 then Some []
      else map_option ((#) (dentry_name (vmem t) buf)) (list_dir n fd buf t))"

lemma list_dir_names:
  fixes s :: "'a kernel_scheme"
  assumes "runs_program s p" "image_ok s" "user_range buf 32"
    and "unat (file_position (fdt (cur_pcb s) fd)) = k"
    and "unat (num_dentries (vmem s) (fs_start s)) = n" "k \<le> n"
  shows "list_dir (Suc (n - k)) fd buf s =
    Some (map (\<lambda>j. dentry_name (vmem s) (dentry_addr (fs_start s) (of_nat j))) [k..<n])"
  using assms
proof (induction "n - k" arbitrary: s k)
  case 0
  have "n \<le> 63" using 0(3,6) by (simp add: image_ok_def word_le_nat_alt)
  then have "file_position (fdt (cur_pcb s) fd) \<noteq> - 1" "\<not> file_position (fdt (cur_pcb s) fd) < num_dentries (vmem s) (fs_start s)"
    using 0 by (auto simp: word_less_nat_alt unsigned_minus_1_eq_mask mask_eq_exp_minus_1)
  then have "dir_read fd buf 32 s = (0, s)" by (simp add: dir_read_def Let_def not_less)
  then show ?case using 0 by simp
next
  case (Suc u)
  let ?k = "file_position (fdt (cur_pcb s) fd)"
  have kn: "k < n" and k: "?k = of_nat k" using Suc.hyps(2) Suc.prems(4) by auto
  have lt: "?k < num_dentries (vmem s) (fs_start s)" using kn Suc.prems(4,5) by (simp add: word_less_nat_alt)
  define t where "t = snd (dir_read fd buf 32 s)"
  note d = dir_read_step [OF Suc.prems(1-3) refl lt, where n = 32, folded t_def]
  note i = image_ok_same [OF Suc.prems(2) d(5,6)]
  have "unat (?k + 1) = Suc k" using Suc.prems(4) lt by unat_arith
  then have ih: "list_dir (Suc (n - Suc k)) fd buf t =
      Some (map (\<lambda>j. dentry_name (vmem t) (dentry_addr (fs_start t) (of_nat j))) [Suc k..<n])"
    using kn Suc.hyps(2) Suc.prems(5) d(3,4) i(1,2) Suc.prems(3) by (intro Suc.hyps(1)) simp_all
  have nm: "dentry_name (vmem t) (dentry_addr (fs_start t) (of_nat j)) = dentry_name (vmem s) (dentry_addr (fs_start s) (of_nat j))"
    if "j < n" for j
  proof (rule i(3))
    have "unat (of_nat j :: u32) = j" using that Suc.prems(5) unat_lt32 by (intro unat_of_nat32) (metis less_trans)
    then show "of_nat j < num_dentries (vmem s) (fs_start s)" using that Suc.prems(5) by (simp add: word_less_nat_alt)
  qed
  have "dir_read fd buf 32 s = (32, t)" using d(1) by (simp add: t_def prod_eq_iff)
  moreover have "n - k = Suc (n - Suc k)" "[k..<n] = k # [Suc k..<n]" using kn by (simp_all add: upt_conv_Cons)
  ultimately show ?case using ih d(2) nm by (simp add: k)
qed

section \<open>An example state\<close>

text \<open>Process 1 runs with the image \<open>demo_fs\<close>; its descriptor 2 is the directory and 3 the file.\<close>

definition pcb1 :: pcb where
  "pcb1 = \<lparr>pid = 1, parent_pid = 0, current_esp = 0, parent_esp = 0, parent_ebp = 0,
     fdt = (\<lambda>_. \<lparr>jump_ptr = rtc_table, fd_inode = 0, file_position = 0, fd_flags = - 1\<rparr>)
       (0 := \<lparr>jump_ptr = stdin_table, fd_inode = 0, file_position = 0, fd_flags = 1\<rparr>,
        1 := \<lparr>jump_ptr = stdout_table, fd_inode = 0, file_position = 0, fd_flags = 1\<rparr>,
        2 := fresh_fd 1 0, 3 := fresh_fd 2 0),
     args = replicate 128 0, pcb_vidmem = 0, pcb_freq = 0\<rparr>"

definition kernel1 :: kernel where
  "kernel1 = rtc.extend (rtc0\<lparr>pmem := demo_fs, esp := 0x7FFF00\<rparr>)
     (kernel.fields 3 (\<lambda>i. if i < 3 then 1 else - 1) (\<lambda>_. pcb1) 0x400000)"

lemma kernel1_fields:
  "fs_start kernel1 = 0x400000" "cur_pcb kernel1 = pcb1" "pmem kernel1 = demo_fs" "esp kernel1 = 0x7FFF00"
  "process_num kernel1 = 3" "process_array kernel1 = (\<lambda>i. if i < 3 then 1 else - 1)"
  by (simp_all add: kernel1_def rtc.defs kernel.defs cur_pcb_def)

lemma kernel1_runs: "runs_program kernel1 1"
proof -
  have "paging_wf kb1" using kb1_inv(1) by (simp add: kb_inv_def sched_inv_def console_inv_def video_ok_def)
  then show ?thesis
    using kb1_inv(3)
    by (simp add: runs_program_def kernel1_def rtc.defs kernel.defs rtc0_def kb.defs paging_wf_def paging_on_def)
qed

lemma kernel1_view: "drop_bit 22 a = 1 \<Longrightarrow> vmem kernel1 a = demo_fs a"
  using main_translate(1) [OF kernel1_runs] by (simp add: vmem_def kload_def kernel1_fields)

lemma demo_in_kernel_page: "in_fs demo_fs 0x400000 a \<Longrightarrow> drop_bit 22 a = 1"
proof -
  define w where "w = a - 0x400000"
  assume "in_fs demo_fs 0x400000 a"
  then have "unat w < 2 ^ 22" by (simp add: in_fs_def demo_counts w_def)
  then have "take_bit 22 w = w" by (rule take_bit_below)
  then have "drop_bit 22 (0x400000 + w) = drop_bit 22 0x400000" by (intro page_offset) simp_all
  then show ?thesis by (simp add: w_def)
qed

lemma kernel1_image:
  "image_ok kernel1" "num_dentries (vmem kernel1) 0x400000 = 2" "file_ok (vmem kernel1) 0x400000 0"
  "file_size (vmem kernel1) 0x400000 0 = 40"
proof -
  have s: "vmem kernel1 a = demo_fs a" if "in_fs demo_fs 0x400000 a" for a
    using demo_in_kernel_page [OF that] by (rule kernel1_view)
  have l: "fs_len demo_fs 0x400000 < 2 ^ 32" by (simp add: demo_counts)
  note h = header_same [OF s l]
  note i = image_same [OF s demo_ok]
  show n: "num_dentries (vmem kernel1) 0x400000 = 2" "file_ok (vmem kernel1) 0x400000 0"
    "file_size (vmem kernel1) 0x400000 0 = 40" using h i by (simp_all add: demo_counts)
  have e: "load32 (vmem kernel1) (0x400000 + of_nat k) = load32 demo_fs (0x400000 + of_nat k)" if "k < 1000" for k
    using image_load [OF s l, of k] that by (simp add: demo_counts)
  have "load32 demo_fs 0x400060 = 2" "load32 demo_fs 0x4000A0 = 2" by (simp_all add: load32_def demo_fs_def)
  then have "load32 (vmem kernel1) 0x400060 = 2" "load32 (vmem kernel1) 0x4000A0 = 2"
    using e [of 96] e [of 160] by simp_all
  moreover have "j = 0 \<or> j = 1" if "j < 2" for j :: u32 using that by unat_arith
  ultimately have "types_ok (vmem kernel1) 0x400000" by (fastforce simp: types_ok_def n file_type_def dentry_addr_def)
  then show "image_ok kernel1"
    using demo_in_kernel_page h by (simp add: image_ok_def fs_placed_def kernel1_fields n demo_counts)
qed

lemma kernel1_name: "names_file kernel1 0x500000 [0x61]"
proof -
  have v: "vmem kernel1 0x500000 = 0x61" "vmem kernel1 0x500001 = 0"
    using kernel1_view [of "0x500000"] kernel1_view [of "0x500001"] by (simp_all add: demo_fs_def)
  have "i = 0 \<or> i = 1" if "i \<le> Suc 0" for i :: nat using that by auto
  then have "(0x500000 :: addr) + of_nat i \<in> main_region" if "i \<le> Suc 0" for i
    using that by (fastforce simp: main_region_def)
  then show ?thesis by (auto simp: names_file_def is_cstr_def bytes_at_def v)
qed

lemma demo_user_range: "n \<le> 4096 \<Longrightarrow> user_range 0x8048000 n"
  unfolding user_range_def
proof (intro conjI allI impI)
  fix i assume "n \<le> 4096" "i < n"
  then have "unat (of_nat i :: u32) < 2 ^ 12" by (simp add: unat_of_nat32)
  then have "take_bit 12 (of_nat i :: u32) = of_nat i" by (rule take_bit_below)
  then have "drop_bit 12 (0x8048000 + of_nat i :: u32) = drop_bit 12 0x8048000" by (intro page_offset) simp_all
  from dir_of_page [OF this] show "drop_bit 22 (0x8048000 + of_nat i :: u32) = 32" by simp
qed simp

section \<open>Properties\<close>

text \<open>C19: Reading a file piece by piece. Successive \<open>file_read\<close> calls of any sizes into consecutive
  program memory deliver exactly the file's content from the current position on: the counts add up
  to the requested total or to what the file still has, the bytes arrive in order across all the
  calls, and the position advances by their number.\<close>

theorem file_read_delivers_file:
  fixes s :: "'a kernel_scheme"
  assumes "reads_file s p fd inode" "\<forall>l \<in> set lens. 0 \<le> l"
    and "int (unat (file_position (fdt (cur_pcb s) fd))) + sum_list lens < 2 ^ 32"
  defines "k \<equiv> unat (file_position (fdt (cur_pcb s) fd))"
  defines "n \<equiv> min (nat (sum_list lens)) (length (file_bytes (vmem s) (fs_start s) inode) - k)"
  assumes "user_range buf n"
  defines "r \<equiv> read_chunks fd buf lens s"
  shows "fst r = int n \<and> unat (file_position (fdt (cur_pcb (snd r)) fd)) = k + n \<and>
    bytes_at (vmem (snd r)) buf n = take n (drop k (file_bytes (vmem s) (fs_start s) inode))"
proof -
  have n: "n = min (nat (sum_list lens)) (unat (file_size (vmem s) (fs_start s) inode) - k)"
    by (simp add: n_def file_bytes_def)
  note c = read_chunks_file [OF assms(1-3), folded k_def, folded n, OF assms(6), folded r_def]
  have "bytes_at (vmem (snd r)) buf n = take n (drop k (file_bytes (vmem s) (fs_start s) inode))"
  proof (intro nth_equalityI)
    show "length (bytes_at (vmem (snd r)) buf n) = length (take n (drop k (file_bytes (vmem s) (fs_start s) inode)))"
      by (simp add: n file_bytes_def)
    fix i assume "i < length (bytes_at (vmem (snd r)) buf n)"
    then have i: "i < n" by simp
    then have u: "unat (of_nat i :: u32) = i" using assms(6) by (intro unat_of_nat32) (simp add: user_range_def)
    have "buf + of_nat i \<in> main_region" using assms(6) i by (simp add: user_range_def main_region_def)
    then have "vmem (snd r) (buf + of_nat i) = file_byte (vmem s) (fs_start s) inode (k + i)"
      using c i u by (simp add: delivered_def)
    moreover have ki: "k + i < unat (file_size (vmem s) (fs_start s) inode)" using i n by linarith
    then have "drop k (file_bytes (vmem s) (fs_start s) inode) ! i = file_byte (vmem s) (fs_start s) inode (k + i)"
      by (subst nth_drop) (simp_all add: file_bytes_def)
    ultimately show "bytes_at (vmem (snd r)) buf n ! i = take n (drop k (file_bytes (vmem s) (fs_start s) inode)) ! i"
      using i by simp
  qed
  with c show ?thesis by simp
qed

theorem file_read_delivers_file_witness:
  "fst (read_chunks 3 0x8048000 [2, 100] kernel1) = 40"
proof -
  have "reads_file kernel1 1 3 0"
    by (simp add: reads_file_def kernel1_runs kernel1_image kernel1_fields pcb1_def fresh_fd_def)
      (use kernel1_image(1) in \<open>simp add: image_ok_def\<close>)
  moreover have "file_position (fdt (cur_pcb kernel1) 3) = 0" by (simp add: kernel1_fields pcb1_def fresh_fd_def)
  moreover have "length (file_bytes (vmem kernel1) (fs_start kernel1) 0) = 40"
    by (simp add: file_bytes_def kernel1_fields kernel1_image)
  ultimately show ?thesis
    using file_read_delivers_file [of kernel1 1 3 0 "[2, 100]" "0x8048000"] demo_user_range [of 40] by simp
qed


lemma kernel1_lookup: "lookup_name (vmem kernel1) 0x400000 [0x61] = Some 0"
proof -
  have "bytes_at (vmem kernel1) (0x400040) 32 = bytes_at demo_fs 0x400040 32"
  proof (rule bytes_at_same, rule kernel1_view)
    fix i :: nat assume "i < 32"
    then have "in_fs demo_fs 0x400000 (0x400000 + of_nat (64 + i))"
      by (subst in_fs_offset) (simp_all add: demo_counts)
    then show "drop_bit 22 ((0x400040 :: addr) + of_nat i) = 1" using demo_in_kernel_page by simp
  qed
  moreover have "is_cstr demo_fs 0x400040 [0x61]" by (simp add: is_cstr_def bytes_at_def demo_fs_def)
  from cstr_bytes_of_cstr [OF this, of 32] have "cstr (bytes_at demo_fs 0x400040 32) = [0x61]" by simp
  ultimately show ?thesis
    by (simp add: lookup_name_def kernel1_image dentry_name_def dentry_addr_def two_entries)
qed


text \<open>Listing the directory. A program that reads a freshly opened directory descriptor until 0 is
  returned gets the name of every directory entry, once and in order, after one read per entry and a
  last one.\<close>

theorem dir_read_lists_directory:
  assumes "runs_program s p" "image_ok s" "user_range buf 32" "file_position (fdt (cur_pcb s) fd) = 0"
  defines "n \<equiv> unat (num_dentries (vmem s) (fs_start s))"
  shows "list_dir (Suc n) fd buf s =
    Some (map (\<lambda>j. dentry_name (vmem s) (dentry_addr (fs_start s) (of_nat j))) [0..<n])"
  using list_dir_names [OF assms(1-3), of fd 0 n] assms(4) by (simp add: n_def)

theorem dir_read_lists_directory_witness:
  "list_dir (Suc 2) 2 0x8048000 kernel1 =
     Some [dentry_name (vmem kernel1) (dentry_addr 0x400000 0), dentry_name (vmem kernel1) (dentry_addr 0x400000 1)]"
  using dir_read_lists_directory [OF kernel1_runs kernel1_image(1) demo_user_range, of 2]
  by (simp add: kernel1_fields kernel1_image pcb1_def fresh_fd_def numeral_3_eq_3 two_entries)




text \<open>\<open>open\<close> compares only as many characters as it was given: every nonempty prefix of \<open>stdin\<close>
  opens the keyboard as descriptor 0, whatever file of that name the directory has.\<close>

theorem open_takes_stdin_prefixes:
  assumes "runs_program s p" "names_file s filename name" "name \<noteq> []" "name = take (length name) stdin_name"
  shows "fst (sys_open filename s) = 0"
  using sys_open_cases(2) [OF assms(1,2)] assms(3,4) by simp

theorem open_takes_stdin_prefixes_witness:
  "fst (sys_open 0x500000 (kernel1\<lparr>pmem := demo_fs(0x500000 := 0x73)\<rparr>)) = 0"
proof -
  let ?s = "kernel1\<lparr>pmem := demo_fs(0x500000 := 0x73)\<rparr>"
  have r: "runs_program ?s 1" using kernel1_runs by simp
  have v: "vmem ?s 0x500000 = 0x73" "vmem ?s 0x500001 = 0"
    using main_translate(1) [OF r, of "0x500000"] main_translate(1) [OF r, of "0x500001"]
    by (simp_all add: vmem_def kload_def demo_fs_def)
  have "names_file ?s 0x500000 [0x73]"
    using kernel1_name by (auto simp: names_file_def is_cstr_def bytes_at_def v)
  then show ?thesis using open_takes_stdin_prefixes [OF r] by (simp add: stdin_name_def)
qed

text \<open>Errors of the descriptor calls. A descriptor outside 0 to 7, a free descriptor, and for
  \<open>close\<close> also 0 and 1, give -1 and change nothing but the interrupt flag, which \<open>read\<close> and \<open>write\<close>
  leave set.\<close>

theorem bad_descriptor_refused:
  assumes "fd < 0 \<or> 7 < fd \<or> fd_flags (fdt (cur_pcb s) fd) = - 1"
  shows "sys_read fd buf n keys irqs s = Some (- 1, s\<lparr>iflag := True\<rparr>) \<and>
    sys_write fd buf n s = (- 1, s\<lparr>iflag := True\<rparr>) \<and> sys_close fd s = (- 1, s) \<and>
    sys_close 0 s = (- 1, s) \<and> sys_close 1 s = (- 1, s)"
proof -
  have "cur_pcb (s\<lparr>iflag := False\<rparr>) = cur_pcb s" by (simp add: cur_pcb_def get_pcb_add_def)
  then show ?thesis
    using assms by (auto simp: sys_read_def sys_write_def sys_close_def Let_def cli_def sti_def)
qed

theorem bad_descriptor_refused_witness:
  "fst (sys_write 5 0x8048000 4 kernel1) = - 1 \<and> fst (sys_write 8 0x8048000 4 kernel1) = - 1"
  using bad_descriptor_refused [of 5 kernel1] bad_descriptor_refused [of 8 kernel1]
  by (simp add: kernel1_fields pcb1_def fresh_fd_def)

end
