(* ===== verification/Process.thy ===== *)
theory Process
  imports Files
begin

text \<open>
  Processes: the system calls \<open>execute\<close>, \<open>halt\<close>, \<open>getargs\<close>, \<open>vidmap\<close>, \<open>set_handler\<close> and
  \<open>sigreturn\<close> and the start of the three shells, all of \<open>student-distrib/syscalls.c\<close>, and the
  dispatch of \<open>linkage.S\<close>.
\<close>

section \<open>Operations\<close>

text \<open>How a call ends: it returns a value to its caller, control enters user mode at an address, or
  it is still waiting.\<close>

datatype 's outcome = Returns int 's | Enters u32 's | Waits

primrec enter :: "'s control \<Rightarrow> 's outcome" where
  "enter (Return s) = Returns 0 s"
| "enter (User_mode a s) = Enters a s"

abbreviation (input) KERNEL_DS :: u16 where "KERNEL_DS \<equiv> 0x18"
abbreviation (input) SHELL_NUM :: int where "SHELL_NUM \<equiv> 3"
abbreviation (input) PROG_START :: addr where "PROG_START \<equiv> 0x8048000"
abbreviation (input) MAX_PROG_SIZE :: u32 where "MAX_PROG_SIZE \<equiv> 0x3B8000"
abbreviation (input) LOCAL_NAME :: addr where "LOCAL_NAME \<equiv> 0x1200"
abbreviation (input) LOCAL_ELF :: addr where "LOCAL_ELF \<equiv> 0x1300"
abbreviation (input) LOCAL_ARGS :: addr where "LOCAL_ARGS \<equiv> 0x1400"
abbreviation (input) LOCAL_PCB_ARGS :: addr where "LOCAL_PCB_ARGS \<equiv> 0x1500"
abbreviation (input) OWN_ARGS :: addr where "OWN_ARGS \<equiv> 0x1600"

text \<open>The locals \<open>ELF_buf\<close> and \<open>pcb\<close> of \<open>execute\<close> and \<open>launch\<close> are not initialised; their contents
  before the first assignment are an argument of the two functions.\<close>

record locals =
  ELF_buf0 :: "u8 list"
  pcb0 :: pcb

definition pcb_addr :: "int \<Rightarrow> addr" where
  "pcb_addr p = EIGHT_MB - word_of_int p * EIGHT_KB"

definition is_elf :: "mem \<Rightarrow> bool" where
  "is_elf m \<longleftrightarrow>
     m LOCAL_ELF = 0x7F \<and> m (LOCAL_ELF + 1) = 0x45 \<and> m (LOCAL_ELF + 2) = 0x4C \<and> m (LOCAL_ELF + 3) = 0x46"

text \<open>The directory entry of the executable and its first 32 bytes: \<open>Inl\<close> the failure, \<open>Inr\<close> the
  view with both locals.\<close>

definition read_header :: "addr \<Rightarrow> locals \<Rightarrow> addr \<Rightarrow> mem \<Rightarrow> (unit + mem) option" where
  "read_header fs l filename m =
     (case read_dentry_by_name m fs filename LOCAL_DENTRY of
        None \<Rightarrow> None
      | Some (r, m) \<Rightarrow>
          if r = - 1 then Some (Inl ())
          else
            let m = put_bytes LOCAL_ELF (ELF_buf0 l) m;
                (sz, m) = read_data m fs (inode_num m LOCAL_DENTRY) 0 LOCAL_ELF NAME_LENGTH
            in if sz = - 1 \<or> \<not> is_elf m then Some (Inl ()) else Some (Inr m))"

text \<open>\<open>close(i)\<close> for all descriptors.\<close>

definition close_all :: "'a kernel_scheme \<Rightarrow> 'a kernel_scheme" where
  "close_all s = fold (\<lambda>i s. snd (sys_close i s)) [0..MAX_FD_NUM] s"

text \<open>\<open>leave; ret\<close> with the parent's frame pointer.\<close>

definition leave_to :: "u32 \<Rightarrow> 'a paging_scheme \<Rightarrow> 'a paging_scheme" where
  "leave_to frame s = s\<lparr>ebp := load32 (vmem s) frame, esp := frame + 8\<rparr>"

definition halt :: "u8 \<Rightarrow> 'a kernel_scheme \<Rightarrow> 'a kernel_scheme outcome" where
  "halt status s =
     (if pid (cur_pcb s) \<in> {1, 2, 3} then enter (context_switch (program_addr_test s) s)
      else
        let s = close_all s;
            s = s\<lparr>process_num := process_num s - 1\<rparr>;
            p = cur_pcb s;
            s = s\<lparr>process_array := (process_array s)(pid p - 1 := - 1)\<rparr>;
            s = s\<lparr>tss_esp0 := parent_esp p\<rparr>;
            s = upd_sched (cur_sched_term s) (\<lambda>n. n\<lparr>sn_process_num := parent_pid p,
                  sn_esp := parent_esp p, sn_ebp := parent_ebp p\<rparr>) s;
            s = set_page_dir_entry USER_PROG (prog_frame (parent_pid p)) s;
            s = (if pcb_vidmem p \<noteq> 0 then upd_sched (cur_sched_term s) (\<lambda>n. n\<lparr>sn_vid_map := 0\<rparr>) s else s)
        in Returns (uint status) (leave_to (parent_ebp p) s))"

text \<open>The descriptor table of a new process, over the contents of the local.\<close>

definition init_fdt :: "file_desc carray \<Rightarrow> file_desc carray" where
  "init_fdt t =
     fold (\<lambda>i t. t(i := (t i)\<lparr>fd_flags := - 1\<rparr>)) [2..MAX_FD_NUM]
       (t(0 := (t 0)\<lparr>jump_ptr := stdin_table, fd_flags := 1\<rparr>,
          1 := (t 1)\<lparr>jump_ptr := stdout_table, fd_flags := 1\<rparr>))"

text \<open>The loop that marks the slots as free.\<close>

definition free_slots :: "'a kernel_scheme \<Rightarrow> 'a kernel_scheme" where
  "free_slots s = s\<lparr>process_array := for_fill 6 (\<lambda>_. - 1) (process_array s)\<rparr>"

text \<open>One shell: its page is mapped and the program copied; \<open>None\<close> when the copy fails.\<close>

definition load_shell :: "u32 \<Rightarrow> int \<Rightarrow> 'a kernel_scheme \<Rightarrow> bool \<times> 'a kernel_scheme" where
  "load_shell inode i s =
     (let s = set_page_dir_entry USER_PROG (EIGHT_MB + word_of_int i * FOUR_MB) s;
          (sz, s) = vread_data inode 0 PROG_START MAX_PROG_SIZE s
      in if sz = - 1 then (False, s)
         else (True, s\<lparr>process_array := (process_array s)(i := 1)\<rparr>))"

fun load_shells :: "u32 \<Rightarrow> int list \<Rightarrow> 'a kernel_scheme \<Rightarrow> bool \<times> 'a kernel_scheme" where
  "load_shells inode [] s = (True, s)"
| "load_shells inode (i # is) s =
     (let (ok, s) = load_shell inode i s in if ok then load_shells inode is s else (False, s))"

definition shell_name :: "u8 list" where
  "shell_name = [0x73, 0x68, 0x65, 0x6C, 0x6C]"

definition launch :: "locals \<Rightarrow> 'a kernel_scheme \<Rightarrow> 'a kernel_scheme outcome" where
  "launch l s =
     (let s = cli s; s = free_slots s in
      case read_header (fs_start s) l LOCAL_NAME (put_bytes LOCAL_NAME (shell_name @ [0]) (vmem s)) of
        None \<Rightarrow> Waits
      | Some (Inl _) \<Rightarrow> Returns (- 1) (sti s)
      | Some (Inr m) \<Rightarrow>
          let (ok, s) = load_shells (inode_num m LOCAL_DENTRY) [2, 1, 0] s in
          if \<not> ok then Returns (- 1) s
          else
            let p = (pcb0 l)\<lparr>parent_pid := 0, fdt := init_fdt (fdt (pcb0 l)), pcb_vidmem := 0,
                      args := replicate 128 0\<rparr>;
                s = s\<lparr>process_num := SHELL_NUM\<rparr>;
                s = fold (\<lambda>i s. s\<lparr>pcbs := (pcbs s)(pcb_addr (i + 1) := p\<lparr>pid := i + 1\<rparr>)\<rparr>) [0..SHELL_NUM - 1] s;
                s = s\<lparr>tss_esp0 := EIGHT_MB, tss_ss0 := KERNEL_DS\<rparr>;
                program_addr = load32 m (LOCAL_ELF + 24);
                s = s\<lparr>program_addr_test := program_addr\<rparr>;
                s = s\<lparr>prev_sched_term := 0\<rparr>
            in enter (context_switch program_addr s))"

text \<open>The three loops of \<open>execute\<close> over the command; \<open>None\<close> when they run into an unmapped page.\<close>

function command_name :: "addr \<Rightarrow> nat \<Rightarrow> 'a paging_scheme \<Rightarrow> u8 list option" where
  "command_name command i s =
     (case kload (command + of_nat i) s of
        None \<Rightarrow> None
      | Some c \<Rightarrow>
          if c \<noteq> 0 \<and> c \<noteq> 0x20 \<and> i < 32 then map_option ((#) c) (command_name command (Suc i) s)
          else Some [])"
  by pat_completeness auto
termination
  by (relation "measure (\<lambda>(command, i, s). 32 - i)") auto

partial_function (option) skip_spaces :: "addr \<Rightarrow> 'a paging_scheme \<Rightarrow> addr option" where
  "skip_spaces a s =
     (case kload a s of
        None \<Rightarrow> None
      | Some c \<Rightarrow> if c = 0x20 then skip_spaces (a + 1) s else Some a)"

function command_args :: "addr \<Rightarrow> nat \<Rightarrow> 'a paging_scheme \<Rightarrow> u8 list option" where
  "command_args a j s =
     (if j < 128
      then case kload (a + of_nat j) s of
             None \<Rightarrow> None
           | Some c \<Rightarrow> if c \<noteq> 0 then map_option ((#) c) (command_args a (Suc j) s) else Some []
      else Some [])"
  by pat_completeness auto
termination
  by (relation "measure (\<lambda>(a, j, s). 128 - j)") auto

declare command_name.simps [simp del] command_args.simps [simp del]

text \<open>The local array \<open>args\<close> and its copy into the control block.\<close>

definition args_of :: "u8 list \<Rightarrow> mem \<Rightarrow> u8 list" where
  "args_of xs m =
     (let m = m(LOCAL_ARGS := 0);
          m = put_bytes LOCAL_ARGS xs m;
          m = (if length xs < 128 then m(LOCAL_ARGS + of_nat (length xs) := 0) else m);
          m = m(LOCAL_ARGS + 127 := 0)
      in bytes_at (strncpy m LOCAL_PCB_ARGS LOCAL_ARGS 128) LOCAL_PCB_ARGS 128)"

definition free_slot :: "'a kernel_scheme \<Rightarrow> int option" where
  "free_slot s = find (\<lambda>i. process_array s i = - 1) [0..MAX_PROGS - 1]"

text \<open>\<open>execute\<close> from the search for a slot on, with the parsed arguments and the view with the locals.\<close>

definition start_program :: "locals \<Rightarrow> u8 list \<Rightarrow> mem \<Rightarrow> 'a kernel_scheme \<Rightarrow> 'a kernel_scheme outcome" where
  "start_program l as m s =
     (let (p, s) =
        (case free_slot s of
           None \<Rightarrow> (pid (pcb0 l), s)
         | Some i \<Rightarrow> (i + 1, s\<lparr>process_array := (process_array s)(i := 1)\<rparr>));
        s = set_page_dir_entry USER_PROG (prog_frame p) s;
        (sz, s) = vread_data (inode_num m LOCAL_DENTRY) 0 PROG_START MAX_PROG_SIZE s
      in if sz = - 1 then Returns (- 1) s
         else
           let parent = sn_process_num (sched_arr s (cur_sched_term s));
               b = (pcb0 l)\<lparr>pid := p, parent_pid := parent, fdt := init_fdt (fdt (pcb0 l)), pcb_vidmem := 0,
                     args := as, parent_esp := kernel_stack_top parent, parent_ebp := ebp s\<rparr>;
               s = s\<lparr>process_num := process_num s + 1\<rparr>;
               s = upd_sched (cur_sched_term s) (\<lambda>n. n\<lparr>sn_process_num := p\<rparr>) s;
               s = s\<lparr>pcbs := (pcbs s)(pcb_addr p := b)\<rparr>;
               s = s\<lparr>tss_esp0 := kernel_stack_top p, tss_ss0 := KERNEL_DS\<rparr>
           in enter (context_switch (load32 m (LOCAL_ELF + 24)) s))"

definition execute :: "locals \<Rightarrow> addr \<Rightarrow> 'a kernel_scheme \<Rightarrow> 'a kernel_scheme outcome" where
  "execute l command s =
     (if process_num s \<ge> MAX_PROGS then Returns (- 1) s
      else
        let s = (if process_num s = 0 then free_slots s else s);
            s = cli s
        in case command_name command 0 s of
             None \<Rightarrow> Returns (- 1) (raise_fault s)
           | Some name \<Rightarrow>
               (case read_header (fs_start s) l LOCAL_NAME (put_bytes LOCAL_NAME (name @ [0]) (vmem s)) of
                  None \<Rightarrow> Waits
                | Some (Inl _) \<Rightarrow> Returns (- 1) (sti s)
                | Some (Inr m) \<Rightarrow>
                    (case skip_spaces (command + of_nat (length name)) s of
                       None \<Rightarrow> Returns (- 1) (raise_fault s)
                     | Some a \<Rightarrow>
                         (case command_args a 0 s of
                            None \<Rightarrow> Returns (- 1) (raise_fault s)
                          | Some xs \<Rightarrow> start_program l (args_of xs m) m s))))"

definition getargs :: "addr \<Rightarrow> int \<Rightarrow> 'a kernel_scheme \<Rightarrow> int \<times> 'a kernel_scheme" where
  "getargs buf nbytes s =
     (let as = args (cur_pcb s) in
      if of_nat (length (cstr as)) + 1 > (word_of_int nbytes :: u32) \<or> buf = 0 \<or> as ! 0 = 0 \<or>
         buf < USER_PROG \<or> buf \<ge> USER_PROG + FOUR_MB
      then (- 1, s)
      else
        let m = strncpy (put_bytes OWN_ARGS as (vmem s)) buf OWN_ARGS (word_of_int nbytes)
        in (0, store_range buf (unat (word_of_int nbytes :: u32)) m s))"

definition vidmap :: "addr \<Rightarrow> 'a kernel_scheme \<Rightarrow> int \<times> 'a kernel_scheme" where
  "vidmap screen_start s =
     (if screen_start = 0 \<or> screen_start < USER_PROG \<or> screen_start \<ge> USER_PROG + FOUR_MB then (- 1, s)
      else
        let s = upd_pcb (\<lambda>p. p\<lparr>pcb_vidmem := 1\<rparr>) s;
            s = upd_sched (cur_sched_term s) (\<lambda>n. n\<lparr>sn_vid_map := 1\<rparr>) s;
            s = set_page_table2_entry USER_VIDEO_MEM VIDEO_MEM_ADDR s
        in (0, store_range screen_start 4 (store32 screen_start USER_VIDEO_MEM (vmem s)) s))"

definition set_handler :: "'a kernel_scheme \<Rightarrow> int \<times> 'a kernel_scheme" where
  "set_handler s = (- 1, s)"

definition sigreturn :: "'a kernel_scheme \<Rightarrow> int \<times> 'a kernel_scheme" where
  "sigreturn s = (- 1, s)"

text \<open>\<open>system_call_handler\<close> of \<open>linkage.S\<close>: \<open>eax\<close> selects the call, \<open>ebx\<close>, \<open>ecx\<close> and \<open>edx\<close> are its
  arguments. The parameters \<open>l\<close>, \<open>keys\<close> and \<open>irqs\<close> are those of \<open>execute\<close> and \<open>read\<close>.\<close>

definition ret :: "int \<times> 's \<Rightarrow> 's outcome" where
  "ret r = Returns (fst r) (snd r)"

definition system_call_handler ::
    "u32 \<Rightarrow> u32 \<Rightarrow> u32 \<Rightarrow> u32 \<Rightarrow> locals \<Rightarrow> u8 list \<Rightarrow> nat \<Rightarrow> 'a kernel_scheme \<Rightarrow> 'a kernel_scheme outcome" where
  "system_call_handler eax ebx ecx edx l keys irqs s =
     (let s = sti s; n = eax - 1 in
      if n > 9 then Returns (- 1) s
      else if n = 0 then halt (ucast ebx) s
      else if n = 1 then execute l ebx s
      else if n = 2 then (case sys_read (sint ebx) ecx (sint edx) keys irqs s of
                            None \<Rightarrow> Waits | Some r \<Rightarrow> ret r)
      else if n = 3 then ret (sys_write (sint ebx) ecx (sint edx) s)
      else if n = 4 then ret (sys_open ebx s)
      else if n = 5 then ret (sys_close (sint ebx) s)
      else if n = 6 then ret (getargs ebx (sint ecx) s)
      else if n = 7 then ret (vidmap ebx s)
      else if n = 8 then ret (set_handler s)
      else ret (sigreturn s))"

section \<open>Stacks and control blocks\<close>

lemma pcb_addr_kernel_stack:
  assumes "1 \<le> p" "p \<le> 6" "0 < d" "d \<le> EIGHT_KB"
  shows "(kernel_stack_top p - d) AND (EIGHT_MB - EIGHT_KB) = pcb_addr p"
proof -
  define k where "k = EIGHT_KB - d"
  have k: "take_bit 13 k = k"
  proof (rule take_bit_below)
    have "unat k = 0x2000 - unat d" using assms(4) by (simp add: k_def unat_sub)
    then show "unat k < 2 ^ 13" using assms(3) by (simp add: word_less_nat_alt)
  qed
  have e: "kernel_stack_top p - d = pcb_addr p + k"
    by (simp add: kernel_stack_top_def pcb_addr_def k_def algebra_simps)
  have z: "take_bit 13 (pcb_addr p) = 0" "pcb_addr p AND 0x7FE000 = pcb_addr p"
    using assms(1,2) by (elim pid_cases; simp add: pcb_addr_def)+
  have "k AND 0x7FE000 = take_bit 13 k AND 0x7FE000" by (simp add: k)
  also have "\<dots> = k AND (mask 13 AND 0x7FE000)" by (simp add: take_bit_eq_mask and.assoc)
  also have "(mask 13 AND 0x7FE000 :: u32) = 0" by (simp add: mask_eq_exp_minus_1)
  finally have kz: "k AND 0x7FE000 = 0" by simp
  have "pcb_addr p + k = pcb_addr p OR k" by (rule page_offset [OF z(1) k])
  then show ?thesis by (simp add: e bit.conj_disj_distrib2 z kz)
qed

lemma pcb_addr_inj:
  "1 \<le> p \<Longrightarrow> p \<le> 6 \<Longrightarrow> 1 \<le> q \<Longrightarrow> q \<le> 6 \<Longrightarrow> pcb_addr p = pcb_addr q \<longleftrightarrow> p = q"
  by (elim pid_cases) (simp_all add: pcb_addr_def)

section \<open>Loading a program\<close>

lemma fst_read_data:
  assumes "inode < num_inodes m fs"
  shows "fst (read_data m fs inode 0 buf len) = (if len > file_size m fs inode then file_size m fs inode else len)"
  using assms by (auto simp: read_data_def Let_def file_size_def fst_read_loop not_le [symmetric])

lemma prog_range: "n \<le> 0x3B8000 \<Longrightarrow> user_range PROG_START n"
  unfolding user_range_def
proof (intro conjI allI impI)
  fix i assume "n \<le> 0x3B8000" "i < n"
  then have "unat (of_nat (0x48000 + i) :: u32) < 2 ^ 22" by (subst unat_of_nat32) simp_all
  then have "take_bit 22 (of_nat (0x48000 + i) :: u32) = of_nat (0x48000 + i)" by (rule take_bit_below)
  then have "drop_bit 22 (0x8000000 + of_nat (0x48000 + i) :: u32) = drop_bit 22 0x8000000"
    by (intro page_offset(2)) simp_all
  moreover have "(0x8000000 + of_nat (0x48000 + i) :: u32) = PROG_START + of_nat i" by simp
  moreover have "drop_bit 22 (0x8000000 :: u32) = 32" by simp
  ultimately show "drop_bit 22 (PROG_START + of_nat i) = 32" by (simp only:)
qed simp

lemma kernel_view:
  assumes "paging_wf s" "drop_bit 22 a = 1"
  shows "vmem s a = pmem s a"
  using translate_kernel [OF assms, of False] by (simp add: vmem_def kload_def)

lemma map_program:
  fixes s :: "'a kernel_scheme"
  assumes "paging_wf s" "1 \<le> p" "p \<le> 6"
  shows "runs_program (set_page_dir_entry USER_PROG (prog_frame p) s) p"
    "drop_bit 22 a = 1 \<Longrightarrow> vmem (set_page_dir_entry USER_PROG (prog_frame p) s) a = vmem s a"
proof -
  note wf = wf_set_page_dir [OF assms(1), of "prog_frame p"]
  show r: "runs_program (set_page_dir_entry USER_PROG (prog_frame p) s) p"
    using assms(2,3) wf by (simp add: runs_program_def)
  show "vmem (set_page_dir_entry USER_PROG (prog_frame p) s) a = vmem s a" if "drop_bit 22 a = 1"
    using kernel_view [OF wf that] kernel_view [OF assms(1) that] by (simp add: set_page_dir_entry_def)
qed

lemma vread_program:
  fixes s :: "'a kernel_scheme"
  assumes "runs_program s p" "inode < num_inodes (vmem s) (fs_start s)"
  obtains q where "vread_data inode 0 PROG_START MAX_PROG_SIZE s =
      (if MAX_PROG_SIZE > file_size (vmem s) (fs_start s) inode then file_size (vmem s) (fs_start s) inode
       else MAX_PROG_SIZE, s\<lparr>pmem := q\<rparr>)"
    "\<And>a. drop_bit 22 a = 1 \<Longrightarrow> vmem (s\<lparr>pmem := q\<rparr>) a = vmem s a"
proof -
  define n where "n = (if MAX_PROG_SIZE > file_size (vmem s) (fs_start s) inode
    then file_size (vmem s) (fs_start s) inode else MAX_PROG_SIZE)"
  define m where "m = snd (read_data (vmem s) (fs_start s) inode 0 PROG_START MAX_PROG_SIZE)"
  have r: "read_data (vmem s) (fs_start s) inode 0 PROG_START MAX_PROG_SIZE = (n, m)"
    using fst_read_data [OF assms(2), of PROG_START MAX_PROG_SIZE] by (simp add: n_def m_def prod_eq_iff)
  have "unat n \<le> 0x3B8000" by (auto simp: n_def word_less_nat_alt)
  then have u: "user_range PROG_START (unat n)" by (rule prog_range)
  obtain q where q: "store_range PROG_START (unat n) m s = s\<lparr>pmem := q\<rparr>"
    "\<And>x. x \<in> main_region \<Longrightarrow> vmem (s\<lparr>pmem := q\<rparr>) x = (if unat (x - PROG_START) < unat n then m x else vmem s x)"
    by (rule store_user [OF assms(1) u]) (rule that)
  show thesis
  proof (rule that [of q])
    show "vread_data inode 0 PROG_START MAX_PROG_SIZE s =
      (if MAX_PROG_SIZE > file_size (vmem s) (fs_start s) inode then file_size (vmem s) (fs_start s) inode
       else MAX_PROG_SIZE, s\<lparr>pmem := q\<rparr>)"
      unfolding vread_data_def r n_def [symmetric] using assms(2) q(1) by (simp add: not_le [symmetric])
    fix a :: addr assume "drop_bit 22 a = 1"
    then show "vmem (s\<lparr>pmem := q\<rparr>) a = vmem s a"
      using q(2) [of a] user_range_at [OF u, of a] by (auto simp: main_region_def)
  qed
qed

text \<open>The state in which a started program enters user mode.\<close>

definition started :: "locals \<Rightarrow> u8 list \<Rightarrow> int \<Rightarrow> mem \<Rightarrow> 'a kernel_scheme \<Rightarrow> 'a kernel_scheme" where
  "started l as p q s =
     (let c = cur_sched_term s; parent = sn_process_num (sched_arr s c) in
      s\<lparr>pmem := q, iflag := True, esp := USER_ESP,
        page_directory := (page_directory s)(32 := prog_frame p OR 0x087),
        sched_arr := (sched_arr s)(c := (sched_arr s c)\<lparr>sn_process_num := p\<rparr>),
        tss_esp0 := kernel_stack_top p, tss_ss0 := KERNEL_DS,
        process_num := process_num s + 1, process_array := (process_array s)(p - 1 := 1),
        pcbs := (pcbs s)(pcb_addr p := (pcb0 l)\<lparr>pid := p, parent_pid := parent,
          parent_esp := kernel_stack_top parent, parent_ebp := ebp s, fdt := init_fdt (fdt (pcb0 l)),
          args := as, pcb_vidmem := 0\<rparr>)\<rparr>)"

text \<open>The state in which the program is loaded: slot taken, page mapped.\<close>

definition mapped_for :: "int \<Rightarrow> 'a kernel_scheme \<Rightarrow> 'a kernel_scheme" where
  "mapped_for p s = set_page_dir_entry USER_PROG (prog_frame p) (s\<lparr>process_array := (process_array s)(p - 1 := 1)\<rparr>)"

lemma array_frame [simp]:
  "paging_wf (s\<lparr>process_array := f\<rparr>) = paging_wf s" "vmem (s\<lparr>process_array := f\<rparr>) = vmem s"
  by (simp_all add: runs_program_def paging_wf_def paging_on_def fun_eq_iff vmem_def kload_def translate_def
      table_at_def Let_def)

lemma start_program_step:
  fixes s :: "'a kernel_scheme"
  assumes "paging_wf s" "free_slot s = Some (p - 1)" "1 \<le> p" "p \<le> 6"
    and "inode_num m LOCAL_DENTRY < num_inodes (vmem (mapped_for p s)) (fs_start s)"
  defines "r \<equiv> vread_data (inode_num m LOCAL_DENTRY) 0 PROG_START MAX_PROG_SIZE (mapped_for p s)"
  shows "start_program l as m s = Enters (load32 m (LOCAL_ELF + 24)) (started l as p (pmem (snd r)) s)"
proof -
  have t: "runs_program (mapped_for p s) p"
    unfolding mapped_for_def by (rule map_program [OF _ assms(3,4)]) (simp add: assms(1))
  have fs: "fs_start (mapped_for p s) = fs_start s" by (simp add: mapped_for_def set_page_dir_entry_def)
  obtain q where q: "r = (if MAX_PROG_SIZE > file_size (vmem (mapped_for p s)) (fs_start s) (inode_num m LOCAL_DENTRY)
      then file_size (vmem (mapped_for p s)) (fs_start s) (inode_num m LOCAL_DENTRY) else MAX_PROG_SIZE, (mapped_for p s)\<lparr>pmem := q\<rparr>)"
    unfolding r_def using vread_program [OF t] assms(5) unfolding fs by metis
  have nz: "fst r \<noteq> - 1"
  proof -
    have "unat (fst r) \<le> 0x3B8000" by (auto simp: q word_less_nat_alt)
    then show ?thesis by (auto simp: unsigned_minus_1_eq_mask mask_eq_exp_minus_1)
  qed
  obtain z where z: "r = (z, (mapped_for p s)\<lparr>pmem := q\<rparr>)" "z \<noteq> - 1" using nz q by (metis fst_conv)
  have "start_program l as m s = (let (sz, s) = r in if sz = - 1 then Returns (- 1) s
      else let parent = sn_process_num (sched_arr s (cur_sched_term s));
               b = (pcb0 l)\<lparr>pid := p, parent_pid := parent, fdt := init_fdt (fdt (pcb0 l)), pcb_vidmem := 0,
                     args := as, parent_esp := kernel_stack_top parent, parent_ebp := ebp s\<rparr>;
               s = s\<lparr>process_num := process_num s + 1\<rparr>;
               s = upd_sched (cur_sched_term s) (\<lambda>n. n\<lparr>sn_process_num := p\<rparr>) s;
               s = s\<lparr>pcbs := (pcbs s)(pcb_addr p := b)\<rparr>;
               s = s\<lparr>tss_esp0 := kernel_stack_top p, tss_ss0 := KERNEL_DS\<rparr>
           in enter (context_switch (load32 m (LOCAL_ELF + 24)) s))"
    unfolding start_program_def assms(2) r_def mapped_for_def by (simp add: Let_def)
  also have "\<dots> = Enters (load32 m (LOCAL_ELF + 24)) (started l as p (pmem (snd r)) s)"
    using z(2) unfolding z(1)
    by (simp add: Let_def context_switch_def upd_sched_def)
      (auto simp: started_def Let_def mapped_for_def set_page_dir_entry_def intro!: kernel.equality)
  finally show ?thesis .
qed

section \<open>The header of an executable\<close>

text \<open>A sound image: every inode is well formed.\<close>

definition files_ok :: "'a kernel_scheme \<Rightarrow> bool" where
  "files_ok s \<longleftrightarrow> image_ok s \<and>
     (\<forall>inode < num_inodes (vmem s) (fs_start s). file_ok (vmem s) (fs_start s) inode)"

text \<open>A memory that agrees with the view on the kernel page; the locals lie below it.\<close>

definition local_view :: "'a kernel_scheme \<Rightarrow> mem \<Rightarrow> bool" where
  "local_view s m \<longleftrightarrow> (\<forall>a. drop_bit 22 a = 1 \<longrightarrow> m a = vmem s a)"

lemma local_view_fs:
  "image_ok s \<Longrightarrow> local_view s m \<Longrightarrow> in_fs (vmem s) (fs_start s) a \<Longrightarrow> m a = vmem s a"
  by (simp add: image_ok_def fs_placed_def local_view_def)

lemma local_view_image:
  assumes "image_ok s" "local_view s m"
  shows "num_dentries m (fs_start s) = num_dentries (vmem s) (fs_start s)"
    "num_inodes m (fs_start s) = num_inodes (vmem s) (fs_start s)"
    "in_fs m (fs_start s) = in_fs (vmem s) (fs_start s)"
  using header_same [OF local_view_fs [OF assms]] assms(1) by (simp_all add: image_ok_def)

lemma local_view_file:
  assumes "files_ok s" "local_view s m" "inode < num_inodes (vmem s) (fs_start s)"
  shows "file_ok m (fs_start s) inode" "file_size m (fs_start s) inode = file_size (vmem s) (fs_start s) inode"
    "k < unat (file_size (vmem s) (fs_start s) inode) \<Longrightarrow>
       file_byte m (fs_start s) inode k = file_byte (vmem s) (fs_start s) inode k"
proof -
  have "image_ok s" "file_ok (vmem s) (fs_start s) inode" using assms by (simp_all add: files_ok_def)
  note i = image_same [OF local_view_fs [OF this(1) assms(2)] this(2)]
  show "file_ok m (fs_start s) inode" "file_size m (fs_start s) inode = file_size (vmem s) (fs_start s) inode"
    "k < unat (file_size (vmem s) (fs_start s) inode) \<Longrightarrow>
       file_byte m (fs_start s) inode k = file_byte (vmem s) (fs_start s) inode k"
    using i by simp_all
qed

lemma local_view_put:
  assumes "local_view s m" "unat a + length bs < 0x3FFFC0"
  shows "local_view s (put_bytes a bs m)"
  unfolding local_view_def
proof (intro allI impI)
  fix x :: addr assume x: "drop_bit 22 x = 1"
  then have "put_bytes a bs m x = m x" using assms(2) by (intro put_low) (simp_all add: main_region_def)
  then show "put_bytes a bs m x = vmem s x" using assms(1) x by (simp add: local_view_def)
qed

lemma find_dentry_from_entry:
  assumes "strlen m filename = Some n"
  shows "\<exists>d. find_dentry_from m fs filename i = Some d \<and> (d = 0 \<or> (\<exists>j < num_dentries m fs. d = dentry_addr fs j))"
  using assms
proof (induction m fs filename i rule: find_dentry_from.induct)
  case (1 m fs filename i)
  then show ?case by (subst find_dentry_from.simps) auto
qed

text \<open>What \<open>read_dentry_by_name\<close> leaves in the local: a failure or a copy of an entry.\<close>

lemma header_entry:
  assumes "image_ok s" "local_view s m" "is_cstr m LOCAL_NAME name"
  obtains "read_dentry_by_name m (fs_start s) LOCAL_NAME LOCAL_DENTRY = Some (- 1, m)"
      "find_dentry m (fs_start s) LOCAL_NAME = Some 0"
  | j m' where "j < num_dentries (vmem s) (fs_start s)"
      "find_dentry m (fs_start s) LOCAL_NAME = Some (dentry_addr (fs_start s) j)"
      "read_dentry_by_name m (fs_start s) LOCAL_NAME LOCAL_DENTRY = Some (0, m')"
      "inode_num m' LOCAL_DENTRY = inode_num (vmem s) (dentry_addr (fs_start s) j)" "local_view s m'"
proof -
  have "strlen m LOCAL_NAME = Some (of_nat (length name))" by (rule strlen_cstr [OF assms(3)])
  from find_dentry_from_entry [OF this, of "fs_start s" 0]
  obtain d where d: "find_dentry m (fs_start s) LOCAL_NAME = Some d"
    "d = 0 \<or> (\<exists>j < num_dentries (vmem s) (fs_start s). d = dentry_addr (fs_start s) j)"
    unfolding find_dentry_def local_view_image(1) [OF assms(1,2)] by auto
  show thesis
  proof (cases "d = 0")
    case True
    then show thesis using d(1) by (intro that(1)) (simp_all add: read_dentry_by_name_def)
  next
    case False
    then obtain j where j: "j < num_dentries (vmem s) (fs_start s)" "d = dentry_addr (fs_start s) j" using d(2) by auto
    define m' where "m' = copy_dentry m LOCAL_DENTRY d"
    note ap = dentry_apart [OF assms(1) j(1), folded j(2)]
    note c = copy_dentry_fields [OF ap, where m = m, folded m'_def]
    have e: "m (d + of_nat i) = vmem s (d + of_nat i)" if "i < 64" for i
      using dentry_in_image(2) [OF assms(1) j(1) that] assms(2) by (simp add: local_view_def j(2))
    show thesis
    proof (rule that(2) [OF j(1)])
      show "find_dentry m (fs_start s) LOCAL_NAME = Some (dentry_addr (fs_start s) j)" using d(1) j(2) by simp
      show "read_dentry_by_name m (fs_start s) LOCAL_NAME LOCAL_DENTRY = Some (0, m')"
        using d(1) False by (simp add: read_dentry_by_name_def m'_def)
      have "inode_num m d = inode_num (vmem s) d"
        unfolding inode_num_def using e [of 36] e [of 37] e [of 38] e [of 39]
        by (intro load32_cong) (simp_all add: add.assoc)
      then show "inode_num m' LOCAL_DENTRY = inode_num (vmem s) (dentry_addr (fs_start s) j)"
        using c(3) j(2) by simp
      show "local_view s m'"
        unfolding local_view_def
      proof (intro allI impI)
        fix a :: addr assume a: "drop_bit 22 a = 1"
        then have "64 \<le> a - LOCAL_DENTRY" by (rule kernel_page_apart) simp
        then have "m' a = m a" by (intro c(4)) (simp add: word_le_nat_alt)
        then show "m' a = vmem s a" using assms(2) a by (simp add: local_view_def)
      qed
    qed
  qed
qed

text \<open>The first bytes of the executable over the local buffer.\<close>

definition elf_view :: "'a kernel_scheme \<Rightarrow> u32 \<Rightarrow> mem \<Rightarrow> mem" where
  "elf_view s inode m = (\<lambda>a. if unat (a - LOCAL_ELF) < min 32 (unat (file_size (vmem s) (fs_start s) inode))
     then file_byte (vmem s) (fs_start s) inode (unat (a - LOCAL_ELF)) else m a)"

lemma read_elf:
  assumes "files_ok s" "local_view s m" "inode < num_inodes (vmem s) (fs_start s)"
  shows "read_data m (fs_start s) inode 0 LOCAL_ELF NAME_LENGTH =
    (of_nat (min 32 (unat (file_size (vmem s) (fs_start s) inode))), elf_view s inode m)"
proof -
  have io: "image_ok s" using assms(1) by (simp add: files_ok_def)
  note f = local_view_file [OF assms]
  define n where "n = min 32 (unat (file_size (vmem s) (fs_start s) inode))"
  have n: "read_count (unat (file_size m (fs_start s) inode)) (unat (0 :: u32)) (unat NAME_LENGTH) = n"
    by (simp add: read_count_def f n_def)
  have "apart m (fs_start s) LOCAL_ELF n"
    unfolding apart_def local_view_image(3) [OF io assms(2)]
  proof (intro allI impI notI)
    fix a assume a: "unat (a - LOCAL_ELF) < n" "in_fs (vmem s) (fs_start s) a"
    then have "drop_bit 22 a = 1" using io by (simp add: image_ok_def fs_placed_def)
    then have "64 \<le> a - LOCAL_ELF" by (rule kernel_page_apart) simp
    with a(1) show False by (simp add: n_def word_le_nat_alt)
  qed
  then have r: "read_data m (fs_start s) inode 0 LOCAL_ELF NAME_LENGTH =
      (of_nat n, file_copied m (fs_start s) inode LOCAL_ELF 0 n)"
    using read_data_copies [OF f(1), of 0 NAME_LENGTH LOCAL_ELF] n by simp
  have "file_copied m (fs_start s) inode LOCAL_ELF 0 n = elf_view s inode m"
    unfolding file_copied_def elf_view_def using f(3) by (auto simp: fun_eq_iff n_def)
  with r show ?thesis by (simp add: n_def)
qed

lemma elf_view_other:
  "32 \<le> unat (a - LOCAL_ELF) \<Longrightarrow> elf_view s inode m a = m a"
  by (simp add: elf_view_def)

lemma read_header_cases:
  assumes "files_ok s" "0 \<notin> set name" "length name \<le> 32" "length (ELF_buf0 l) = 32"
  defines "v \<equiv> put_bytes LOCAL_NAME (name @ [0]) (vmem s)"
  obtains "read_header (fs_start s) l LOCAL_NAME v = Some (Inl ())"
      "find_dentry v (fs_start s) LOCAL_NAME = Some 0 \<or>
       (\<exists>j < num_dentries (vmem s) (fs_start s). find_dentry v (fs_start s) LOCAL_NAME = Some (dentry_addr (fs_start s) j) \<and>
          \<not> inode_num (vmem s) (dentry_addr (fs_start s) j) < num_inodes (vmem s) (fs_start s))"
  | j m inode where "j < num_dentries (vmem s) (fs_start s)"
      "find_dentry v (fs_start s) LOCAL_NAME = Some (dentry_addr (fs_start s) j)"
      "inode = inode_num (vmem s) (dentry_addr (fs_start s) j)" "inode < num_inodes (vmem s) (fs_start s)"
      "read_header (fs_start s) l LOCAL_NAME v = (if is_elf m then Some (Inr m) else Some (Inl ()))"
      "inode_num m LOCAL_DENTRY = inode"
      "\<And>i. i < min 32 (unat (file_size (vmem s) (fs_start s) inode)) \<Longrightarrow>
         m (LOCAL_ELF + of_nat i) = file_byte (vmem s) (fs_start s) inode i"
proof -
  have io: "image_ok s" using assms(1) by (simp add: files_ok_def)
  have lv: "local_view s v" unfolding v_def
    by (rule local_view_put) (use assms(3) in \<open>auto simp: local_view_def\<close>)
  have cs: "is_cstr v LOCAL_NAME name" unfolding v_def using assms(2,3) by (intro is_cstr_put) simp_all
  from header_entry [OF io lv cs] show thesis
  proof cases
    case 1
    then show thesis by (intro that(1)) (simp_all add: read_header_def)
  next
    case (2 j m')
    define inode where "inode = inode_num (vmem s) (dentry_addr (fs_start s) j)"
    define m1 where "m1 = put_bytes LOCAL_ELF (ELF_buf0 l) m'"
    have out: "m1 a = m' a" if "32 \<le> unat (a - LOCAL_ELF)" for a
      unfolding m1_def using that assms(4) by (simp add: put_bytes_def)
    have in1: "inode_num m1 LOCAL_DENTRY = inode"
      using 2(4) out [of "0x1024"] out [of "0x1025"] out [of "0x1026"] out [of "0x1027"]
      by (simp add: inode_num_def load32_def inode_def)
    have lv1: "local_view s m1" unfolding m1_def by (rule local_view_put [OF 2(5)]) (simp add: assms(4))
    show thesis
    proof (cases "inode < num_inodes (vmem s) (fs_start s)")
      case False
      then have "read_data m1 (fs_start s) inode 0 LOCAL_ELF NAME_LENGTH = (- 1, m1)"
        by (simp add: read_data_def local_view_image(2) [OF io lv1] not_less)
      then show thesis
        using 2(1-3) in1 False
        by (intro that(1)) (auto simp: read_header_def m1_def [symmetric] Let_def inode_def)
    next
      case True
      define m where "m = elf_view s inode m1"
      define k where "k = min 32 (unat (file_size (vmem s) (fs_start s) inode))"
      have "(of_nat k :: u32) \<noteq> - 1" by (rule small_count) (simp add: k_def)
      then have h: "read_header (fs_start s) l LOCAL_NAME v = (if is_elf m then Some (Inr m) else Some (Inl ()))"
        using 2(3) in1 read_elf [OF assms(1) lv1 True]
        by (simp add: read_header_def m1_def [symmetric] Let_def m_def k_def)
      have "inode_num m LOCAL_DENTRY = inode"
        using in1 elf_view_other [of "0x1024" s inode m1] elf_view_other [of "0x1025" s inode m1] elf_view_other [of "0x1026" s inode m1]
          elf_view_other [of "0x1027" s inode m1] by (simp add: inode_num_def load32_def m_def)
      moreover have "m (LOCAL_ELF + of_nat i) = file_byte (vmem s) (fs_start s) inode i"
        if "i < min 32 (unat (file_size (vmem s) (fs_start s) inode))" for i
        using that by (simp add: m_def elf_view_def unat_of_nat32)
      ultimately show thesis by (intro that(2) [OF 2(1,2) inode_def True h])
    qed
  qed
qed

end
