(* ===== verification/Programs.thy ===== *)
theory Programs
  imports Process
begin

text \<open>
  What \<open>execute\<close> and \<open>launch\<close> start: a command line is split into a name and arguments, the name
  selects an executable of the image, its bytes are what the new process finds in its page, and
  \<open>getargs\<close> hands the arguments back.
\<close>

section \<open>States with the same view\<close>

lemma take_min_length: "take (min n (length xs)) xs = take n xs"
  by (simp add: min_def)

lemma flag_frame [simp]:
  "vmem (s\<lparr>iflag := b\<rparr>) = vmem s" "runs_program (s\<lparr>iflag := b\<rparr>) p = runs_program s p"
  "vmem (s\<lparr>fault := b\<rparr>) = vmem s"
  by (simp_all add: fun_eq_iff vmem_def kload_def translate_def table_at_def Let_def runs_program_def
      paging_wf_def paging_on_def)

lemma pcbs_frame [simp]:
  "vmem (s\<lparr>pcbs := f\<rparr>) = vmem s" "runs_program (s\<lparr>pcbs := f\<rparr>) p = runs_program s p"
  by (simp_all add: fun_eq_iff vmem_def kload_def translate_def table_at_def Let_def runs_program_def
      paging_wf_def paging_on_def)

lemma files_flag [simp]: "files_ok (s\<lparr>iflag := b\<rparr>) = files_ok s"
  by (simp add: files_ok_def image_ok_def fs_placed_def)

lemma files_ok_same:
  assumes "files_ok s" "fs_start t = fs_start s" "local_view s (vmem t)"
  shows "files_ok t" "num_inodes (vmem t) (fs_start t) = num_inodes (vmem s) (fs_start s)"
proof -
  have io: "image_ok s" using assms(1) by (simp add: files_ok_def)
  show n: "num_inodes (vmem t) (fs_start t) = num_inodes (vmem s) (fs_start s)"
    using local_view_image(2) [OF io assms(3)] by (simp add: assms(2))
  have "image_ok t" by (rule image_ok_same [OF io assms(2)]) (use assms(3) in \<open>simp add: local_view_def\<close>)
  then show "files_ok t"
    using local_view_file(1) [OF assms(1,3)] n by (simp add: files_ok_def assms(2))
qed

lemma mapped_view:
  assumes "paging_wf s" "1 \<le> p" "p \<le> 6"
  shows "local_view s (vmem (mapped_for p s))"
  unfolding local_view_def mapped_for_def
  using assms map_program(2) [of "s\<lparr>process_array := (process_array s)(p - 1 := 1)\<rparr>" p] by simp

section \<open>The command line\<close>

lemma kload_main: "runs_program s p \<Longrightarrow> a \<in> main_region \<Longrightarrow> kload a s = Some (vmem s a)"
  using main_translate [of s p a] by (auto simp: main_region_def vmem_def kload_def)

definition splits_into :: "u8 list \<Rightarrow> u8 list \<Rightarrow> nat \<Rightarrow> u8 list \<Rightarrow> bool" where
  "splits_into line name k as \<longleftrightarrow>
     line = name @ replicate k 0x20 @ as \<and> 0x20 \<notin> set name \<and> length name \<le> 32 \<and>
     (length name = 32 \<or> 0 < k \<or> as = []) \<and> (as = [] \<or> hd as \<noteq> 0x20)"

lemma line_byte:
  assumes "runs_program s p" "names_file s command line"
  shows "i < length line \<Longrightarrow> kload (command + of_nat i) s = Some (line ! i)"
    "kload (command + of_nat (length line)) s = Some 0" "0 \<notin> set line"
proof -
  have c: "is_cstr (vmem s) command line" "\<forall>i \<le> length line. command + of_nat i \<in> main_region"
    using assms(2) by (simp_all add: names_file_def)
  show "i < length line \<Longrightarrow> kload (command + of_nat i) s = Some (line ! i)"
    using kload_main [OF assms(1)] c(2) is_cstrD(1) [OF c(1)] by simp
  show "kload (command + of_nat (length line)) s = Some 0"
    using kload_main [OF assms(1)] c(2) is_cstrD(3) [OF c(1)] by simp
  show "0 \<notin> set line" using c(1) by (simp add: is_cstr_def)
qed

lemma command_name_line:
  assumes "runs_program s p" "names_file s command line" "splits_into line name k as" "i \<le> length name"
  shows "command_name command i s = Some (drop i name)"
  using assms(4)
proof (induction "length name - i" arbitrary: i)
  case 0
  then have i: "i = length name" by simp
  have l: "line = name @ replicate k 0x20 @ as" "length name = 32 \<or> 0 < k \<or> as = []"
    using assms(3) by (simp_all add: splits_into_def)
  show ?case
  proof (cases "length line = length name")
    case True
    then show ?thesis using i line_byte(2) [OF assms(1,2)] by (subst command_name.simps) simp
  next
    case False
    then have lt: "length name < length line" using l(1) by simp
    have "line ! length name = 0x20 \<or> length name = 32" using l lt by (auto simp: nth_append)
    then show ?thesis using i line_byte(1) [OF assms(1,2) lt] by (subst command_name.simps) auto
  qed
next
  case (Suc n)
  then have i: "i < length name" by simp
  have l: "line = name @ replicate k 0x20 @ as" "0x20 \<notin> set name" "length name \<le> 32"
    using assms(3) by (simp_all add: splits_into_def)
  then have e: "line ! i = name ! i" "i < length line" using i by (simp_all add: nth_append)
  have "name ! i \<noteq> 0x20" using l(2) i by (metis nth_mem)
  moreover have "name ! i \<noteq> 0" using line_byte(3) [OF assms(1,2)] i e by (metis nth_mem)
  moreover have "command_name command (Suc i) s = Some (drop (Suc i) name)" using Suc by (intro Suc.hyps(1)) auto
  ultimately show ?case
    using line_byte(1) [OF assms(1,2) e(2)] e(1) i l(3) by (subst command_name.simps) (simp add: Cons_nth_drop_Suc)
qed

lemma skip_spaces_line:
  assumes "runs_program s p" "names_file s command line" "splits_into line name k as" "j \<le> k"
  shows "skip_spaces (command + of_nat (length name + j)) s = Some (command + of_nat (length name + k))"
  using assms(4)
proof (induction "k - j" arbitrary: j)
  case 0
  then have j: "j = k" by simp
  have l: "line = name @ replicate k 0x20 @ as" "as = [] \<or> hd as \<noteq> 0x20"
    using assms(3) by (simp_all add: splits_into_def)
  show ?case
  proof (cases as)
    case Nil
    then have "kload (command + of_nat (length name + k)) s = Some 0"
      using line_byte(2) [OF assms(1,2)] l(1) by simp
    then show ?thesis using j by (subst skip_spaces.simps) simp
  next
    case (Cons a r)
    then have "line ! (length name + k) = a" "length name + k < length line" using l(1) by (simp_all add: nth_append)
    then show ?thesis
      using line_byte(1) [OF assms(1,2), of "length name + k"] l(2) Cons j by (subst skip_spaces.simps) simp
  qed
next
  case (Suc n)
  then have j: "j < k" by simp
  have l: "line = name @ replicate k 0x20 @ as" using assms(3) by (simp add: splits_into_def)
  then have "line ! (length name + j) = 0x20" "length name + j < length line" using j by (simp_all add: nth_append)
  then have "kload (command + of_nat (length name + j)) s = Some 0x20"
    using line_byte(1) [OF assms(1,2), of "length name + j"] by simp
  moreover have "skip_spaces (command + of_nat (length name + Suc j)) s = Some (command + of_nat (length name + k))"
    using Suc by (intro Suc.hyps(1)) auto
  ultimately show ?case by (subst skip_spaces.simps) (simp add: ac_simps)
qed

lemma command_args_line:
  assumes "runs_program s p" "names_file s command line" "splits_into line name k as" "j \<le> length as" "j \<le> 128"
  shows "command_args (command + of_nat (length name + k)) j s = Some (take (128 - j) (drop j as))"
  using assms(4,5)
proof (induction "length as - j" arbitrary: j)
  case 0
  then have j: "j = length as" by simp
  have "length line = length name + k + length as" using assms(3) by (simp add: splits_into_def)
  then have "kload (command + of_nat (length name + k) + of_nat j) s = Some 0"
    using line_byte(2) [OF assms(1,2)] j by (simp add: add.assoc)
  then show ?case using j by (subst command_args.simps) simp
next
  case (Suc n)
  then have j: "j < length as" by simp
  have l: "line = name @ replicate k 0x20 @ as" using assms(3) by (simp add: splits_into_def)
  then have e: "line ! (length name + k + j) = as ! j" "length name + k + j < length line"
    using j by (simp_all add: nth_append)
  have b: "kload (command + of_nat (length name + k) + of_nat j) s = Some (as ! j)"
    using line_byte(1) [OF assms(1,2) e(2)] e(1) by (simp add: add.assoc)
  have nz: "as ! j \<noteq> 0" using line_byte(3) [OF assms(1,2)] e by (metis nth_mem)
  show ?case
  proof (cases "j < 128")
    case False
    then show ?thesis using Suc.prems(2) by (subst command_args.simps) simp
  next
    case True
    then have "command_args (command + of_nat (length name + k)) (Suc j) s = Some (take (128 - Suc j) (drop (Suc j) as))"
      using Suc j by (intro Suc.hyps(1)) auto
    moreover have "take (128 - j) (drop j as) = as ! j # take (128 - Suc j) (drop (Suc j) as)"
      using True j by (metis Cons_nth_drop_Suc Suc_diff_Suc take_Suc_Cons)
    ultimately show ?thesis using b nz True by (subst command_args.simps) simp
  qed
qed

text \<open>The arguments as the control block holds them.\<close>

definition padded :: "u8 list \<Rightarrow> u8 list" where
  "padded as = take 127 as @ replicate (128 - min 127 (length as)) 0"

lemma args_of_padded:
  assumes "0 \<notin> set as"
  shows "args_of (take 128 as) m = padded as"
proof -
  define xs where "xs = take 128 as"
  define m1 where "m1 = put_bytes LOCAL_ARGS xs (m(LOCAL_ARGS := 0))"
  define m2 where "m2 = (if length xs < 128 then m1(LOCAL_ARGS + of_nat (length xs) := 0) else m1)"
  define m3 where "m3 = m2(LOCAL_ARGS + 127 := 0)"
  have ne: "(of_nat i :: u32) = of_nat j \<longleftrightarrow> i = j" if "i < 2 ^ 32" "j < 2 ^ 32" for i j
    using that unat_of_nat32 by metis
  have b: "m3 (LOCAL_ARGS + of_nat i) = as ! i" if "i < 127" "i < length as" for i
    using that ne [of i 127] ne [of i "length as"]
    by (cases "length as < 128") (simp_all add: m3_def m2_def m1_def put_bytes_def unat_of_nat32 xs_def)
  have z: "m3 (LOCAL_ARGS + of_nat (min 127 (length as))) = 0"
  proof (cases "length as < 127")
    case True
    then show ?thesis using ne [of "length as" 127] by (simp add: m3_def m2_def xs_def)
  next
    case False
    then show ?thesis by (simp add: m3_def)
  qed
  define n where "n = min 127 (length as)"
  have "bytes_at m3 LOCAL_ARGS n = take n as"
    using b by (intro nth_equalityI) (simp_all add: n_def)
  moreover have "0 \<notin> set (take n as)" using assms by (auto dest: in_set_takeD)
  ultimately have "is_cstr m3 LOCAL_ARGS (take n as)" using z by (simp add: is_cstr_def n_def)
  from cstr_bytes_of_cstr [OF this, of 128] have c: "cstr (bytes_at m3 LOCAL_ARGS 128) = take 127 as"
    by (cases "length as \<le> 127") (simp_all add: n_def)
  have "bytes_at (strncpy m3 LOCAL_PCB_ARGS LOCAL_ARGS 128) LOCAL_PCB_ARGS 128 = padded as"
    using strncpy_bytes [of 128 LOCAL_PCB_ARGS LOCAL_ARGS m3] by (simp add: c padded_def min.commute)
  then show ?thesis unfolding args_of_def Let_def m3_def m2_def m1_def xs_def .
qed

section \<open>The executable\<close>

text \<open>A file of that name with the magic number and room for the entry point.\<close>

definition executable :: "mem \<Rightarrow> addr \<Rightarrow> u8 list \<Rightarrow> u32 \<Rightarrow> bool" where
  "executable m fs name inode \<longleftrightarrow>
     (\<exists>j. lookup_name m fs name = Some j \<and> inode = inode_num m (dentry_addr fs (of_nat j))) \<and>
     inode < num_inodes m fs \<and> 28 \<le> length (file_bytes m fs inode) \<and>
     take 4 (file_bytes m fs inode) = [0x7F, 0x45, 0x4C, 0x46]"

definition entry_point :: "mem \<Rightarrow> addr \<Rightarrow> u32 \<Rightarrow> u32" where
  "entry_point m fs inode =
     load32 (\<lambda>a. file_bytes m fs inode ! unat a) 24"


lemma dentry_local:
  assumes "image_ok s" "local_view s m" "j < num_dentries (vmem s) (fs_start s)"
  shows "dentry_name m (dentry_addr (fs_start s) j) = dentry_name (vmem s) (dentry_addr (fs_start s) j)"
    "file_type m (dentry_addr (fs_start s) j) = file_type (vmem s) (dentry_addr (fs_start s) j)"
    "inode_num m (dentry_addr (fs_start s) j) = inode_num (vmem s) (dentry_addr (fs_start s) j)"
proof -
  let ?d = "dentry_addr (fs_start s) j"
  have e: "m (?d + of_nat i) = vmem s (?d + of_nat i)" if "i < 64" for i
    using dentry_in_image(2) [OF assms(1,3) that] assms(2) by (simp add: local_view_def)
  then have "bytes_at m ?d 32 = bytes_at (vmem s) ?d 32" by (intro bytes_at_same) simp
  then show "dentry_name m ?d = dentry_name (vmem s) ?d" by (simp add: dentry_name_def)
  show "file_type m ?d = file_type (vmem s) ?d"
    unfolding file_type_def using e [of 32] e [of 33] e [of 34] e [of 35]
    by (intro load32_cong) (simp_all add: add.assoc)
  show "inode_num m ?d = inode_num (vmem s) ?d"
    unfolding inode_num_def using e [of 36] e [of 37] e [of 38] e [of 39]
    by (intro load32_cong) (simp_all add: add.assoc)
qed

lemma lookup_local:
  assumes "image_ok s" "local_view s m"
  shows "lookup_name m (fs_start s) name = lookup_name (vmem s) (fs_start s) name" "types_ok m (fs_start s)"
proof -
  note n = local_view_image(1) [OF assms]
  have d: "of_nat j < num_dentries (vmem s) (fs_start s)" if "j < unat (num_dentries (vmem s) (fs_start s))" for j
    using that unat_lt32 [of "num_dentries (vmem s) (fs_start s)"] by (simp add: word_less_nat_alt unat_of_nat32)
  show "lookup_name m (fs_start s) name = lookup_name (vmem s) (fs_start s) name"
    unfolding lookup_name_def n using dentry_local(1) [OF assms d] by (intro find_cong) auto
  show "types_ok m (fs_start s)"
    using assms(1) dentry_local(2) [OF assms] by (simp add: types_ok_def image_ok_def n)
qed

lemma dentry_addr_nz:
  assumes "image_ok s" "j < num_dentries (vmem s) (fs_start s)"
  shows "dentry_addr (fs_start s) j \<noteq> 0"
  using dentry_in_image(2) [OF assms, of 0] by auto

lemma read_header_name:
  fixes s :: "'a kernel_scheme"
  assumes "files_ok s" "plain_name name" "length name \<le> 32" "length (ELF_buf0 l) = 32"
  defines "v \<equiv> put_bytes LOCAL_NAME (name @ [0]) (vmem s)"
  shows "lookup_name (vmem s) (fs_start s) name = None \<Longrightarrow> read_header (fs_start s) l LOCAL_NAME v = Some (Inl ())"
    "executable (vmem s) (fs_start s) name inode \<Longrightarrow>
       \<exists>m. read_header (fs_start s) l LOCAL_NAME v = Some (Inr m) \<and> inode_num m LOCAL_DENTRY = inode \<and>
         load32 m (LOCAL_ELF + 24) = entry_point (vmem s) (fs_start s) inode"
proof -
  have io: "image_ok s" using assms(1) by (simp add: files_ok_def)
  have nz: "0 \<notin> set name" using assms(2) by (auto simp: plain_name_def)
  have lv: "local_view s v" unfolding v_def
    by (rule local_view_put) (use assms(3) in \<open>auto simp: local_view_def\<close>)
  have cs: "is_cstr v LOCAL_NAME name" unfolding v_def using nz assms(3) by (intro is_cstr_put) simp_all
  note f = find_dentry_lookup [OF cs assms(2) lookup_local(2) [OF io lv], unfolded lookup_local(1) [OF io lv]]
  note rc = read_header_cases [OF assms(1) nz assms(3,4), folded v_def]
  show "read_header (fs_start s) l LOCAL_NAME v = Some (Inl ())" if "lookup_name (vmem s) (fs_start s) name = None"
  proof (rule rc)
    fix j assume "j < num_dentries (vmem s) (fs_start s)" "find_dentry v (fs_start s) LOCAL_NAME = Some (dentry_addr (fs_start s) j)"
    then show ?thesis using f that dentry_addr_nz [OF io] by simp
  qed
  show "\<exists>m. read_header (fs_start s) l LOCAL_NAME v = Some (Inr m) \<and> inode_num m LOCAL_DENTRY = inode \<and>
         load32 m (LOCAL_ELF + 24) = entry_point (vmem s) (fs_start s) inode"
    if e: "executable (vmem s) (fs_start s) name inode"
  proof -
    obtain j where j: "lookup_name (vmem s) (fs_start s) name = Some j" "inode = inode_num (vmem s) (dentry_addr (fs_start s) (of_nat j))"
      using e by (auto simp: executable_def)
    have fd: "find_dentry v (fs_start s) LOCAL_NAME = Some (dentry_addr (fs_start s) (of_nat j))" using f j(1) by simp
    have b63: "num_dentries (vmem s) (fs_start s) \<le> 63" using io by (simp add: image_ok_def)
    note jb = lookup_bound(2) [OF j(1)]
    have same: "inode_num (vmem s) (dentry_addr (fs_start s) i) = inode"
      if "i < num_dentries (vmem s) (fs_start s)" "find_dentry v (fs_start s) LOCAL_NAME = Some (dentry_addr (fs_start s) i)" for i
      using that fd j(2) by simp
    show ?thesis
    proof (rule rc)
      assume "find_dentry v (fs_start s) LOCAL_NAME = Some 0 \<or>
       (\<exists>j < num_dentries (vmem s) (fs_start s). find_dentry v (fs_start s) LOCAL_NAME = Some (dentry_addr (fs_start s) j) \<and>
          \<not> inode_num (vmem s) (dentry_addr (fs_start s) j) < num_inodes (vmem s) (fs_start s))"
      then show ?thesis using fd dentry_addr_nz [OF io jb] same e by (auto simp: executable_def)
    next
      fix i m i'
      assume h: "i < num_dentries (vmem s) (fs_start s)" "find_dentry v (fs_start s) LOCAL_NAME = Some (dentry_addr (fs_start s) i)"
        "i' = inode_num (vmem s) (dentry_addr (fs_start s) i)"
        "read_header (fs_start s) l LOCAL_NAME v = (if is_elf m then Some (Inr m) else Some (Inl ()))" "inode_num m LOCAL_DENTRY = i'"
        "\<And>k. k < min 32 (unat (file_size (vmem s) (fs_start s) i')) \<Longrightarrow>
         m (LOCAL_ELF + of_nat k) = file_byte (vmem s) (fs_start s) i' k"
      have i': "i' = inode" using same h(1-3) by simp
      let ?b = "file_bytes (vmem s) (fs_start s) inode"
      have len: "28 \<le> length ?b" "take 4 ?b = [0x7F, 0x45, 0x4C, 0x46]" using e by (simp_all add: executable_def)
      have b: "m (LOCAL_ELF + of_nat k) = ?b ! k" if "k < 28" for k
        using h(6) [of k] that len(1) by (simp add: i' file_bytes_def)
      have "?b ! k = [0x7F, 0x45, 0x4C, 0x46] ! k" if "k < 4" for k using that by (metis len(2) nth_take)
      from this [of 0] this [of 1] this [of 2] this [of 3]
      have "is_elf m" using b [of 0] b [of 1] b [of 2] b [of 3] by (simp add: is_elf_def)
      moreover have "load32 m (LOCAL_ELF + 24) = entry_point (vmem s) (fs_start s) inode"
        using b [of 24] b [of 25] b [of 26] b [of 27] by (simp add: entry_point_def load32_def)
      ultimately show ?thesis using h(4,5) i' by auto
    qed
  qed
qed

section \<open>The program in memory\<close>

lemma vread_program_content:
  fixes s :: "'a kernel_scheme"
  assumes "runs_program s p" "files_ok s" "inode < num_inodes (vmem s) (fs_start s)"
  defines "n \<equiv> min 0x3B8000 (length (file_bytes (vmem s) (fs_start s) inode))"
  shows "bytes_at (vmem (snd (vread_data inode 0 PROG_START MAX_PROG_SIZE s))) PROG_START n =
    take n (file_bytes (vmem s) (fs_start s) inode)"
proof -
  let ?z = "unat (file_size (vmem s) (fs_start s) inode)"
  have n: "n = min 0x3B8000 ?z" by (simp add: n_def file_bytes_def)
  have ok: "file_ok (vmem s) (fs_start s) inode" "image_ok s" using assms(2,3) by (simp_all add: files_ok_def)
  have u: "user_range PROG_START n" by (rule prog_range) (simp add: n)
  have rc: "read_count ?z (unat (0 :: u32)) (unat MAX_PROG_SIZE) = n" by (simp add: read_count_def n)
  have "apart (vmem s) (fs_start s) PROG_START n"
    unfolding apart_def
  proof (intro allI impI notI)
    fix a assume a: "unat (a - PROG_START) < n" "in_fs (vmem s) (fs_start s) a"
    have "drop_bit 22 a = 32" by (rule user_range_at [OF u a(1)])
    moreover have "drop_bit 22 a = 1" using a(2) ok(2) by (simp add: image_ok_def fs_placed_def)
    ultimately show False by simp
  qed
  then have r: "read_data (vmem s) (fs_start s) inode 0 PROG_START MAX_PROG_SIZE =
      (of_nat n, file_copied (vmem s) (fs_start s) inode PROG_START 0 n)"
    using read_data_copies [OF ok(1), of 0 MAX_PROG_SIZE PROG_START] rc by simp
  have un: "unat (of_nat n :: u32) = n" by (simp add: n unat_of_nat32)
  define m where "m = file_copied (vmem s) (fs_start s) inode PROG_START 0 n"
  obtain q where q: "store_range PROG_START n m s = s\<lparr>pmem := q\<rparr>"
    "\<And>x. x \<in> main_region \<Longrightarrow> vmem (s\<lparr>pmem := q\<rparr>) x = (if unat (x - PROG_START) < n then m x else vmem s x)"
    by (rule store_user [OF assms(1) u]) (rule that)
  have v: "snd (vread_data inode 0 PROG_START MAX_PROG_SIZE s) = s\<lparr>pmem := q\<rparr>"
    unfolding vread_data_def using r q(1) un assms(3) by (simp add: not_le [symmetric] m_def [symmetric])
  have "vmem (s\<lparr>pmem := q\<rparr>) (PROG_START + of_nat i) = file_byte (vmem s) (fs_start s) inode i" if "i < n" for i
  proof -
    have i: "unat (of_nat i :: u32) = i" using that by (intro unat_of_nat32) (simp add: n)
    have "PROG_START + of_nat i \<in> main_region" using u that by (simp add: user_range_def main_region_def)
    then show ?thesis using q(2) that i by (simp add: m_def file_copied_def)
  qed
  then show ?thesis unfolding v by (intro nth_equalityI) (simp_all add: n file_bytes_def)
qed

lemma started_view:
  fixes s :: "'a kernel_scheme"
  shows "vmem (started l as p q s) = vmem ((mapped_for p s)\<lparr>pmem := q\<rparr>)"
  by (simp add: started_def Let_def mapped_for_def set_page_dir_entry_def fun_eq_iff vmem_def kload_def
      translate_def table_at_def)


text \<open>A command that names an executable while a slot is free: \<open>execute\<close> starts it.\<close>

lemma execute_starts:
  fixes s :: "'a kernel_scheme"
  assumes run: "runs_program s c" and img: "files_ok s" and loc: "length (ELF_buf0 l) = 32"
    and cmd: "names_file s command line" "splits_into line name k as" "plain_name name"
    and exe: "executable (vmem s) (fs_start s) name inode"
    and slot: "0 < process_num s" "process_num s < 6" "free_slot s = Some (p - 1)" "1 \<le> p" "p \<le> 6"
  obtains q where
    "execute l command s =
       Enters (entry_point (vmem s) (fs_start s) inode) (started l (padded as) p q (s\<lparr>iflag := False\<rparr>))"
    "bytes_at (vmem (started l (padded as) p q (s\<lparr>iflag := False\<rparr>))) PROG_START
         (min 0x3B8000 (length (file_bytes (vmem s) (fs_start s) inode))) =
       take 0x3B8000 (file_bytes (vmem s) (fs_start s) inode)"
proof -
  define t where "t = s\<lparr>iflag := False\<rparr>"
  have fl: "vmem t = vmem s" "fs_start t = fs_start s" "process_array t = process_array s"
    "runs_program t c" "files_ok t" using run img by (simp_all add: t_def)
  note rt = fl(4)
  have wf: "paging_wf t" using rt by (simp add: runs_program_def)
  have io: "image_ok t" using fl(5) by (simp add: files_ok_def)
  have nf: "names_file t command line" using cmd(1) by (simp add: names_file_def fl)
  have len: "length name \<le> 32" using cmd(2) by (simp add: splits_into_def)
  obtain m where m: "read_header (fs_start s) l LOCAL_NAME (put_bytes LOCAL_NAME (name @ [0]) (vmem s)) = Some (Inr m)"
    "inode_num m LOCAL_DENTRY = inode" "load32 m (LOCAL_ELF + 24) = entry_point (vmem s) (fs_start s) inode"
    using read_header_name(2) [OF img cmd(3) len loc exe] by blast
  have nz: "0 \<notin> set as" using line_byte(3) [OF rt nf] cmd(2) by (simp add: splits_into_def)
  have cn: "command_name command 0 t = Some name" using command_name_line [OF rt nf cmd(2), of 0] by simp
  have sk: "skip_spaces (command + of_nat (length name)) t = Some (command + of_nat (length name + k))"
    using skip_spaces_line [OF rt nf cmd(2), of 0] by simp
  have ca: "command_args (command + of_nat (length name + k)) 0 t = Some (take 128 as)"
    using command_args_line [OF rt nf cmd(2), of 0] by simp
  have "execute l command s = start_program l (args_of (take 128 as) m) m t"
    using slot(1,2) cn sk ca m(1) unfolding execute_def t_def [symmetric]
    by (simp add: cli_def t_def [symmetric] Let_def fl)
  then have e: "execute l command s = start_program l (padded as) m t" by (simp add: args_of_padded [OF nz])
  have inode: "inode < num_inodes (vmem s) (fs_start s)" using exe by (simp add: executable_def)
  note lv = mapped_view [OF wf slot(4,5)]
  have fsm: "fs_start (mapped_for p t) = fs_start s" by (simp add: mapped_for_def set_page_dir_entry_def fl)
  note v = local_view_image(2) [OF io lv]
  have fr: "free_slot t = Some (p - 1)" using slot(3) by (simp add: free_slot_def fl)
  define r where "r = vread_data inode 0 PROG_START MAX_PROG_SIZE (mapped_for p t)"
  have st: "start_program l (padded as) m t = Enters (entry_point (vmem s) (fs_start s) inode) (started l (padded as) p (pmem (snd r)) t)"
    using start_program_step [OF wf fr slot(4,5), of m l "padded as"] inode v m(3) by (simp add: m(2) fl r_def)
  have rm: "runs_program (mapped_for p t) p"
    unfolding mapped_for_def by (rule map_program [OF _ slot(4,5)]) (simp add: wf)
  have fm: "files_ok (mapped_for p t)" using files_ok_same(1) [OF fl(5) _ lv] by (simp add: fsm fl)
  have "file_size (vmem (mapped_for p t)) (fs_start s) inode = file_size (vmem s) (fs_start s) inode"
    "\<And>k. k < unat (file_size (vmem s) (fs_start s) inode) \<Longrightarrow>
       file_byte (vmem (mapped_for p t)) (fs_start s) inode k = file_byte (vmem s) (fs_start s) inode k"
    using local_view_file [OF fl(5) lv] inode by (simp_all add: fl)
  then have fb: "file_bytes (vmem (mapped_for p t)) (fs_start s) inode = file_bytes (vmem s) (fs_start s) inode"
    by (simp add: file_bytes_def)
  have im: "inode < num_inodes (vmem (mapped_for p t)) (fs_start s)" using inode v by (simp add: fl)
  obtain q where q: "snd r = (mapped_for p t)\<lparr>pmem := q\<rparr>"
    using vread_program [OF rm, of inode] im unfolding fsm r_def by (metis snd_conv)
  have "bytes_at (vmem (started l (padded as) p (pmem (snd r)) t)) PROG_START
         (min 0x3B8000 (length (file_bytes (vmem s) (fs_start s) inode))) =
       take 0x3B8000 (file_bytes (vmem s) (fs_start s) inode)"
    using vread_program_content [OF rm fm, of inode] im q
    by (simp add: fsm fb started_view r_def [symmetric] take_min_length)
  then show thesis using e st unfolding t_def by (intro that [of "pmem (snd r)"]) simp_all
qed

section \<open>Arguments and video memory\<close>

lemma cstr_padded: "0 \<notin> set as \<Longrightarrow> cstr (padded as) = take 127 as"
proof -
  assume "0 \<notin> set as"
  then have "0 \<notin> set (take 127 as)" by (auto dest: in_set_takeD)
  moreover have "replicate (128 - min 127 (length as)) (0 :: u8) = 0 # replicate (127 - min 127 (length as)) 0"
    by (simp add: Suc_diff_le flip: replicate_Suc)
  ultimately show ?thesis unfolding padded_def using cstr_append_zero by metis
qed

lemma user_page_bounds:
  assumes "drop_bit 22 (a :: addr) = 32"
  shows "0x8000000 \<le> unat a" "unat a < 0x8400000"
proof -
  have "unat (drop_bit 22 a) = 32" by (simp add: assms)
  then have "unat a div 2 ^ 22 = 32" by (simp add: drop_bit_eq_div unat_div)
  then show "0x8000000 \<le> unat a" "unat a < 0x8400000" by auto
qed

lemma not_user_page:
  assumes "drop_bit 22 buf \<noteq> 32"
  shows "buf < USER_PROG \<or> buf \<ge> USER_PROG + FOUR_MB"
proof (rule ccontr)
  assume "\<not> ?thesis"
  then have "unat buf div 2 ^ 22 = 32" by (auto simp: word_less_nat_alt word_le_nat_alt)
  then have "drop_bit 22 buf = 32" by (simp add: word_unat_eq_iff drop_bit_eq_div unat_div)
  with assms show False by simp
qed

lemma user_range_small:
  assumes "user_range buf n"
  shows "n \<le> 0x400000"
proof (rule ccontr)
  assume "\<not> n \<le> 0x400000"
  then have d: "drop_bit 22 buf = 32" "drop_bit 22 (buf + 0x400000) = 32"
    using assms unfolding user_range_def by (auto dest: spec [of _ 0] spec [of _ "0x400000"])
  note b = user_page_bounds [OF d(1)] user_page_bounds [OF d(2)]
  then have "unat (buf + 0x400000) = unat buf + unat (0x400000 :: addr)" by (intro unat_add_lem [THEN iffD1]) simp
  with b show False by simp
qed

lemma getargs_copies:
  fixes s :: "'a kernel_scheme"
  assumes "runs_program s p" "args (cur_pcb s) = padded as" "0 \<notin> set as" "as \<noteq> []"
    and "user_range buf n" "length (take 127 as) < n"
  shows "fst (getargs buf (int n) s) = 0"
    "bytes_at (vmem (snd (getargs buf (int n) s))) buf n = take 127 as @ replicate (n - length (take 127 as)) 0"
    "\<exists>q. snd (getargs buf (int n) s) = s\<lparr>pmem := q\<rparr> \<and> own_frame p s q \<and>
       (\<forall>x \<in> main_region. n \<le> unat (x - buf) \<longrightarrow> vmem (s\<lparr>pmem := q\<rparr>) x = vmem s x)"
proof -
  have sm: "n \<le> 0x400000" by (rule user_range_small [OF assms(5)])
  then have n: "unat (of_nat n :: u32) = n" by (simp add: unat_of_nat32)
  have "drop_bit 22 (buf + of_nat 0) = 32" using assms(5,6) unfolding user_range_def by fastforce
  then have bb: "0x8000000 \<le> unat buf" "unat buf < 0x8400000" using user_page_bounds [of buf] by simp_all
  then have br: "buf \<noteq> 0" "\<not> buf < USER_PROG" "\<not> buf \<ge> USER_PROG + FOUR_MB"
    by (auto simp: word_less_nat_alt word_le_nat_alt)
  let ?m = "put_bytes OWN_ARGS (padded as) (vmem s)"
  have l: "length (padded as) = 128" by (simp add: padded_def)
  have nz: "0 \<notin> set (take 127 as)" using assms(3) by (auto dest: in_set_takeD)
  have b: "bytes_at ?m OWN_ARGS 128 = padded as" using put_bytes_at [of "padded as" OWN_ARGS "vmem s"] l by simp
  have nth: "?m (OWN_ARGS + of_nat i) = padded as ! i" if "i < 128" for i
    using arg_cong [OF b, of "\<lambda>x. x ! i"] that by simp
  define k where "k = length (take 127 as)"
  have k: "k < 128" by (simp add: k_def)
  have "take k (padded as) = take 127 as" unfolding k_def padded_def by (metis append_eq_conv_conj)
  then have "bytes_at ?m OWN_ARGS k = take 127 as" using arg_cong [OF b, of "take k"] k by simp
  moreover have "padded as ! k = 0" by (simp add: padded_def k_def nth_append)
  ultimately have "is_cstr ?m OWN_ARGS (take 127 as)" using nz nth [OF k] k by (simp add: is_cstr_def k_def)
  from cstr_bytes_of_cstr [OF this, of n] have c: "cstr (bytes_at ?m OWN_ARGS n) = take 127 as"
    using take_all [of "take 127 as" n] assms(6) by (simp only: less_imp_le)
  have "(of_nat n :: u32) \<le> buf - OWN_ARGS" using bb sm n by (simp add: word_le_nat_alt unat_sub)
  from strncpy_bytes [OF this, of ?m]
  have sb: "bytes_at (strncpy ?m buf OWN_ARGS (of_nat n)) buf n = take 127 as @ replicate (n - length (take 127 as)) 0"
    by (simp only: n c)
  obtain q where q: "store_range buf n (strncpy ?m buf OWN_ARGS (of_nat n)) s = s\<lparr>pmem := q\<rparr>"
    "\<And>x. x \<in> main_region \<Longrightarrow> vmem (s\<lparr>pmem := q\<rparr>) x =
       (if unat (x - buf) < n then strncpy ?m buf OWN_ARGS (of_nat n) x else vmem s x)"
    "own_frame p s q"
    by (rule store_user [OF assms(1,5)]) (rule that)
  have cond: "\<not> of_nat (length (cstr (padded as))) + 1 > (of_nat n :: u32)"
    using assms(6) n k by (simp add: cstr_padded [OF assms(3)] word_less_nat_alt k_def unat_add_lem [THEN iffD1] unat_of_nat32)
  have "padded as ! 0 \<noteq> 0" using assms(3,4) by (cases as) (auto simp: padded_def nth_append)
  then have g: "getargs buf (int n) s = (0, s\<lparr>pmem := q\<rparr>)"
    using br cond n q(1) by (simp add: getargs_def assms(2) Let_def)
  then show "fst (getargs buf (int n) s) = 0"
    "\<exists>q. snd (getargs buf (int n) s) = s\<lparr>pmem := q\<rparr> \<and> own_frame p s q \<and>
       (\<forall>x \<in> main_region. n \<le> unat (x - buf) \<longrightarrow> vmem (s\<lparr>pmem := q\<rparr>) x = vmem s x)" using q by auto
  have "bytes_at (vmem (s\<lparr>pmem := q\<rparr>)) buf n = bytes_at (strncpy ?m buf OWN_ARGS (of_nat n)) buf n"
  proof (rule bytes_at_same)
    fix i assume i: "i < n"
    then have "unat (of_nat i :: u32) = i" using sm by (intro unat_of_nat32) simp
    moreover have "buf + of_nat i \<in> main_region" using assms(5) i by (simp add: user_range_def main_region_def)
    ultimately show "vmem (s\<lparr>pmem := q\<rparr>) (buf + of_nat i) = strncpy ?m buf OWN_ARGS (of_nat n) (buf + of_nat i)"
      using q(2) i by simp
  qed
  then show "bytes_at (vmem (snd (getargs buf (int n) s))) buf n = take 127 as @ replicate (n - length (take 127 as)) 0"
    using sb g by simp
qed


lemma getargs_refuses:
  assumes "args (cur_pcb s) = padded as" "0 \<notin> set as" "as = [] \<or> n \<le> length (take 127 as) \<or> drop_bit 22 buf \<noteq> 32"
    and "n < 2 ^ 32"
  shows "getargs buf (int n) s = (- 1, s)"
proof -
  have "padded as ! 0 = 0" if "as = []" using that by (simp add: padded_def)
  moreover have "of_nat (length (cstr (padded as))) + 1 > (of_nat n :: u32)" if "n \<le> length (take 127 as)"
  proof -
    define k where "k = length (take 127 as)"
    have "k \<le> 127" by (simp add: k_def)
    then have "unat (of_nat (k + 1) :: u32) = k + 1" by (intro unat_of_nat32) simp
    then have "(of_nat n :: u32) < of_nat (k + 1)"
      using that assms(4) unat_of_nat32 [of n] by (simp only: word_less_nat_alt k_def [symmetric])
    then show ?thesis by (simp add: cstr_padded [OF assms(2)] k_def add.commute)
  qed
  moreover note not_user_page [of buf]
  ultimately show ?thesis using assms(1,3) by (auto simp: getargs_def Let_def)
qed

lemma vidmap_maps:
  fixes s :: "'a kernel_scheme"
  assumes "runs_program s p" "user_range screen_start 4"
  defines "t \<equiv> snd (vidmap screen_start s)"
  shows "fst (vidmap screen_start s) = 0" "load32 (vmem t) screen_start = USER_VIDEO_MEM"
    "drop_bit 12 a = drop_bit 12 USER_VIDEO_MEM \<Longrightarrow> translate True t a = Some (page_join 12 VIDEO_MEM_ADDR a)"
    "drop_bit 12 a \<noteq> drop_bit 12 USER_VIDEO_MEM \<Longrightarrow> translate True t a = translate True s a"
    "sn_vid_map (sched_arr t (cur_sched_term s)) = 1" "pcb_vidmem (cur_pcb t) = 1"
proof -
  define u where "u = upd_sched (cur_sched_term s) (\<lambda>n. n\<lparr>sn_vid_map := 1\<rparr>) (upd_pcb (\<lambda>p. p\<lparr>pcb_vidmem := 1\<rparr>) s)"
  define v where "v = set_page_table2_entry USER_VIDEO_MEM VIDEO_MEM_ADDR u"
  have d: "drop_bit 22 (screen_start + of_nat i) = 32" if "i < 4" for i using assms(2) that by (simp add: user_range_def)
  have bb: "0x8000000 \<le> unat screen_start" "unat screen_start < 0x8400000"
    using user_page_bounds [of screen_start] d [of 0] by simp_all
  then have "screen_start \<noteq> 0" "\<not> screen_start < USER_PROG" "\<not> screen_start \<ge> USER_PROG + FOUR_MB"
    by (auto simp: word_less_nat_alt word_le_nat_alt)
  then have vm: "vidmap screen_start s = (0, store_range screen_start 4 (store32 screen_start USER_VIDEO_MEM (vmem v)) v)"
    by (simp add: vidmap_def Let_def u_def v_def upd_pcb_def)
  have "paging_wf s" using assms(1) by (simp add: runs_program_def)
  then have wu: "paging_wf u" by (simp add: u_def upd_sched_def upd_pcb_def paging_wf_def paging_on_def)
  have "page_directory v = page_directory s" by (simp add: v_def u_def upd_sched_def upd_pcb_def)
  moreover have "paging_wf v" unfolding v_def by (rule wf_set_table2 [OF wu])
  ultimately have rv: "runs_program v p" using assms(1) by (simp add: runs_program_def)
  obtain q where q: "store_range screen_start 4 (store32 screen_start USER_VIDEO_MEM (vmem v)) v = v\<lparr>pmem := q\<rparr>"
    "\<And>x. x \<in> main_region \<Longrightarrow> vmem (v\<lparr>pmem := q\<rparr>) x =
       (if unat (x - screen_start) < 4 then store32 screen_start USER_VIDEO_MEM (vmem v) x else vmem v x)"
    by (rule store_user [OF rv assms(2)]) (rule that)
  have t: "t = v\<lparr>pmem := q\<rparr>" by (simp add: t_def vm q(1))
  show "fst (vidmap screen_start s) = 0" by (simp add: vm)
  have "vmem t (screen_start + of_nat i) = store32 screen_start USER_VIDEO_MEM (vmem v) (screen_start + of_nat i)" if "i < 4" for i
  proof -
    have "screen_start + of_nat i \<in> main_region" using d [OF that] by (simp add: main_region_def)
    then show ?thesis using q(2) that by (simp add: t unat_of_nat32)
  qed
  from this [of 0] this [of 1] this [of 2] this [of 3]
  have "load32 (vmem t) screen_start = load32 (store32 screen_start USER_VIDEO_MEM (vmem v)) screen_start"
    by (intro load32_cong) simp_all
  then show "load32 (vmem t) screen_start = USER_VIDEO_MEM" by (simp only: load32_store32)
  have tr: "translate True t = translate True v" by (simp add: t fun_eq_iff translate_def table_at_def Let_def)
  show "translate True t a = Some (page_join 12 VIDEO_MEM_ADDR a)" if "drop_bit 12 a = drop_bit 12 USER_VIDEO_MEM"
    unfolding tr v_def using that by (intro user_video.look_inside [OF wu]) simp
  have "translate True u = translate True s"
    by (simp add: u_def upd_sched_def upd_pcb_def fun_eq_iff translate_def table_at_def Let_def)
  then show "translate True t a = translate True s a" if "drop_bit 12 a \<noteq> drop_bit 12 USER_VIDEO_MEM"
    unfolding tr v_def using that user_video.look_outside [OF wu] by simp
  show "sn_vid_map (sched_arr t (cur_sched_term s)) = 1" "pcb_vidmem (cur_pcb t) = 1"
    by (simp_all add: t v_def u_def upd_sched_def upd_pcb_def set_page_table2_entry_def cur_pcb_def get_pcb_add_def)
qed

section \<open>Properties\<close>

text \<open>\<open>getargs\<close> returns the arguments \<open>execute\<close> stored. A program with arguments gets exactly these,
  cut to 127 characters, and zeros in the rest of its buffer; without arguments, with a buffer too
  small for them and the terminating zero, or outside the program page, the call returns -1 and
  changes nothing.\<close>

theorem getargs_returns_arguments:
  fixes s :: "'a kernel_scheme"
  assumes "runs_program s p" "args (cur_pcb s) = take 127 as @ replicate (128 - min 127 (length as)) 0"
    and "0 \<notin> set as" "n < 2 ^ 31" "drop_bit 22 buf = 32 \<longrightarrow> user_range buf n"
  shows "if as = [] \<or> n \<le> length (take 127 as) \<or> drop_bit 22 buf \<noteq> 32 then getargs buf (int n) s = (- 1, s)
    else fst (getargs buf (int n) s) = 0 \<and>
      bytes_at (vmem (snd (getargs buf (int n) s))) buf n = take 127 as @ replicate (n - length (take 127 as)) 0"
proof -
  have a: "args (cur_pcb s) = padded as" using assms(2) by (simp add: padded_def)
  have n: "n < 2 ^ 32" using assms(4) by simp
  show ?thesis using getargs_copies [OF assms(1) a assms(3)] getargs_refuses [OF a assms(3) _ n] assms(5) by (auto simp: not_le)
qed

theorem getargs_returns_arguments_witness:
  "fst (getargs 0x8048000 16 (kernel1\<lparr>pcbs := \<lambda>_. pcb1\<lparr>args := [0x66, 0x6F] @ replicate 126 0\<rparr>\<rparr>)) = 0"
proof -
  let ?s = "kernel1\<lparr>pcbs := \<lambda>_. pcb1\<lparr>args := [0x66, 0x6F] @ replicate 126 0\<rparr>\<rparr>"
  have "runs_program ?s 1" using kernel1_runs by simp
  moreover have "args (cur_pcb ?s) = [0x66, 0x6F] @ replicate 126 0" by (simp add: cur_pcb_def)
  ultimately show ?thesis
    using getargs_returns_arguments [of ?s 1 "[0x66, 0x6F]" 16 "0x8048000"] demo_user_range [of 16] by simp
qed

text \<open>C33: \<open>vidmap\<close> gives a program the screen. The pointer it passes is set to 0x4500000, the program can
  use every address of that page and reaches the video memory through it, every other address
  translates as before, and the slot and the control block remember the mapping; a pointer outside
  the program page is refused and nothing changes.\<close>

theorem vidmap_maps_screen:
  fixes s :: "'a kernel_scheme"
  assumes "runs_program s p" "drop_bit 22 screen_start = 32 \<longrightarrow> user_range screen_start 4"
  defines "t \<equiv> snd (vidmap screen_start s)"
  shows "if drop_bit 22 screen_start \<noteq> 32 then vidmap screen_start s = (- 1, s)
    else fst (vidmap screen_start s) = 0 \<and> load32 (vmem t) screen_start = 0x4500000 \<and>
      (\<forall>a. translate True t a =
        (if drop_bit 12 a = 0x4500 then Some (page_join 12 0xB8000 a) else translate True s a)) \<and>
      sn_vid_map (sched_arr t (cur_sched_term s)) = 1 \<and> pcb_vidmem (cur_pcb t) = 1"
proof (cases "drop_bit 22 screen_start = 32")
  case True
  then show ?thesis using vidmap_maps [OF assms(1)] assms(2) by (simp add: t_def)
next
  case False
  have "screen_start < USER_PROG \<or> screen_start \<ge> USER_PROG + FOUR_MB" using False by (rule not_user_page)
  then show ?thesis using False by (auto simp: vidmap_def)
qed

theorem vidmap_maps_screen_witness: "translate True (snd (vidmap 0x8048000 kernel1)) 0x4500010 = Some 0xB8010"
proof -
  have "translate True (snd (vidmap 0x8048000 kernel1)) 0x4500010 = Some (page_join 12 0xB8000 0x4500010)"
    using vidmap_maps_screen [OF kernel1_runs, of "0x8048000"] demo_user_range [of 4] by simp
  then show ?thesis by (simp add: page_join_def)
qed

end
