(* ===== verification/Stacks.thy ===== *)
theory Stacks
  imports Programs
begin

text \<open>
  The process table as three stacks of processes, one per terminal: the bottom is the terminal's
  shell, the top the process that runs, each waits in \<open>execute\<close> for the one above it. \<open>launch\<close>
  creates the stacks, \<open>execute\<close> pushes the lowest free process number on the stack of the scheduled
  terminal, \<open>halt\<close> pops it; every other operation leaves them alone.
\<close>

section \<open>The abstract state\<close>

type_synonym stacks = "int \<Rightarrow> int list"

definition all_procs :: "stacks \<Rightarrow> int list" where
  "all_procs cs = cs 0 @ cs 1 @ cs 2"

definition lowest_free :: "stacks \<Rightarrow> int option" where
  "lowest_free cs = find (\<lambda>p. p \<notin> set (all_procs cs)) [1..6]"

text \<open>The control blocks of a stack: each has its own number and returns to the one below.\<close>

fun linked :: "(addr \<Rightarrow> pcb) \<Rightarrow> int list \<Rightarrow> bool" where
  "linked b [] = True"
| "linked b [p] = (pid (b (pcb_addr p)) = p)"
| "linked b (p # q # ps) =
     (pid (b (pcb_addr p)) = p \<and> parent_pid (b (pcb_addr p)) = q \<and>
      parent_esp (b (pcb_addr p)) = kernel_stack_top q \<and> linked b (q # ps))"

definition stack_ok :: "'a kernel_scheme \<Rightarrow> int \<Rightarrow> int list \<Rightarrow> bool" where
  "stack_ok s k ps \<longleftrightarrow>
     ps \<noteq> [] \<and> hd ps = sn_process_num (sched_arr s k) \<and> last ps = k + 1 \<and> linked (pcbs s) ps"

definition procs :: "'a kernel_scheme \<Rightarrow> stacks \<Rightarrow> bool" where
  "procs s cs \<longleftrightarrow>
     (\<forall>k. term_no k \<longrightarrow> stack_ok s k (cs k)) \<and> distinct (all_procs cs) \<and> set (all_procs cs) \<subseteq> {1..6} \<and>
     (\<forall>i. 0 \<le> i \<and> i < 6 \<longrightarrow> process_array s i = (if i + 1 \<in> set (all_procs cs) then 1 else - 1)) \<and>
     process_num s = int (length (all_procs cs))"

section \<open>Basic facts\<close>

lemma in_all_procs: "term_no k \<Longrightarrow> p \<in> set (cs k) \<Longrightarrow> p \<in> set (all_procs cs)"
  by (auto simp: all_procs_def elim!: term_no_cases)

lemma procs_range: "procs s cs \<Longrightarrow> term_no k \<Longrightarrow> p \<in> set (cs k) \<Longrightarrow> 1 \<le> p \<and> p \<le> 6"
  using in_all_procs [of k p cs] by (auto simp: procs_def)

lemma linked_cong:
  assumes "\<And>p. p \<in> set ps \<Longrightarrow> pid (b' (pcb_addr p)) = pid (b (pcb_addr p)) \<and>
      parent_pid (b' (pcb_addr p)) = parent_pid (b (pcb_addr p)) \<and>
      parent_esp (b' (pcb_addr p)) = parent_esp (b (pcb_addr p))"
  shows "linked b' ps = linked b ps"
  using assms by (induction b ps rule: linked.induct) simp_all

lemma procs_cong:
  assumes "procs s cs" "process_num t = process_num s" "process_array t = process_array s"
    and "\<And>k. sn_process_num (sched_arr t k) = sn_process_num (sched_arr s k)"
    and "\<And>a. pid (pcbs t a) = pid (pcbs s a) \<and> parent_pid (pcbs t a) = parent_pid (pcbs s a) \<and>
      parent_esp (pcbs t a) = parent_esp (pcbs s a)"
  shows "procs t cs"
proof -
  have "linked (pcbs t) ps = linked (pcbs s) ps" for ps by (rule linked_cong) (use assms(5) in blast)
  then show ?thesis using assms(1) by (simp add: procs_def stack_ok_def assms(2-4))
qed

lemma own_fds_procs:
  assumes "own_fds_only s t" "procs s cs"
  shows "procs t cs"
proof (rule procs_cong [OF assms(2)])
  have c: "core_of t = core_of s" using assms(1) by (simp add: own_fds_only_def)
  then have g: "get_pcb_add t = get_pcb_add s" "sched_arr t = sched_arr s"
    by (simp_all add: core_of_def get_pcb_add_def)
  then show "sn_process_num (sched_arr t k) = sn_process_num (sched_arr s k)" for k by simp
  show "pid (pcbs t a) = pid (pcbs s a) \<and> parent_pid (pcbs t a) = parent_pid (pcbs s a) \<and>
      parent_esp (pcbs t a) = parent_esp (pcbs s a)" for a
  proof (cases "a = get_pcb_add s")
    case True
    obtain f where "cur_pcb t = (cur_pcb s)\<lparr>fdt := f\<rparr>" using assms(1) by (auto simp: own_fds_only_def)
    then show ?thesis using True by (simp add: cur_pcb_def g)
  next
    case False
    then show ?thesis using assms(1) by (simp add: own_fds_only_def)
  qed
qed (use assms(1) in \<open>simp_all add: own_fds_only_def\<close>)

text \<open>The number \<open>execute\<close> takes.\<close>

lemma free_slot_lowest:
  assumes "procs s cs"
  shows "map_option (\<lambda>i. i + 1) (free_slot s) = lowest_free cs"
proof -
  have e: "(process_array s i = - 1) = (i + 1 \<notin> set (all_procs cs))" if "0 \<le> i" "i < 6" for i
    using assms that by (simp add: procs_def)
  have "find (\<lambda>i. process_array s i = - 1) [0..5] = find (\<lambda>i. i + 1 \<notin> set (all_procs cs)) [0..5]"
    using e by (intro find_cong) auto
  moreover have "map_option (\<lambda>i. i + 1) (find (\<lambda>i. P (i + 1)) [0..5]) = find P [1..6]" for P :: "int \<Rightarrow> bool"
    by (simp add: upto.simps)
  ultimately show ?thesis by (simp add: free_slot_def lowest_free_def)
qed

lemma lowest_free_props:
  assumes "lowest_free cs = Some p"
  shows "1 \<le> p" "p \<le> 6" "p \<notin> set (all_procs cs)"
proof -
  have "p \<in> set [1..6]" "p \<notin> set (all_procs cs)"
    using assms unfolding lowest_free_def find_Some_iff by (metis nth_mem)+
  then show "1 \<le> p" "p \<le> 6" "p \<notin> set (all_procs cs)" by auto
qed

lemma lowest_free_exists:
  assumes "procs s cs" "process_num s < 6"
  obtains p where "lowest_free cs = Some p"
proof (cases "lowest_free cs")
  case None
  then have "\<forall>p \<in> set [1..6]. p \<in> set (all_procs cs)" unfolding lowest_free_def find_None_iff by blast
  then have "{1..6} \<subseteq> set (all_procs cs)" by auto
  then have "card {1..6 :: int} \<le> card (set (all_procs cs))" by (intro card_mono) simp_all
  moreover have "card (set (all_procs cs)) = length (all_procs cs)"
    using assms(1) by (intro distinct_card) (simp add: procs_def)
  ultimately show thesis using assms by (simp add: procs_def)
qed (rule that)

section \<open>Pushing and popping\<close>

lemma distinct_stacks:
  "distinct (all_procs cs) \<Longrightarrow> term_no j \<Longrightarrow> term_no k \<Longrightarrow> j \<noteq> k \<Longrightarrow> p \<in> set (cs j) \<Longrightarrow> p \<notin> set (cs k)"
  by (elim term_no_cases) (auto simp: all_procs_def)

lemma set_push: "term_no c \<Longrightarrow> set (all_procs (cs(c := p # cs c))) = insert p (set (all_procs cs))"
  by (elim term_no_cases) (auto simp: all_procs_def)

lemma push_all:
  assumes "term_no c"
  shows "length (all_procs (cs(c := p # cs c))) = Suc (length (all_procs cs))"
    "distinct (all_procs (cs(c := p # cs c))) \<longleftrightarrow> distinct (all_procs cs) \<and> p \<notin> set (all_procs cs)"
  using assms by (elim term_no_cases; auto simp: all_procs_def)+

lemma procs_push:
  fixes s :: "'a kernel_scheme"
  assumes "procs s cs" "term_no c" "lowest_free cs = Some p"
    and "process_num t = process_num s + 1" "process_array t = (process_array s)(p - 1 := 1)"
    and "sched_arr t = (sched_arr s)(c := n)" "sn_process_num n = p"
    and "pcbs t = (pcbs s)(pcb_addr p := b)" "pid b = p" "parent_pid b = sn_process_num (sched_arr s c)"
    "parent_esp b = kernel_stack_top (sn_process_num (sched_arr s c))"
  shows "procs t (cs(c := p # cs c))"
proof -
  note p = lowest_free_props [OF assms(3)]
  have other: "linked (pcbs t) (cs k) = linked (pcbs s) (cs k)" if "term_no k" for k
  proof (rule linked_cong)
    fix x assume x: "x \<in> set (cs k)"
    then have "x \<noteq> p" using in_all_procs [of k x cs] that x p(3) by auto
    then have "pcb_addr x \<noteq> pcb_addr p" using procs_range [OF assms(1), of k x] that x p by (simp add: pcb_addr_inj)
    then show "pid (pcbs t (pcb_addr x)) = pid (pcbs s (pcb_addr x)) \<and>
        parent_pid (pcbs t (pcb_addr x)) = parent_pid (pcbs s (pcb_addr x)) \<and>
        parent_esp (pcbs t (pcb_addr x)) = parent_esp (pcbs s (pcb_addr x))" by (simp add: assms(8))
  qed
  have so: "stack_ok s k (cs k)" if "term_no k" for k using assms(1) that by (simp add: procs_def)
  have "linked (pcbs t) (p # cs c)"
  proof (cases "cs c")
    case Nil
    then show ?thesis using so [OF assms(2)] by (simp add: stack_ok_def)
  next
    case (Cons q qs)
    then have "q = sn_process_num (sched_arr s c)" using so [OF assms(2)] by (simp add: stack_ok_def)
    then show ?thesis
      using Cons other [OF assms(2)] so [OF assms(2)] by (simp add: stack_ok_def assms(8-11))
  qed
  then have "stack_ok t k ((cs(c := p # cs c)) k)" if "term_no k" for k
    using so [OF that] other [OF that] by (auto simp: stack_ok_def assms(6,7))
  then show ?thesis
    using assms(1) p push_all [OF assms(2), where cs = cs and p = p]
    by (auto simp: procs_def set_push [OF assms(2)] assms(4,5))
qed

lemma pop_all:
  assumes "term_no c" "cs c = p # q # ps" "distinct (all_procs cs)"
  shows "length (all_procs (cs(c := q # ps))) + 1 = length (all_procs cs)"
    "distinct (all_procs (cs(c := q # ps)))" "set (all_procs (cs(c := q # ps))) = set (all_procs cs) - {p}"
  using assms by (elim term_no_cases; auto simp: all_procs_def)+

lemma procs_pop:
  fixes s :: "'a kernel_scheme"
  assumes "procs s cs" "term_no c" "cs c = p # q # ps"
    and "process_num t = process_num s - 1" "process_array t = (process_array s)(p - 1 := - 1)"
    and "sched_arr t = (sched_arr s)(c := n)" "sn_process_num n = q" "pcbs t = pcbs s"
  shows "procs t (cs(c := q # ps))"
proof -
  have d: "distinct (all_procs cs)" using assms(1) by (simp add: procs_def)
  note a = pop_all [OF assms(2,3) d]
  have so: "stack_ok s k (cs k)" if "term_no k" for k using assms(1) that by (simp add: procs_def)
  have "linked (pcbs s) (q # ps)" using so [OF assms(2)] by (simp add: stack_ok_def assms(3))
  then have "stack_ok t k ((cs(c := q # ps)) k)" if "term_no k" for k
    using so [OF that] so [OF assms(2)] by (auto simp: stack_ok_def assms(3,6,7,8))
  moreover have "process_array t i = (if i + 1 \<in> set (all_procs (cs(c := q # ps))) then 1 else - 1)"
    if "0 \<le> i" "i < 6" for i
    using assms(1) that by (auto simp: a(3) assms(5) procs_def)
  ultimately show ?thesis
    using assms(1) a by (auto simp: procs_def assms(4))
qed

section \<open>execute\<close>

lemma command_name_props:
  "command_name command i s = Some xs \<Longrightarrow> 0 \<notin> set xs \<and> 0x20 \<notin> set xs \<and> length xs \<le> 32 - i"
proof (induction command i s arbitrary: xs rule: command_name.induct)
  case (1 command i s)
  from 1(2) show ?case
    by (subst (asm) command_name.simps) (auto split: option.splits if_splits dest: 1(1))
qed

lemma procs_flags:
  "procs s cs \<Longrightarrow> procs (s\<lparr>iflag := b\<rparr>) cs" "procs s cs \<Longrightarrow> procs (s\<lparr>fault := f\<rparr>) cs"
  by (rule procs_cong; simp)+

lemma procs_num: "procs s cs \<Longrightarrow> 3 \<le> process_num s"
proof -
  assume p: "procs s cs"
  have "cs k \<noteq> []" if "term_no k" for k using p that by (simp add: procs_def stack_ok_def)
  from this [of 0] this [of 1] this [of 2]
  have "1 \<le> length (cs 0)" "1 \<le> length (cs 1)" "1 \<le> length (cs 2)"
    by (simp_all add: term_no_def Suc_le_eq)
  then have "3 \<le> length (all_procs cs)" by (simp add: all_procs_def)
  then show ?thesis using p by (simp add: procs_def)
qed

text \<open>Every outcome of \<open>execute\<close>: it fails with -1, or it starts the lowest free process.\<close>

lemma execute_outcome:
  fixes s :: "'a kernel_scheme"
  assumes "procs s cs" "files_ok s" "paging_wf s" "length (ELF_buf0 l) = 32"
  obtains b f where "execute l command s = Returns (- 1) (s\<lparr>iflag := b, fault := f\<rparr>)" "fault s \<longrightarrow> f"
  | p as m name j inode where "lowest_free cs = Some p" "process_num s < 6"
      "execute l command s = start_program l as m (s\<lparr>iflag := False\<rparr>)"
      "start_program l as m (s\<lparr>iflag := False\<rparr>) =
        Enters (load32 m (LOCAL_ELF + 24)) (started l as p (pmem (snd (vread_data inode 0 PROG_START MAX_PROG_SIZE
          (mapped_for p (s\<lparr>iflag := False\<rparr>))))) (s\<lparr>iflag := False\<rparr>))"
      "inode < num_inodes (vmem s) (fs_start s)" "inode_num m LOCAL_DENTRY = inode"
proof (cases "process_num s \<ge> 6")
  case True
  then have "execute l command s = Returns (- 1) (s\<lparr>iflag := iflag s, fault := fault s\<rparr>)" by (simp add: execute_def)
  then show thesis by (rule that(1)) simp
next
  case False
  define t where "t = s\<lparr>iflag := False\<rparr>"
  have t: "procs t cs" "files_ok t" "paging_wf t" "process_num t < 6" "fs_start t = fs_start s" "vmem t = vmem s"
    using assms False by (simp_all add: t_def procs_flags)
  have ex: "execute l command s = (case command_name command 0 t of
             None \<Rightarrow> Returns (- 1) (raise_fault t)
           | Some name \<Rightarrow>
               (case read_header (fs_start t) l LOCAL_NAME (put_bytes LOCAL_NAME (name @ [0]) (vmem t)) of
                  None \<Rightarrow> Waits
                | Some (Inl _) \<Rightarrow> Returns (- 1) (sti t)
                | Some (Inr m) \<Rightarrow>
                    (case skip_spaces (command + of_nat (length name)) t of
                       None \<Rightarrow> Returns (- 1) (raise_fault t)
                     | Some a \<Rightarrow>
                         (case command_args a 0 t of
                            None \<Rightarrow> Returns (- 1) (raise_fault t)
                          | Some xs \<Rightarrow> start_program l (args_of xs m) m t))))"
    unfolding t_def using False procs_num [OF assms(1)] by (simp add: execute_def cli_def Let_def)
  have fl: "raise_fault t = s\<lparr>iflag := False, fault := True\<rparr>" "sti t = s\<lparr>iflag := True, fault := fault s\<rparr>"
    by (simp_all add: t_def raise_fault_def sti_def)
  show thesis
  proof (cases "command_name command 0 t")
    case None
    then have "execute l command s = Returns (- 1) (raise_fault t)" using ex by simp
    then show thesis unfolding fl(1) by (rule that(1)) simp
  next
    case (Some name)
    note nm = command_name_props [OF Some]
    show thesis
    proof (rule read_header_cases [OF t(2), of name l])
      show "0 \<notin> set name" "length name \<le> 32" "length (ELF_buf0 l) = 32" using nm assms(4) by simp_all
      assume "read_header (fs_start t) l LOCAL_NAME (put_bytes LOCAL_NAME (name @ [0]) (vmem t)) = Some (Inl ())"
      then have "execute l command s = Returns (- 1) (sti t)" using Some ex by simp
      then show thesis unfolding fl(2) by (rule that(1)) simp
    next
      fix j m inode
      assume h: "inode < num_inodes (vmem t) (fs_start t)" "inode_num m LOCAL_DENTRY = inode"
        "read_header (fs_start t) l LOCAL_NAME (put_bytes LOCAL_NAME (name @ [0]) (vmem t)) =
          (if is_elf m then Some (Inr m) else Some (Inl ()))"
      obtain p where p: "lowest_free cs = Some p" using lowest_free_exists [OF t(1,4)] .
      note pr = lowest_free_props [OF p]
      have fr: "free_slot t = Some (p - 1)"
        using free_slot_lowest [OF t(1)] p by (cases "free_slot t") auto
      have "image_ok t" using t(2) by (simp add: files_ok_def)
      then have "inode_num m LOCAL_DENTRY < num_inodes (vmem (mapped_for p t)) (fs_start t)"
        using local_view_image(2) [OF _ mapped_view [OF t(3) pr(1,2)]] h by simp
      note st = start_program_step [OF t(3) fr pr(1,2) this, of l, unfolded h(2)]
      show thesis
      proof (cases "execute l command s = Returns (- 1) (raise_fault t) \<or> execute l command s = Returns (- 1) (sti t)")
        case True
        then show thesis unfolding fl using that(1) by (metis (full_types))
      next
        case False
        then obtain as where as: "execute l command s = start_program l as m t"
          using ex Some h(3) by (auto split: option.splits if_splits)
        show thesis
          by (rule that(2) [OF p _ as [unfolded t_def] st [of as, unfolded t_def]])
            (use t h \<open>\<not> 6 \<le> process_num s\<close> in auto)
      qed
    qed
  qed
qed

lemma started_procs:
  assumes "procs s cs" "term_no (cur_sched_term s)" "lowest_free cs = Some p"
  shows "procs (started l as p q s) (cs(cur_sched_term s := p # cs (cur_sched_term s)))"
  by (rule procs_push [OF assms, where n = "(sched_arr s (cur_sched_term s))\<lparr>sn_process_num := p\<rparr>"
        and b = "(pcb0 l)\<lparr>pid := p, parent_pid := sn_process_num (sched_arr s (cur_sched_term s)),
          parent_esp := kernel_stack_top (sn_process_num (sched_arr s (cur_sched_term s))), parent_ebp := ebp s,
          fdt := init_fdt (fdt (pcb0 l)), args := as, pcb_vidmem := 0\<rparr>"])
    (simp_all add: started_def Let_def)

section \<open>halt\<close>

lemma close_all_frame:
  fixes s :: "'a kernel_scheme"
  shows "own_fds_only s (close_all s)"
proof -
  have "do_call (Close i) = (\<lambda>s :: 'a kernel_scheme. snd (sys_close i s))" for i by (simp add: fun_eq_iff)
  then have "close_all s = fold do_call (map Close [0..MAX_FD_NUM]) s"
    by (simp add: close_all_def fold_map comp_def)
  then show ?thesis using fd_calls.frame_run by metis
qed

lemma stack_top:
  assumes "procs s cs" "term_no c"
  obtains "cs c = [c + 1]" | q ps where "cs c = hd (cs c) # q # ps" "hd (cs c) \<notin> {1, 2, 3}"
proof (cases "cs c" rule: remdups_adj.cases)
  case 1
  then show thesis using assms by (auto simp: procs_def stack_ok_def)
next
  case (2 x)
  then have "x = c + 1" using assms by (auto simp: procs_def stack_ok_def)
  with 2 show thesis using that(1) by simp
next
  case (3 x y xs)
  have d: "distinct (all_procs cs)" using assms(1) by (simp add: procs_def)
  have "x \<notin> {1, 2, 3}"
  proof
    assume "x \<in> {1, 2, 3}"
    then have k: "term_no (x - 1)" by (auto simp: term_no_def)
    then have l: "cs (x - 1) \<noteq> []" "last (cs (x - 1)) = x" using assms(1) by (simp_all add: procs_def stack_ok_def)
    then have m: "x \<in> set (cs (x - 1))" by (metis last_in_set)
    show False
    proof (cases "x - 1 = c")
      case True
      have "distinct (cs c)" using d assms(2) by (elim term_no_cases) (simp_all add: all_procs_def)
      moreover have "last (y # xs) = x" using l(2) True 3 by simp
      ultimately show False using 3 last_in_set [of "y # xs"] by auto
    next
      case False
      then show False using distinct_stacks [OF d k assms(2)] m 3 by auto
    qed
  qed
  with 3 show thesis using that(2) by simp
qed

lemma halt_shell:
  assumes "pid (cur_pcb s) \<in> {1, 2, 3}"
  shows "halt status s = Enters (program_addr_test s) (s\<lparr>iflag := True, esp := USER_ESP\<rparr>)"
  using assms by (auto simp: halt_def context_switch_def)

text \<open>The state a process other than a shell leaves behind.\<close>

definition halted :: "pcb \<Rightarrow> 'a kernel_scheme \<Rightarrow> 'a kernel_scheme" where
  "halted p s =
     (let c = cur_sched_term s in
      s\<lparr>process_num := process_num s - 1, process_array := (process_array s)(pid p - 1 := - 1),
        tss_esp0 := parent_esp p, page_directory := (page_directory s)(32 := prog_frame (parent_pid p) OR 0x087),
        sched_arr := (sched_arr s)(c := (sched_arr s c)\<lparr>sn_process_num := parent_pid p,
          sn_esp := parent_esp p, sn_ebp := parent_ebp p,
          sn_vid_map := if pcb_vidmem p \<noteq> 0 then 0 else sn_vid_map (sched_arr s c)\<rparr>)\<rparr>)"

lemma halt_eq:
  fixes s :: "'a kernel_scheme"
  assumes "pid (cur_pcb s) \<notin> {1, 2, 3}"
  shows "halt status s = Returns (uint status) (leave_to (parent_ebp (cur_pcb s)) (halted (cur_pcb s) (close_all s)))"
proof -
  have o: "own_fds_only s (close_all s)" by (rule close_all_frame)
  then obtain f where f: "cur_pcb (close_all s) = (cur_pcb s)\<lparr>fdt := f\<rparr>" by (auto simp: own_fds_only_def)
  have "pcbs (s\<lparr>process_num := n\<rparr>) = pcbs s" "get_pcb_add (s\<lparr>process_num := n\<rparr>) = get_pcb_add s" for n and s :: "'a kernel_scheme"
    by (simp_all add: get_pcb_add_def)
  then have c: "cur_pcb (s\<lparr>process_num := n\<rparr>) = cur_pcb s" for n and s :: "'a kernel_scheme" by (simp add: cur_pcb_def)
  show ?thesis
    using assms unfolding halt_def
    by (simp add: Let_def c f) (auto simp: halted_def Let_def upd_sched_def set_page_dir_entry_def
      intro!: arg_cong [where f = "leave_to _"] kernel.equality)
qed

lemma halt_process:
  fixes s :: "'a kernel_scheme"
  assumes "pid (cur_pcb s) \<notin> {1, 2, 3}"
  obtains t where "halt status s = Returns (uint status) (leave_to (parent_ebp (cur_pcb s)) (halted (cur_pcb s) t))"
    "own_fds_only s t"
  by (rule that [OF halt_eq [OF assms] close_all_frame])

lemma halt_outcome:
  fixes s :: "'a kernel_scheme"
  assumes "procs s cs" "term_no (cur_sched_term s)" "get_pcb_add s = pcb_addr (hd (cs (cur_sched_term s)))"
  defines "c \<equiv> cur_sched_term s"
  obtains "cs c = [c + 1]" "halt status s = Enters (program_addr_test s) (s\<lparr>iflag := True, esp := USER_ESP\<rparr>)"
      "procs (s\<lparr>iflag := True, esp := USER_ESP\<rparr>) cs"
  | q ps t where "cs c = hd (cs c) # q # ps" "halt status s = Returns (uint status) t" "procs t (cs(c := q # ps))"
      "runs_process t q" "esp t = parent_ebp (cur_pcb s) + 8" "ebp t = load32 (vmem t) (parent_ebp (cur_pcb s))"
proof -
  have tc: "term_no c" using assms(2) by (simp add: c_def)
  have lk: "linked (pcbs s) (cs c)" "cs c \<noteq> []" using assms(1) tc by (simp_all add: procs_def stack_ok_def)
  have hp: "pid (cur_pcb s) = hd (cs c)"
    using lk assms(3) by (cases "cs c" rule: remdups_adj.cases) (simp_all add: cur_pcb_def c_def)
  from stack_top [OF assms(1) tc] show thesis
  proof cases
    case 1
    then have "pid (cur_pcb s) \<in> {1, 2, 3}" using hp tc by (auto simp: term_no_def)
    note h = halt_shell [OF this, of status]
    have "procs (s\<lparr>iflag := True, esp := USER_ESP\<rparr>) cs" by (rule procs_cong [OF assms(1)]) simp_all
    then show thesis by (rule that(1) [OF 1 h])
  next
    case (2 q ps)
    then have np: "pid (cur_pcb s) \<notin> {1, 2, 3}" using hp by simp
    obtain t where t: "halt status s = Returns (uint status) (leave_to (parent_ebp (cur_pcb s)) (halted (cur_pcb s) t))"
      "own_fds_only s t" by (rule halt_process [OF np])
    define u where "u = leave_to (parent_ebp (cur_pcb s)) (halted (cur_pcb s) t)"
    have par: "parent_pid (cur_pcb s) = q" "parent_esp (cur_pcb s) = kernel_stack_top q"
      using lk(1) 2(1) assms(3) unfolding cur_pcb_def c_def [symmetric] by (metis linked.simps(3))+
    have pt: "procs t cs" by (rule own_fds_procs [OF t(2) assms(1)])
    have ct: "cur_sched_term t = c" using t(2) by (simp add: own_fds_only_def core_of_def c_def)
    have "procs u (cs(c := q # ps))"
      by (rule procs_pop [OF pt tc 2(1), where n = "sched_arr u c"])
        (simp_all add: u_def leave_to_def halted_def Let_def ct hp par)
    moreover have "runs_process u q" "esp u = parent_ebp (cur_pcb s) + 8"
      by (simp_all add: u_def leave_to_def halted_def Let_def par runs_process_def)
    moreover have "vmem (s\<lparr>ebp := e, esp := f\<rparr>) = vmem s" for e f and s :: "'a kernel_scheme"
      by (simp add: fun_eq_iff vmem_def kload_def)
    then have "ebp u = load32 (vmem u) (parent_ebp (cur_pcb s))" by (simp add: u_def leave_to_def)
    ultimately show thesis using t(1) 2(1) by (intro that(2)) (simp_all add: u_def)
  qed
qed

text \<open>The stack pointer lies in the 8 kB block of a process.\<close>

definition in_stack :: "int \<Rightarrow> u32 \<Rightarrow> bool" where
  "in_stack p a \<longleftrightarrow> 0 < kernel_stack_top p - a \<and> kernel_stack_top p - a \<le> EIGHT_KB"

lemma pcb_of_stack: "1 \<le> p \<Longrightarrow> p \<le> 6 \<Longrightarrow> in_stack p (esp s) \<Longrightarrow> get_pcb_add s = pcb_addr p"
  using pcb_addr_kernel_stack [of p "kernel_stack_top p - esp s"] by (simp add: in_stack_def get_pcb_add_def)

lemma hd_stack_range:
  assumes "procs s cs" "term_no c"
  shows "1 \<le> hd (cs c)" "hd (cs c) \<le> 6" "hd (cs c) = sn_process_num (sched_arr s c)"
proof -
  have so: "stack_ok s c (cs c)" using assms by (simp add: procs_def)
  then show "hd (cs c) = sn_process_num (sched_arr s c)" by (simp add: stack_ok_def)
  have "hd (cs c) \<in> set (cs c)" using so unfolding stack_ok_def by (metis hd_in_set)
  then show "1 \<le> hd (cs c)" "hd (cs c) \<le> 6" using procs_range [OF assms] by blast+
qed

section \<open>launch\<close>

text \<open>One shell loaded: slot and page taken.\<close>

definition shelled :: "int \<Rightarrow> mem \<Rightarrow> 'a kernel_scheme \<Rightarrow> 'a kernel_scheme" where
  "shelled i q s =
     s\<lparr>pmem := q, page_directory := (page_directory s)(32 := prog_frame (i + 1) OR 0x087),
       process_array := (process_array s)(i := 1)\<rparr>"

lemma load_shell_step:
  fixes s :: "'a kernel_scheme"
  assumes "paging_wf s" "files_ok s" "0 \<le> i" "i \<le> 2" "inode < num_inodes (vmem s) (fs_start s)"
  obtains q where "load_shell inode i s = (True, shelled i q s)" "paging_wf (shelled i q s)"
    "files_ok (shelled i q s)" "inode < num_inodes (vmem (shelled i q s)) (fs_start (shelled i q s))"
proof -
  define t where "t = set_page_dir_entry USER_PROG (prog_frame (i + 1)) s"
  have i: "1 \<le> i + 1" "i + 1 \<le> 6" using assms(3,4) by simp_all
  have fr: "EIGHT_MB + word_of_int i * FOUR_MB = prog_frame (i + 1)" by (simp add: prog_frame_def)
  have r: "runs_program t (i + 1)" unfolding t_def by (rule map_program [OF assms(1) i])
  have v: "local_view s (vmem t)"
    unfolding t_def local_view_def by (intro allI impI) (rule map_program(2) [OF assms(1) i])
  have fs: "fs_start t = fs_start s" by (simp add: t_def set_page_dir_entry_def)
  have io: "image_ok s" using assms(2) by (simp add: files_ok_def)
  have "inode < num_inodes (vmem t) (fs_start t)" using assms(5) local_view_image(2) [OF io v] by (simp add: fs)
  then obtain q where
    q0: "vread_data inode 0 PROG_START MAX_PROG_SIZE t =
      (if MAX_PROG_SIZE > file_size (vmem t) (fs_start t) inode then file_size (vmem t) (fs_start t) inode
       else MAX_PROG_SIZE, t\<lparr>pmem := q\<rparr>)"
      "\<And>a. drop_bit 22 a = 1 \<Longrightarrow> vmem (t\<lparr>pmem := q\<rparr>) a = vmem t a"
    by (rule vread_program [OF r]) (rule that)
  define z where "z = (if MAX_PROG_SIZE > file_size (vmem t) (fs_start t) inode then file_size (vmem t) (fs_start t) inode
       else MAX_PROG_SIZE)"
  have q: "vread_data inode 0 PROG_START MAX_PROG_SIZE t = (z, t\<lparr>pmem := q\<rparr>)" "z \<le> MAX_PROG_SIZE"
      "\<And>a. drop_bit 22 a = 1 \<Longrightarrow> vmem (t\<lparr>pmem := q\<rparr>) a = vmem t a"
    using q0 by (auto simp: z_def)
  have z: "z \<noteq> - 1" using q(2) by (auto simp: word_le_nat_alt unsigned_minus_1_eq_mask mask_eq_exp_minus_1)
  have sh: "shelled i q s = t\<lparr>pmem := q, process_array := (process_array s)(i := 1)\<rparr>"
    by (simp add: shelled_def t_def set_page_dir_entry_def)
  have "load_shell inode i s = (True, shelled i q s)"
    unfolding load_shell_def fr t_def [symmetric] Let_def q(1) using z
    by (simp add: sh) (simp add: t_def set_page_dir_entry_def)
  moreover have "paging_wf (shelled i q s)" using r by (simp add: sh runs_program_def)
  moreover have "vmem (shelled i q s) = vmem (t\<lparr>pmem := q\<rparr>)" by (simp only: sh array_frame)
  then have lv: "local_view s (vmem (shelled i q s))" using v q(3) by (simp add: local_view_def)
  have fs': "fs_start (shelled i q s) = fs_start s" by (simp add: shelled_def)
  note f = files_ok_same [OF assms(2) fs' lv]
  ultimately show thesis using f assms(5) by (intro that [of q]) simp_all
qed

lemma load_shells_all:
  fixes s :: "'a kernel_scheme"
  assumes "paging_wf s" "files_ok s" "inode < num_inodes (vmem s) (fs_start s)"
  obtains q where "load_shells inode [2, 1, 0] s =
    (True, s\<lparr>pmem := q, page_directory := (page_directory s)(32 := prog_frame 1 OR 0x087),
       process_array := (process_array s)(2 := 1, 1 := 1, 0 := 1)\<rparr>)"
proof -
  obtain a where a: "load_shell inode 2 s = (True, shelled 2 a s)" "paging_wf (shelled 2 a s)" "files_ok (shelled 2 a s)"
    "inode < num_inodes (vmem (shelled 2 a s)) (fs_start (shelled 2 a s))"
    by (rule load_shell_step [OF assms(1,2) _ _ assms(3), of 2]) simp_all
  obtain b where b: "load_shell inode 1 (shelled 2 a s) = (True, shelled 1 b (shelled 2 a s))"
    "paging_wf (shelled 1 b (shelled 2 a s))" "files_ok (shelled 1 b (shelled 2 a s))"
    "inode < num_inodes (vmem (shelled 1 b (shelled 2 a s))) (fs_start (shelled 1 b (shelled 2 a s)))"
    by (rule load_shell_step [OF a(2,3) _ _ a(4), of 1]) simp_all
  obtain c where c: "load_shell inode 0 (shelled 1 b (shelled 2 a s)) = (True, shelled 0 c (shelled 1 b (shelled 2 a s)))"
    by (rule load_shell_step [OF b(2,3) _ _ b(4), of 0]) simp_all
  show thesis
    using a(1) b(1) c by (intro that [of c]) (simp add: shelled_def)
qed

lemma launch_outcome:
  fixes s :: "'a kernel_scheme"
  assumes "paging_wf s" "files_ok s" "length (ELF_buf0 l) = 32" "\<And>k. term_no k \<Longrightarrow> sn_process_num (sched_arr s k) = k + 1"
  defines "h \<equiv> read_header (fs_start s) l LOCAL_NAME (put_bytes LOCAL_NAME (shell_name @ [0]) (vmem s))"
  obtains t where "launch l s = Returns (- 1) t" "h = Some (Inl ())"
  | m a t where "h = Some (Inr m)" "a = load32 m (LOCAL_ELF + 24)"
      "launch l s = Enters a t" "procs t (\<lambda>k. [k + 1])" "paging_wf t" "runs_process t 1" "prev_sched_term t = 0"
      "program_addr_test t = a" "sched_arr t = sched_arr s" "cur_sched_term t = cur_sched_term s"
      "fault t = fault s"
proof -
  define u where "u = free_slots (cli s)"
  have u: "paging_wf u" "vmem u = vmem s" "fs_start u = fs_start s" "sched_arr u = sched_arr s" "cur_sched_term u = cur_sched_term s"
    "fault u = fault s"
    using assms(1) by (simp_all add: u_def free_slots_def cli_def)
  have fu: "files_ok u" using assms(2) by (intro files_ok_same [OF assms(2) u(3)]) (simp add: local_view_def u)
  have la: "launch l s = (case read_header (fs_start u) l LOCAL_NAME (put_bytes LOCAL_NAME (shell_name @ [0]) (vmem u)) of
        None \<Rightarrow> Waits
      | Some (Inl _) \<Rightarrow> Returns (- 1) (sti u)
      | Some (Inr m) \<Rightarrow>
          let (ok, s) = load_shells (inode_num m LOCAL_DENTRY) [2, 1, 0] u in
          if \<not> ok then Returns (- 1) s
          else
            let p = (pcb0 l)\<lparr>parent_pid := 0, fdt := init_fdt (fdt (pcb0 l)), pcb_vidmem := 0,
                      args := replicate 128 0\<rparr>;
                s = s\<lparr>process_num := SHELL_NUM\<rparr>;
                s = fold (\<lambda>i s. s\<lparr>pcbs := (pcbs s)(pcb_addr (i + 1) := p\<lparr>pid := i + 1\<rparr>)\<rparr>) [0..SHELL_NUM - 1] s;
                s = s\<lparr>tss_esp0 := EIGHT_MB, tss_ss0 := KERNEL_DS\<rparr>;
                program_addr = load32 m (LOCAL_ELF + 24);
                s = s\<lparr>program_addr_test := program_addr\<rparr>;
                s = s\<lparr>prev_sched_term := 0\<rparr>
            in enter (context_switch program_addr s))"
    unfolding launch_def u_def by (simp add: Let_def)
  show thesis
  proof (rule read_header_cases [OF fu, of shell_name l])
    show "0 \<notin> set shell_name" "length shell_name \<le> 32" "length (ELF_buf0 l) = 32"
      using assms(3) by (simp_all add: shell_name_def)
    assume "read_header (fs_start u) l LOCAL_NAME (put_bytes LOCAL_NAME (shell_name @ [0]) (vmem u)) = Some (Inl ())"
    then show thesis using la by (intro that(1)) (simp_all add: h_def u)
  next
    fix j m inode
    assume h: "inode < num_inodes (vmem u) (fs_start u)" "inode_num m LOCAL_DENTRY = inode"
      "read_header (fs_start u) l LOCAL_NAME (put_bytes LOCAL_NAME (shell_name @ [0]) (vmem u)) =
          (if is_elf m then Some (Inr m) else Some (Inl ()))"
    show thesis
    proof (cases "is_elf m")
      case False
      then show thesis using la h(3) by (intro that(1)) (simp_all add: h_def u)
    next
      case True
      obtain q where q: "load_shells inode [2, 1, 0] u =
        (True, u\<lparr>pmem := q, page_directory := (page_directory u)(32 := prog_frame 1 OR 0x087),
           process_array := (process_array u)(2 := 1, 1 := 1, 0 := 1)\<rparr>)"
        by (rule load_shells_all [OF u(1) fu h(1)])
      let ?p = "(pcb0 l)\<lparr>parent_pid := 0, fdt := init_fdt (fdt (pcb0 l)), pcb_vidmem := 0, args := replicate 128 0\<rparr>"
      define t where "t = u\<lparr>pmem := q, page_directory := (page_directory u)(32 := prog_frame 1 OR 0x087),
           process_array := (process_array u)(2 := 1, 1 := 1, 0 := 1), process_num := 3,
           pcbs := (pcbs u)(pcb_addr 1 := ?p\<lparr>pid := 1\<rparr>, pcb_addr 2 := ?p\<lparr>pid := 2\<rparr>, pcb_addr 3 := ?p\<lparr>pid := 3\<rparr>),
           tss_esp0 := EIGHT_MB, tss_ss0 := KERNEL_DS, program_addr_test := load32 m (LOCAL_ELF + 24),
           prev_sched_term := 0, iflag := True, esp := USER_ESP\<rparr>"
      have e: "launch l s = Enters (load32 m (LOCAL_ELF + 24)) t"
        using True by (simp add: la h q Let_def context_switch_def t_def upto.simps del: load_shells.simps)
      have pa: "process_array u i = - 1" if "0 \<le> i" "i < 6" for i
        using that by (simp add: u_def free_slots_def for_fill_apply)
      have "pcb_addr 1 \<noteq> pcb_addr 2" "pcb_addr 1 \<noteq> pcb_addr 3" "pcb_addr 2 \<noteq> pcb_addr 3" by (simp_all add: pcb_addr_inj)
      then have "stack_ok t k [k + 1]" if "term_no k" for k
        using that assms(4) [OF that] by (elim term_no_cases) (simp_all add: stack_ok_def t_def u)
      moreover have "process_array t i = (if i + 1 \<in> {1, 2, 3} then 1 else - 1)" if "0 \<le> i" "i < 6" for i
        using pa [OF that] that by (simp add: t_def)
      ultimately have "procs t (\<lambda>k. [k + 1])"
        by (simp add: procs_def all_procs_def) (simp add: t_def)
      moreover have "paging_wf t"
        using wf_set_page_dir [OF u(1), of "prog_frame 1"]
        by (simp add: t_def set_page_dir_entry_def paging_wf_def paging_on_def)
      moreover have "h = Some (Inr m)" using h(3) True by (simp add: h_def u)
      ultimately show thesis
        by (intro that(2) [OF _ refl e]) (simp_all add: t_def u runs_process_def kernel_stack_top_def)
    qed
  qed
qed

section \<open>An example state\<close>

text \<open>The three shells run, process 1 is scheduled; the command \<open>a\<close> stands at 0x500000.\<close>

definition kernel2 :: kernel where
  "kernel2 = kernel1\<lparr>pcbs := (\<lambda>_. pcb1)(pcb_addr 2 := pcb1\<lparr>pid := 2\<rparr>, pcb_addr 3 := pcb1\<lparr>pid := 3\<rparr>)\<rparr>"

definition locals1 :: locals where
  "locals1 = \<lparr>ELF_buf0 = replicate 32 0, pcb0 = pcb1\<rparr>"

lemma kernel1_sched:
  "term_no k \<Longrightarrow> sn_process_num (sched_arr kernel1 k) = k + 1" "cur_sched_term kernel1 = 0"
proof -
  let ?s = "(pit_init (init_shell (init_paging kb0)))\<lparr>prev_sched_term := 0, cur_sched_term := 2\<rparr>"
  have "sched_arr kb1 = (sched_arr ?s)(2 := (sched_arr ?s 2)\<lparr>sn_esp := esp ?s, sn_ebp := ebp ?s\<rparr>)"
    unfolding kb1_def by (subst pit_tick(4)) (simp_all add: term_no_def)
  then have k: "sn_process_num (sched_arr kb1 k) = k + 1" if "term_no k" for k
    using that by (elim term_no_cases) (simp_all add: pit_init_slots)
  have e: "sched_arr kernel1 = sched_arr kb1" "cur_sched_term kernel1 = cur_sched_term kb1"
    by (simp_all add: kernel1_def rtc.defs rtc0_def kb.defs)
  show "term_no k \<Longrightarrow> sn_process_num (sched_arr kernel1 k) = k + 1" "cur_sched_term kernel1 = 0"
    by (simp_all add: e k kb1_inv(4))
qed

lemma kernel1_files: "files_ok kernel1" "num_inodes (vmem kernel1) 0x400000 = 1"
proof -
  have s: "vmem kernel1 a = demo_fs a" if "in_fs demo_fs 0x400000 a" for a
    using demo_in_kernel_page [OF that] by (rule kernel1_view)
  have l: "fs_len demo_fs 0x400000 < 2 ^ 32" by (simp add: demo_counts)
  show n: "num_inodes (vmem kernel1) 0x400000 = 1" using header_same [OF s l] by (simp add: demo_counts)
  have "i = 0" if "i < 1" for i :: u32 using that by unat_arith
  then show "files_ok kernel1" using kernel1_image by (auto simp: files_ok_def kernel1_fields n)
qed

lemma kernel2_state:
  "files_ok kernel2" "runs_program kernel2 1" "vmem kernel2 = vmem kernel1" "fs_start kernel2 = 0x400000"
  "cur_sched_term kernel2 = 0" "esp kernel2 = 0x7FFF00" "process_num kernel2 = 3"
  using kernel1_files kernel1_runs
  by (simp_all add: kernel2_def files_ok_def image_ok_def fs_placed_def kernel1_fields kernel1_sched)

lemma kernel2_procs: "procs kernel2 (\<lambda>k. [k + 1])"
proof -
  have "pcb_addr 1 \<noteq> pcb_addr 2" "pcb_addr 1 \<noteq> pcb_addr 3" "pcb_addr 2 \<noteq> pcb_addr 3" by (simp_all add: pcb_addr_inj)
  then have "stack_ok kernel2 k [k + 1]" if "term_no k" for k
    using that kernel1_sched(1) [OF that]
    by (elim term_no_cases) (simp_all add: stack_ok_def kernel2_def pcb1_def)
  then show ?thesis by (auto simp: procs_def all_procs_def) (auto simp: kernel2_def kernel1_fields)
qed

lemma kernel2_command: "names_file kernel2 0x500000 [0x61]" "splits_into [0x61] [0x61] 0 []" "plain_name [0x61]"
  using kernel1_name by (simp_all add: names_file_def kernel2_state splits_into_def plain_name_def)

lemma demo_file_byte:
  assumes "k < 40"
  shows "file_byte (vmem kernel1) 0x400000 0 k = demo_fs (0x403000 + of_nat k)"
proof -
  have s: "vmem kernel1 a = demo_fs a" if "in_fs demo_fs 0x400000 a" for a
    using demo_in_kernel_page [OF that] by (rule kernel1_view)
  have "file_byte (vmem kernel1) 0x400000 0 k = file_byte demo_fs 0x400000 0 k"
    using image_same(4) [OF s demo_ok] assms by (simp add: demo_counts)
  then show ?thesis using assms demo_counts(5) by (simp add: file_byte_def block_addr_def dblock_addr_def demo_counts)
qed

lemma kernel2_executable:
  "executable (vmem kernel2) 0x400000 [0x61] 0" "entry_point (vmem kernel2) 0x400000 0 = 0x8048100"
proof -
  let ?b = "file_bytes (vmem kernel1) 0x400000 0"
  have l: "length ?b = 40" by (simp add: file_bytes_def kernel1_image)
  have b: "?b ! k = demo_fs (0x403000 + of_nat k)" if "k < 40" for k
    using that by (simp add: file_bytes_def kernel1_image demo_file_byte)
  have "demo_fs 0x403000 = 0x7F" "demo_fs 0x403001 = 0x45" "demo_fs 0x403002 = 0x4C" "demo_fs 0x403003 = 0x46"
    "demo_fs 0x403018 = 0" "demo_fs 0x403019 = 0x81" "demo_fs 0x40301A = 0x04" "demo_fs 0x40301B = 0x08"
    by (simp_all add: demo_fs_def)
  note d = this b [of 0] b [of 1] b [of 2] b [of 3] b [of 24] b [of 25] b [of 26] b [of 27]
  have "take 4 ?b = [?b ! 0, ?b ! 1, ?b ! 2, ?b ! 3]"
    using l by (simp add: take_Suc_conv_app_nth eval_nat_numeral)
  then have t: "take 4 ?b = [0x7F, 0x45, 0x4C, 0x46]" using d by simp
  have "inode_num (vmem kernel1) 0x400040 = 0"
    using kernel1_view [of "0x400064"] kernel1_view [of "0x400065"] kernel1_view [of "0x400066"] kernel1_view [of "0x400067"]
    by (simp add: inode_num_def load32_def demo_fs_def)
  then show "executable (vmem kernel2) 0x400000 [0x61] 0"
    using kernel1_lookup l t kernel1_files(2) by (simp add: executable_def kernel2_state dentry_addr_def)
  show "entry_point (vmem kernel2) 0x400000 0 = 0x8048100"
    using d by (simp add: entry_point_def kernel2_state load32_def)
qed


lemma lowest_free_shells: "lowest_free (\<lambda>k. [k + 1]) = Some 4"
  by (simp add: lowest_free_def all_procs_def upto.simps)

lemma kernel2_starts: "\<exists>t. execute locals1 0x500000 kernel2 = Enters 0x8048100 t"
proof -
  have "free_slot kernel2 = Some 3"
    using free_slot_lowest [OF kernel2_procs] by (cases "free_slot kernel2") (simp_all add: lowest_free_shells)
  then show ?thesis
    using execute_starts [OF kernel2_state(2,1) _ kernel2_command, of locals1 0 4] kernel2_executable
    by (auto simp: kernel2_state locals1_def)
qed

lemma kernel1_shell: "executable (vmem kernel1) 0x400000 shell_name 0"
proof -
  have v: "bytes_at (vmem kernel1) (0x400000 + of_nat k) 32 = bytes_at demo_fs (0x400000 + of_nat k) 32" if "k < 1000" for k
  proof (rule bytes_at_same, rule kernel1_view)
    fix i :: nat assume "i < 32"
    then have "in_fs demo_fs 0x400000 (0x400000 + of_nat (k + i))"
      using that by (subst in_fs_offset) (simp_all add: demo_counts)
    then show "drop_bit 22 ((0x400000 :: addr) + of_nat k + of_nat i) = 1" using demo_in_kernel_page by (simp add: add.assoc)
  qed
  have c: "is_cstr demo_fs 0x400040 [0x61]" "is_cstr demo_fs 0x400080 shell_name"
    by (simp_all add: is_cstr_def bytes_at_def demo_fs_def shell_name_def)
  have n: "dentry_name (vmem kernel1) 0x400040 = [0x61]" "dentry_name (vmem kernel1) 0x400080 = shell_name"
    using v [of 64] v [of 128] cstr_bytes_of_cstr [OF c(1), of 32] cstr_bytes_of_cstr [OF c(2), of 32]
    by (simp_all add: dentry_name_def shell_name_def)
  have "inode_num (vmem kernel1) 0x400080 = 0"
    using kernel1_view [of "0x4000A4"] kernel1_view [of "0x4000A5"] kernel1_view [of "0x4000A6"] kernel1_view [of "0x4000A7"]
    by (simp add: inode_num_def load32_def demo_fs_def)
  moreover have "lookup_name (vmem kernel1) 0x400000 shell_name = Some 1"
    using n by (simp add: lookup_name_def kernel1_image dentry_addr_def two_entries shell_name_def)
  ultimately show ?thesis
    using kernel2_executable(1) by (simp add: executable_def kernel2_state dentry_addr_def)
qed

text \<open>Process 4 runs on top of shell 1.\<close>

definition kernel3 :: kernel where
  "kernel3 = (started locals1 (replicate 128 0) 4 demo_fs kernel2)\<lparr>esp := 0x7F9F00\<rparr>"

lemma kernel3_state: "procs kernel3 ((\<lambda>k. [k + 1])(0 := [4, 1]))" "cur_sched_term kernel3 = 0" "in_stack 4 (esp kernel3)"
proof -
  have "procs (started locals1 (replicate 128 0) 4 demo_fs kernel2) ((\<lambda>k. [k + 1])(0 := [4, 1]))"
    using started_procs [OF kernel2_procs, of 4] by (simp add: kernel2_state term_no_def lowest_free_shells)
  then show "procs kernel3 ((\<lambda>k. [k + 1])(0 := [4, 1]))" unfolding kernel3_def by (rule procs_cong) simp_all
  show "cur_sched_term kernel3 = 0" by (simp add: kernel3_def started_def Let_def kernel2_state)
  show "in_stack 4 (esp kernel3)" by (simp add: kernel3_def in_stack_def kernel_stack_top_def)
qed

section \<open>Properties\<close>



text \<open>C18: Starting a program. For a command line that starts with the name of an executable, while a
  process slot is free, \<open>execute\<close> enters user mode at the executable's entry point; the page of the
  new process holds the file's content from 0x8048000 on, and its control block holds the rest of the
  line without the leading spaces, cut to 127 characters and padded with zeros.\<close>

theorem execute_loads_program:
  fixes s :: "'a kernel_scheme"
  assumes "procs s cs" "process_num s < 6" "runs_program s c" "files_ok s" "length (ELF_buf0 l) = 32"
    and "names_file s command line" "splits_into line name k as" "plain_name name"
    and "executable (vmem s) (fs_start s) name inode"
  shows "\<exists>p t. lowest_free cs = Some p \<and> execute l command s = Enters (entry_point (vmem s) (fs_start s) inode) t \<and>
    bytes_at (vmem t) 0x8048000 (min 0x3B8000 (length (file_bytes (vmem s) (fs_start s) inode))) =
      take 0x3B8000 (file_bytes (vmem s) (fs_start s) inode) \<and>
    args (pcbs t (pcb_addr p)) = take 127 as @ replicate (128 - min 127 (length as)) 0"
proof -
  obtain p where p: "lowest_free cs = Some p" using lowest_free_exists [OF assms(1,2)] .
  note pr = lowest_free_props [OF p]
  have n: "0 < process_num s" using procs_num [OF assms(1)] by simp
  have fr: "free_slot s = Some (p - 1)" using free_slot_lowest [OF assms(1)] p by (cases "free_slot s") auto
  obtain q where q: "execute l command s =
       Enters (entry_point (vmem s) (fs_start s) inode) (started l (padded as) p q (s\<lparr>iflag := False\<rparr>))"
    "bytes_at (vmem (started l (padded as) p q (s\<lparr>iflag := False\<rparr>))) PROG_START
         (min 0x3B8000 (length (file_bytes (vmem s) (fs_start s) inode))) =
       take 0x3B8000 (file_bytes (vmem s) (fs_start s) inode)"
    by (rule execute_starts [OF assms(3-9) n assms(2) fr pr(1,2)]) (rule that)
  have "args (pcbs (started l (padded as) p q (s\<lparr>iflag := False\<rparr>)) (pcb_addr p)) =
      take 127 as @ replicate (128 - min 127 (length as)) 0"
    by (simp add: started_def Let_def padded_def)
  with p q show ?thesis by blast
qed

theorem execute_loads_program_witness:
  "\<exists>t. execute locals1 0x500000 kernel2 = Enters 0x8048100 t \<and> args (pcbs t (pcb_addr 4)) = replicate 128 0"
  using execute_loads_program [OF kernel2_procs _ kernel2_state(2,1) _ kernel2_command, of locals1 0]
    kernel2_executable by (auto simp: kernel2_state locals1_def lowest_free_shells)

text \<open>C21: Starting the shells. With a sound image and an executable \<open>shell\<close>, \<open>launch\<close> enters user
  mode at its entry point with three one-element stacks, processes 1, 2 and 3 on terminals 0, 1 and 2,
  the other slots free, process 1 mapped and the scheduler released; without a file of that name it
  returns -1.\<close>

theorem launch_starts_shells:
  fixes s :: "'a kernel_scheme"
  assumes "paging_wf s" "files_ok s" "length (ELF_buf0 l) = 32" "\<forall>k. term_no k \<longrightarrow> sn_process_num (sched_arr s k) = k + 1"
  shows "(executable (vmem s) (fs_start s) shell_name inode \<longrightarrow>
      (\<exists>t. launch l s = Enters (entry_point (vmem s) (fs_start s) inode) t \<and> procs t (\<lambda>k. [k + 1]) \<and>
        runs_process t 1 \<and> prev_sched_term t = 0 \<and>
        program_addr_test t = entry_point (vmem s) (fs_start s) inode)) \<and>
    (lookup_name (vmem s) (fs_start s) shell_name = None \<longrightarrow> (\<exists>t. launch l s = Returns (- 1) t))"
proof (intro conjI impI)
  have sh: "plain_name shell_name" "length shell_name \<le> 32" by (simp_all add: plain_name_def shell_name_def)
  note rh = read_header_name [OF assms(2) sh assms(3)]
  show "\<exists>t. launch l s = Enters (entry_point (vmem s) (fs_start s) inode) t \<and> procs t (\<lambda>k. [k + 1]) \<and>
        runs_process t 1 \<and> prev_sched_term t = 0 \<and>
        program_addr_test t = entry_point (vmem s) (fs_start s) inode"
    if "executable (vmem s) (fs_start s) shell_name inode"
    by (rule launch_outcome [OF assms(1-3) assms(4) [rule_format]]) (use rh(2) [OF that] in auto)
  show "\<exists>t. launch l s = Returns (- 1) t" if "lookup_name (vmem s) (fs_start s) shell_name = None"
    by (rule launch_outcome [OF assms(1-3) assms(4) [rule_format]]) (use rh(1) [OF that] in auto)
qed

theorem launch_starts_shells_witness:
  "\<exists>t. launch locals1 kernel1 = Enters 0x8048100 t \<and> procs t (\<lambda>k. [k + 1])"
proof -
  have "paging_wf kernel1" using kernel1_runs by (simp add: runs_program_def)
  then show ?thesis
    using launch_starts_shells [OF _ kernel1_files(1), of locals1 0] kernel1_shell kernel1_sched(1) kernel2_executable(2)
    by (auto simp: locals1_def kernel1_fields kernel2_state)
qed

text \<open>C34: The control block of a stack. A stack pointer anywhere in the kernel stack of a process, from
  one byte below its top down to the block itself, is masked to the address of that process's control
  block, and the blocks of different processes have different addresses.\<close>

theorem get_pcb_add_finds_block:
  assumes "1 \<le> p" "p \<le> 6" "0 < d" "d \<le> EIGHT_KB"
  shows "get_pcb_add (s\<lparr>esp := kernel_stack_top p - d\<rparr>) = pcb_addr p \<and>
    (\<forall>q \<in> {1..6}. pcb_addr q = pcb_addr p \<longrightarrow> q = p)"
proof -
  have "get_pcb_add (s\<lparr>esp := kernel_stack_top p - d\<rparr>) = pcb_addr p"
    by (rule pcb_of_stack [OF assms(1,2)]) (use assms(3,4) in \<open>simp add: in_stack_def\<close>)
  then show ?thesis using assms(1,2) pcb_addr_inj by auto
qed

theorem get_pcb_add_finds_block_witness: "get_pcb_add (kernel2\<lparr>esp := kernel_stack_top 4 - 0x100\<rparr>) = 0x7F8000"
  using get_pcb_add_finds_block [of 4 "0x100" kernel2] by (simp add: pcb_addr_def)

text \<open>C3: \<open>halt\<close> refines a pop. On the kernel stack of the process on top, it ends a process that is not
  a shell with the status as the parent's result: the process leaves the stack of its terminal, its
  slot is free, and the parent's page and kernel stack are current. A shell that halts is started
  again at its entry point and the process table does not change.\<close>

theorem halt_pops_process:
  fixes s :: "'a kernel_scheme"
  assumes "procs s cs" "term_no (cur_sched_term s)" "in_stack (hd (cs (cur_sched_term s))) (esp s)"
  defines "c \<equiv> cur_sched_term s"
  shows "case halt status s of
      Returns r t \<Rightarrow> \<exists>p q ps. cs c = p # q # ps \<and> r = uint status \<and> procs t (cs(c := q # ps)) \<and> runs_process t q
    | Enters a t \<Rightarrow> cs c = [c + 1] \<and> a = program_addr_test s \<and> procs t cs
    | Waits \<Rightarrow> False"
proof -
  note h = hd_stack_range [OF assms(1,2)]
  note g = pcb_of_stack [OF h(1,2) assms(3)]
  show ?thesis
    by (rule halt_outcome [OF assms(1,2) g, of status]) (auto simp: c_def)
qed

theorem halt_pops_process_witness: "\<exists>t. halt 7 kernel3 = Returns 7 t \<and> procs t (\<lambda>k. [k + 1])"
proof -
  have "(\<lambda>k :: int. [k + 1])(0 := [4, 1], 0 := [1]) = (\<lambda>k. [k + 1])" by auto
  then show ?thesis
    using halt_pops_process [OF kernel3_state(1), unfolded kernel3_state(2), of 7] kernel3_state(3)
    by (auto simp: term_no_def split: outcome.splits)
qed



end
