(* ===== verification/Format.thy ===== *)
theory Format
  imports Console UserMemory
begin

text \<open>
  Formatted output of \<open>student-distrib/lib.c\<close>: \<open>strrev\<close>, \<open>itoa\<close> and \<open>printf\<close>. \<open>itoa\<close> is related
  to the positional notation of the number, \<open>printf\<close> to a list of directives with their texts.
\<close>

section \<open>Operations\<close>

text \<open>The indices of \<open>strrev\<close> are signed; they start at 0 and at the length less one.\<close>

function strrev_loop :: "mem \<Rightarrow> addr \<Rightarrow> int \<Rightarrow> int \<Rightarrow> mem" where
  "strrev_loop m s beg end =
     (if beg < end
      then let tmp = m (s + word_of_int end);
               m = m(s + word_of_int end := m (s + word_of_int beg));
               m = m(s + word_of_int beg := tmp)
           in strrev_loop m s (beg + 1) (end - 1)
      else m)"
  by pat_completeness auto
termination
  by (relation "measure (\<lambda>(m, s, beg, end). nat (end - beg))") auto

declare strrev_loop.simps [simp del]

definition strrev :: "mem \<Rightarrow> addr \<Rightarrow> mem option" where
  "strrev m s = map_option (\<lambda>n. strrev_loop m s 0 (sint (n - 1))) (strlen m s)"

definition lookup :: "u8 list" where
  "lookup = map of_nat ([48..<58] @ [65..<91])"

text \<open>The digits are stored lowest first; \<open>radix\<close> is converted to unsigned by the operators.\<close>

partial_function (option) itoa_loop :: "mem \<Rightarrow> addr \<Rightarrow> u32 \<Rightarrow> u32 \<Rightarrow> (mem \<times> addr) option" where
  "itoa_loop m newbuf newval radix =
     (if newval > 0
      then itoa_loop (m(newbuf := lookup ! unat (newval mod radix))) (newbuf + 1) (newval div radix) radix
      else Some (m, newbuf))"

definition itoa :: "mem \<Rightarrow> u32 \<Rightarrow> addr \<Rightarrow> u32 \<Rightarrow> mem option" where
  "itoa m value buf radix =
     (if value = 0 then Some (m(buf := 48, buf + 1 := 0))
      else case itoa_loop m buf value radix of
             None \<Rightarrow> None
           | Some (m, newbuf) \<Rightarrow> strrev (m(newbuf := 0)) buf)"

text \<open>The local \<open>conv_buf\<close> of a conversion, at an address of its own; \<open>m\<close> is the memory with its
  contents before. The text of a number is the part of the array from the pointer on that
  \<open>puts\<close> gets.\<close>

abbreviation (input) CONV_BUF :: addr where "CONV_BUF \<equiv> 0x1700"

function pad_zeros :: "mem \<Rightarrow> int \<Rightarrow> mem" where
  "pad_zeros m i = (if i < 8 then pad_zeros (m(CONV_BUF + word_of_int i := 48)) (i + 1) else m)"
  by pat_completeness auto
termination
  by (relation "measure (\<lambda>(m, i). nat (8 - i))") auto

declare pad_zeros.simps [simp del]

definition hex_text :: "mem \<Rightarrow> bool \<Rightarrow> u32 \<Rightarrow> u8 list option" where
  "hex_text m alternate v =
     (if \<not> alternate then map_option (\<lambda>m. bytes_at m CONV_BUF 64) (itoa m v CONV_BUF 16)
      else case itoa m v (CONV_BUF + 8) 16 of
             None \<Rightarrow> None
           | Some m \<Rightarrow>
               map_option (\<lambda>n. let m = pad_zeros m (sint n)
                               in bytes_at m (CONV_BUF + n) (64 - unat n)) (strlen m (CONV_BUF + 8)))"

definition unsigned_text :: "mem \<Rightarrow> u32 \<Rightarrow> u8 list option" where
  "unsigned_text m v = map_option (\<lambda>m. bytes_at m CONV_BUF 36) (itoa m v CONV_BUF 10)"

definition signed_text :: "mem \<Rightarrow> u32 \<Rightarrow> u8 list option" where
  "signed_text m v =
     map_option (\<lambda>m. bytes_at m CONV_BUF 36)
       (if v <s 0 then itoa (m(CONV_BUF := 45)) (- v) (CONV_BUF + 1) 10 else itoa m v CONV_BUF 10)"

text \<open>\<open>puts\<close> for a text that may not be there, because its conversion never ends.\<close>

definition puts_text :: "u8 list option \<Rightarrow> 'a console_scheme \<Rightarrow> 'a console_scheme option" where
  "puts_text text s = map_option (\<lambda>bs. snd (puts bs s)) text"

text \<open>The loop of \<open>printf\<close>, with the rest of the format string, the words on the stack above the
  format pointer and the index of the next character. \<open>mode\<close> is \<open>None\<close> for ordinary text and \<open>Some\<close>
  of the flag \<open>alternate\<close> after a percent sign. \<open>str\<close> gives the bytes from a pointer on. Reading
  past the given bytes or words is a fault; \<open>None\<close> means that a conversion never ends.\<close>

fun printf_from :: "mem \<Rightarrow> (u32 \<Rightarrow> u8 list) \<Rightarrow> bool option \<Rightarrow> u8 list \<Rightarrow> u32 list \<Rightarrow> int \<Rightarrow>
    'a console_scheme \<Rightarrow> (int \<times> 'a console_scheme) option" where
  "printf_from m str mode [] args i s = Some (i, raise_fault s)"
| "printf_from m str None (c # buf) args i s =
     (if c = 0 then Some (i, s)
      else if c = 0x25 then printf_from m str (Some False) buf args (i + 1) s
      else printf_from m str None buf args (i + 1) (putc c s))"
| "printf_from m str (Some alternate) (c # buf) args i s =
     (if c = 0x25 then printf_from m str None buf args (i + 1) (putc 0x25 s)
      else if c = 0x23 then printf_from m str (Some True) buf args (i + 1) s
      else if c \<notin> {0x78, 0x75, 0x64, 0x63, 0x73} then printf_from m str None buf args (i + 1) s
      else (case args of
              [] \<Rightarrow> Some (i, raise_fault s)
            | v # args \<Rightarrow>
                if c = 0x63 then printf_from m str None buf args (i + 1) (putc (ucast v) s)
                else (case puts_text (if c = 0x78 then hex_text m alternate v
                                      else if c = 0x75 then unsigned_text m v
                                      else if c = 0x64 then signed_text m v
                                      else Some (str v)) s of
                        None \<Rightarrow> None
                      | Some s \<Rightarrow> printf_from m str None buf args (i + 1) s)))"

definition printf :: "mem \<Rightarrow> (u32 \<Rightarrow> u8 list) \<Rightarrow> u8 list \<Rightarrow> u32 list \<Rightarrow> 'a console_scheme \<Rightarrow>
    (int \<times> 'a console_scheme) option" where
  "printf m str format args s = printf_from m str None format args 0 s"

section \<open>Reversing\<close>

lemma offset_inj:
  "0 \<le> x \<Longrightarrow> x < 2 ^ 32 \<Longrightarrow> 0 \<le> y \<Longrightarrow> y < 2 ^ 32 \<Longrightarrow> (word_of_int x :: addr) = word_of_int y \<longleftrightarrow> x = y"
  by (simp add: word_of_int_eq_iff take_bit_int_eq_self)

lemma strrev_loop_at:
  assumes "0 \<le> beg" "end < 2 ^ 31" "0 \<le> k" "k < 2 ^ 32"
  shows "strrev_loop m s beg end (s + word_of_int k) =
    (if beg \<le> k \<and> k \<le> end then m (s + word_of_int (beg + end - k)) else m (s + word_of_int k))"
  using assms
proof (induction m s beg "end" rule: strrev_loop.induct)
  case (1 m s beg "end")
  show ?case
  proof (cases "beg < end")
    case False
    then have l: "strrev_loop m s beg end = m" by (subst strrev_loop.simps) simp
    have "beg + end - k = k" if "beg \<le> k \<and> k \<le> end" using that False by simp
    then show ?thesis unfolding l by (simp only: refl if_cancel split: if_split) simp
  next
    case True
    define m' where "m' = m(s + word_of_int end := m (s + word_of_int beg), s + word_of_int beg := m (s + word_of_int end))"
    have m': "m' (s + word_of_int x) = (if x = beg then m (s + word_of_int end)
        else if x = end then m (s + word_of_int beg) else m (s + word_of_int x))" if "0 \<le> x" "x < 2 ^ 32" for x
      using that "1.prems" True by (simp add: m'_def offset_inj)
    have "strrev_loop m s beg end (s + word_of_int k) = strrev_loop m' s (beg + 1) (end - 1) (s + word_of_int k)"
      using True by (subst strrev_loop.simps) (simp add: Let_def m'_def)
    also have "\<dots> = (if beg + 1 \<le> k \<and> k \<le> end - 1 then m' (s + word_of_int (beg + end - k)) else m' (s + word_of_int k))"
      using "1.IH" [OF True refl refl refl] "1.prems" unfolding m'_def [symmetric] by simp
    also have "\<dots> = (if beg \<le> k \<and> k \<le> end then m (s + word_of_int (beg + end - k)) else m (s + word_of_int k))"
      using "1.prems" True m' [of k] m' [of "beg + end - k"] by auto
    finally show ?thesis .
  qed
qed

lemma strrev_cstr:
  assumes "is_cstr m s xs" "length xs < 2 ^ 31"
  obtains m' where "strrev m s = Some m'" "is_cstr m' s (rev xs)"
    "\<And>a. length xs \<le> unat (a - s) \<Longrightarrow> m' a = m a"
proof -
  define n where "n = int (length xs)"
  have n: "0 \<le> n" "n < 2 ^ 31" using assms(2) by (simp_all add: n_def)
  define m' where "m' = strrev_loop m s 0 (n - 1)"
  have "sint (of_nat (length xs) - 1 :: u32) = n - 1"
  proof -
    have e: "(of_nat (length xs) - 1 :: u32) = word_of_int (n - 1)" by (simp add: n_def)
    show ?thesis unfolding e sint_sbintrunc' using n by (intro signed_take_bit_int_eq_self) simp_all
  qed
  then have r: "strrev m s = Some m'" by (simp add: strrev_def strlen_cstr [OF assms(1)] m'_def)
  have at: "m' (s + word_of_int k) = (if k < n then m (s + word_of_int (n - 1 - k)) else m (s + word_of_int k))"
    if "0 \<le> k" "k < 2 ^ 32" for k
    unfolding m'_def using strrev_loop_at [of 0 "n - 1" k m s] that n by simp
  have x: "m (s + of_nat i) = xs ! i" if "i < length xs" for i using is_cstrD(1) [OF assms(1) that] .
  have "m' (s + of_nat i) = rev xs ! i" if "i < length xs" for i
  proof -
    have "m' (s + of_nat i) = m (s + word_of_int (n - 1 - int i))" using at [of "int i"] that n by (simp add: n_def)
    also have "word_of_int (n - 1 - int i) = (of_nat (length xs - Suc i) :: addr)" using that by (simp add: n_def)
    finally show ?thesis using x [of "length xs - Suc i"] that by (simp add: rev_nth del: of_nat_diff)
  qed
  then have "bytes_at m' s (length xs) = rev xs" by (intro nth_equalityI) simp_all
  moreover have "m' (s + of_nat (length xs)) = 0" using at [of n] n is_cstrD(3) [OF assms(1)] by (simp add: n_def)
  ultimately have c: "is_cstr m' s (rev xs)" using assms(1) by (simp add: is_cstr_def)
  have "m' a = m a" if "length xs \<le> unat (a - s)" for a
  proof -
    define k where "k = unat (a - s)"
    have "a = s + of_nat k" "k < 2 ^ 32" "length xs \<le> k" using that unat_lt32 [of "a - s"] by (simp_all add: k_def)
    then show ?thesis using at [of "int k"] by (simp add: n_def)
  qed
  then show thesis using that r c by blast
qed

section \<open>Numbers\<close>

text \<open>The digits of a number, lowest first, and the number a text stands for.\<close>

fun digits :: "nat \<Rightarrow> nat \<Rightarrow> nat list" where
  "digits radix v = (if v = 0 \<or> radix < 2 then [] else v mod radix # digits radix (v div radix))"

declare digits.simps [simp del]

definition number_text :: "nat \<Rightarrow> nat \<Rightarrow> u8 list" where
  "number_text radix v = (if v = 0 then [48] else map (\<lambda>d. lookup ! d) (rev (digits radix v)))"

definition digit_value :: "u8 \<Rightarrow> nat" where
  "digit_value c = (if c < 58 then unat c - 48 else unat c - 55)"

definition read_number :: "nat \<Rightarrow> u8 list \<Rightarrow> nat" where
  "read_number radix = foldl (\<lambda>n c. n * radix + digit_value c) 0"

lemma digits_range: "2 \<le> radix \<Longrightarrow> d \<in> set (digits radix v) \<Longrightarrow> d < radix"
proof (induction radix v rule: digits.induct)
  case (1 radix v)
  then show ?case by (subst (asm) (2) digits.simps) (auto split: if_splits)
qed

lemma lookup_nth: "d < 36 \<Longrightarrow> lookup ! d = of_nat (if d < 10 then 48 + d else 55 + d)"
  unfolding lookup_def by (subst nth_map) (auto simp: nth_append simp del: upt_rec_numeral)

lemma digit_value_lookup:
  assumes "d < 36"
  shows "digit_value (lookup ! d) = d" "lookup ! d \<noteq> 0"
proof -
  define k where "k = (if d < 10 then 48 + d else 55 + d)"
  have k: "unat (of_nat k :: u8) = k" "lookup ! d = of_nat k" using assms by (auto simp: k_def unat_of_nat lookup_nth)
  then have "(of_nat k :: u8) < 58 \<longleftrightarrow> k < 58" by (simp add: word_less_nat_alt)
  then show "digit_value (lookup ! d) = d" using assms k by (auto simp: digit_value_def k_def split: if_splits)
  have "unat (lookup ! d) \<noteq> 0" unfolding k using k(1) by (simp add: k_def)
  then show "lookup ! d \<noteq> 0" by auto
qed

lemma read_number_digits:
  assumes "2 \<le> radix" "radix \<le> 36"
  shows "read_number radix (map (\<lambda>d. lookup ! d) (rev (digits radix v))) = v"
  using assms
proof (induction radix v rule: digits.induct)
  case (1 radix v)
  show ?case
  proof (cases "v = 0")
    case True
    then show ?thesis by (simp add: digits.simps read_number_def)
  next
    case False
    have m: "v mod radix < 36" using "1.prems" mod_less_divisor [of radix v] by linarith
    have ih: "read_number radix (map (\<lambda>d. lookup ! d) (rev (digits radix (v div radix)))) = v div radix"
      using 1 False by simp
    have "digits radix v = v mod radix # digits radix (v div radix)" using False "1.prems" by (simp add: digits.simps [of radix v])
    then show ?thesis using ih by (simp add: read_number_def digit_value_lookup [OF m])
  qed
qed

lemma number_text_roundtrip:
  "2 \<le> radix \<Longrightarrow> radix \<le> 36 \<Longrightarrow> read_number radix (number_text radix v) = v"
  by (simp add: number_text_def read_number_digits) (simp add: read_number_def digit_value_def)

lemma digits_length:
  assumes "2 \<le> radix"
  shows "v < radix ^ n \<Longrightarrow> length (digits radix v) \<le> n"
proof (induction n arbitrary: v)
  case 0
  then show ?case by (simp add: digits.simps)
next
  case (Suc n)
  then have "v div radix < radix ^ n" using assms by (simp add: less_mult_imp_div_less mult.commute)
  then show ?case using Suc.IH by (subst digits.simps) auto
qed

lemma itoa_loop_digits:
  assumes "2 \<le> unat radix"
  shows "itoa_loop m buf v radix =
    Some (put_bytes buf (map (\<lambda>d. lookup ! d) (digits (unat radix) (unat v))) m,
          buf + of_nat (length (digits (unat radix) (unat v))))"
proof (induction "unat v" arbitrary: v m buf rule: less_induct)
  case less
  show ?case
  proof (cases "v = 0")
    case True
    then show ?thesis by (subst itoa_loop.simps) (simp add: digits.simps put_bytes_def)
  next
    case False
    then have v: "v > 0" "unat v \<noteq> 0" by (simp_all add: word_gt_0 unat_eq_0)
    let ?d = "digits (unat radix) (unat (v div radix))" and ?c = "lookup ! unat (v mod radix)"
    have lt: "unat (v div radix) < unat v" using assms v by (simp add: unat_div)
    have e: "digits (unat radix) (unat v) = unat (v mod radix) # ?d"
      using assms v(2) by (subst digits.simps) (simp add: unat_div unat_mod)
    have len: "length ?d \<le> 32"
    proof (rule digits_length [OF assms])
      have "unat (v div radix) < 2 ^ 32" by (rule unat_lt32)
      also have "2 ^ 32 \<le> unat radix ^ 32" using assms by (rule power_mono) simp
      finally show "unat (v div radix) < unat radix ^ 32" .
    qed
    have p: "put_bytes (buf + 1) xs (m(buf := c)) = put_bytes buf (c # xs) m" if "length xs \<le> 32" for xs c
    proof
      fix a
      define w where "w = a - buf"
      have a: "a = buf + w" by (simp add: w_def)
      show "put_bytes (buf + 1) xs (m(buf := c)) a = put_bytes buf (c # xs) m a"
      proof (cases "w = 0")
        case True
        have "unat (- 1 :: addr) = 2 ^ 32 - 1" by (simp add: unsigned_minus_1_eq_mask mask_eq_exp_minus_1)
        then show ?thesis using that True by (simp add: a put_bytes_def)
      next
        case False
        then have "unat w = Suc (unat (w - 1))" by (simp add: unat_minus_one Suc_pred unat_gt_0)
        then show ?thesis using False by (simp add: a put_bytes_def)
      qed
    qed
    have "itoa_loop m buf v radix = itoa_loop (m(buf := ?c)) (buf + 1) (v div radix) radix"
      using v by (subst itoa_loop.simps) simp
    also have "\<dots> = Some (put_bytes (buf + 1) (map (\<lambda>d. lookup ! d) ?d) (m(buf := ?c)), buf + 1 + of_nat (length ?d))"
      using less [OF lt] by simp
    finally show ?thesis using p [of "map (\<lambda>d. lookup ! d) ?d" ?c] len by (simp add: e add.assoc)
  qed
qed

lemma number_text_facts:
  fixes v radix :: u32
  assumes "2 \<le> unat radix" "unat radix \<le> 36"
  shows "0 \<notin> set (number_text (unat radix) (unat v))" "length (number_text (unat radix) (unat v)) \<le> 32"
    "number_text (unat radix) (unat v) \<noteq> []"
proof -
  let ?d = "digits (unat radix) (unat v)"
  have "length ?d \<le> 32"
  proof (rule digits_length [OF assms(1)])
    have "unat v < 2 ^ 32" by (rule unat_lt32)
    also have "2 ^ 32 \<le> unat radix ^ 32" using assms(1) by (rule power_mono) simp
    finally show "unat v < unat radix ^ 32" .
  qed
  then show "length (number_text (unat radix) (unat v)) \<le> 32" by (simp add: number_text_def)
  have "lookup ! d \<noteq> 0" if "d \<in> set ?d" for d
    using digits_range [OF assms(1) that] assms(2) by (intro digit_value_lookup) simp
  then have "0 \<notin> (\<lambda>d. lookup ! d) ` set ?d" unfolding image_iff by metis
  then show "0 \<notin> set (number_text (unat radix) (unat v))" by (simp add: number_text_def)
  show "number_text (unat radix) (unat v) \<noteq> []" using assms(1) by (simp add: number_text_def digits.simps)
qed

lemma hd_number_text:
  assumes "2 \<le> radix" "radix \<le> 36"
  shows "hd (number_text radix v) = 48 \<Longrightarrow> v = 0"
proof (rule ccontr)
  assume h: "hd (number_text radix v) = 48" and v: "v \<noteq> 0"
  have l: "digits radix v \<noteq> [] \<and> last (digits radix v) \<noteq> 0" if "v \<noteq> 0" for v
    using that assms
  proof (induction radix v rule: digits.induct)
    case (1 radix v)
    then show ?case by (subst (1 2) digits.simps) (cases "v div radix = 0"; simp add: digits.simps div_eq_0_iff)
  qed
  let ?d = "last (digits radix v)"
  have "?d < radix" using digits_range [OF assms(1)] l [OF v] by (metis last_in_set)
  then have d: "?d < 36" using assms(2) by simp
  have "hd (number_text radix v) = lookup ! ?d"
    using v l [OF v] by (simp add: number_text_def hd_map hd_rev)
  then have "digit_value (lookup ! ?d) = digit_value 48" using h by simp
  then show False using digit_value_lookup(1) [OF d] l [OF v] by (simp add: digit_value_def)
qed

lemma itoa_text:
  fixes v radix :: u32
  assumes "2 \<le> unat radix" "unat radix \<le> 36"
  defines "xs \<equiv> number_text (unat radix) (unat v)"
  obtains m' where "itoa m v buf radix = Some m'" "is_cstr m' buf xs"
    "\<And>a. length xs < unat (a - buf) \<Longrightarrow> m' a = m a"
proof (cases "v = 0")
  case True
  have "is_cstr (m(buf := 48, buf + 1 := 0)) buf xs" using True by (simp add: xs_def number_text_def is_cstr_def bytes_at_def)
  moreover have "(m(buf := 48, buf + 1 := 0)) a = m a" if "length xs < unat (a - buf)" for a
    using that True by (auto simp: xs_def number_text_def)
  ultimately show thesis using True by (intro that [of "m(buf := 48, buf + 1 := 0)"]) (simp_all add: itoa_def)
next
  case False
  note f = number_text_facts [OF assms(1,2), of v, folded xs_def]
  define ys where "ys = rev xs"
  have ys: "ys = map (\<lambda>d. lookup ! d) (digits (unat radix) (unat v))" "length ys \<le> 32" "0 \<notin> set ys"
    using False f by (simp_all add: ys_def xs_def number_text_def unat_eq_0 rev_map)
  define m1 where "m1 = (put_bytes buf ys m)(buf + of_nat (length ys) := 0)"
  have l: "itoa_loop m buf v radix = Some (put_bytes buf ys m, buf + of_nat (length ys))"
    using itoa_loop_digits [OF assms(1)] by (simp add: ys)
  have at: "m1 (buf + of_nat i) = ys ! i" if "i < length ys" for i
  proof -
    have "unat (of_nat i :: addr) = i" "unat (of_nat (length ys) :: addr) = length ys"
      using that ys(2) by (simp_all add: unat_of_nat32)
    then have "(of_nat i :: addr) \<noteq> of_nat (length ys)" using that by (metis less_irrefl)
    then show ?thesis using that ys(2) by (simp add: m1_def put_bytes_def unat_of_nat32)
  qed
  then have "bytes_at m1 buf (length ys) = ys" by (intro nth_equalityI) simp_all
  then have c: "is_cstr m1 buf ys" using ys by (simp add: is_cstr_def m1_def)
  obtain m' where m': "strrev m1 buf = Some m'" "is_cstr m' buf (rev ys)" "\<And>a. length ys \<le> unat (a - buf) \<Longrightarrow> m' a = m1 a"
    by (rule strrev_cstr [OF c]) (use ys(2) in auto)
  have "m' a = m a" if "length xs < unat (a - buf)" for a
  proof -
    have "a \<noteq> buf + of_nat (length ys)" using that ys(2) by (auto simp: ys_def unat_of_nat32)
    then show ?thesis using that m'(3) [of a] by (simp add: m1_def put_bytes_def ys_def)
  qed
  then show thesis using False l m' by (intro that [of m']) (simp_all add: itoa_def m1_def ys_def)
qed

section \<open>Texts of the conversions\<close>

lemma bytes_at_append: "bytes_at m a (j + k) = bytes_at m a j @ bytes_at m (a + of_nat j) k"
  by (rule nth_equalityI) (auto simp: nth_append add.assoc simp flip: of_nat_add)

lemma bytes_at_cstr:
  assumes "is_cstr m a xs" "length xs < n"
  shows "\<exists>rest. bytes_at m a n = xs @ 0 # rest"
proof -
  obtain k where n: "n = length xs + Suc k" using assms(2) less_imp_Suc_add by (metis add_Suc_right)
  have "bytes_at m a (length xs) = xs" "m (a + of_nat (length xs)) = 0" using assms(1) by (simp_all add: is_cstr_def)
  then show ?thesis unfolding n bytes_at_append by (simp add: bytes_at_Suc)
qed

text \<open>A text that prints as \<open>xs\<close>.\<close>

definition text_is :: "u8 list option \<Rightarrow> u8 list \<Rightarrow> bool" where
  "text_is text xs \<longleftrightarrow> 0 \<notin> set xs \<and> (\<exists>rest. text = Some (xs @ 0 # rest))"

lemma puts_text_is: "text_is text xs \<Longrightarrow> puts_text text s = Some (fold putc xs s)"
  by (auto simp: text_is_def puts_text_def puts_def puts_from_eq)

lemma text_is_cstr: "is_cstr m a xs \<Longrightarrow> length xs < n \<Longrightarrow> text_is (Some (bytes_at m a n)) xs"
  using bytes_at_cstr [of m a xs n] by (auto simp: text_is_def is_cstr_def)

lemma unsigned_text_is: "text_is (unsigned_text m v) (number_text 10 (unat v))"
proof -
  obtain m' where m': "itoa m v CONV_BUF 10 = Some m'" "is_cstr m' CONV_BUF (number_text (unat (10 :: u32)) (unat v))"
    by (rule itoa_text [where radix = 10 and v = v and m = m and buf = CONV_BUF]) auto
  then show ?thesis
    using number_text_facts(2) [of 10 v] text_is_cstr [OF m'(2), of 36] by (simp add: unsigned_text_def)
qed

text \<open>The text of a signed number.\<close>

definition signed_number :: "int \<Rightarrow> u8 list" where
  "signed_number z = (if z < 0 then 45 # number_text 10 (nat (- z)) else number_text 10 (nat z))"

lemma signed_parts:
  fixes v :: u32
  shows "sint v < 0 \<Longrightarrow> unat (- v) = nat (- sint v)" "0 \<le> sint v \<Longrightarrow> unat v = nat (sint v)"
proof -
  have b: "- (2 ^ 31) \<le> sint v" "sint v < 2 ^ 31" using sint_ge [of v] sint_lt [of v] by simp_all
  have u: "unat (word_of_int x :: u32) = nat x" if "0 \<le> x" "x < 2 ^ 32" for x
    using that by (simp add: unat_eq_nat_uint uint_word_of_int_eq take_bit_int_eq_self)
  show "unat (- v) = nat (- sint v)" if "sint v < 0" using u [of "- sint v"] that b by simp
  show "unat v = nat (sint v)" if "0 \<le> sint v" using u [of "sint v"] that b by simp
qed

lemma is_cstr_Cons:
  assumes "is_cstr m (a + 1) xs" "m a = c" "c \<noteq> 0" "length xs \<le> 32"
  shows "is_cstr m a (c # xs)"
  using assms by (simp add: is_cstr_def bytes_at_Suc add.assoc)

lemma signed_text_is: "text_is (signed_text m v) (signed_number (sint v))"
proof (cases "v <s 0")
  case True
  let ?xs = "number_text (unat (10 :: u32)) (unat (- v))"
  obtain m' where m': "itoa (m(CONV_BUF := 45)) (- v) (CONV_BUF + 1) 10 = Some m'" "is_cstr m' (CONV_BUF + 1) ?xs"
      "\<And>a. length ?xs < unat (a - (CONV_BUF + 1)) \<Longrightarrow> m' a = (m(CONV_BUF := 45)) a"
    by (rule itoa_text [where radix = 10 and v = "- v" and m = "m(CONV_BUF := 45)" and buf = "CONV_BUF + 1"]) auto
  have len: "length ?xs \<le> 32" using number_text_facts(2) [of 10 "- v"] by simp
  have "unat (CONV_BUF - (CONV_BUF + 1) :: addr) = 2 ^ 32 - 1" by (simp add: unsigned_minus_1_eq_mask mask_eq_exp_minus_1)
  then have "m' CONV_BUF = 45" using m'(3) [of CONV_BUF] len by simp
  then have "is_cstr m' CONV_BUF (45 # ?xs)" using m'(2) len by (intro is_cstr_Cons) simp_all
  moreover have "sint v < 0" "unat (- v) = nat (- sint v)" using True signed_parts by (simp_all add: word_sless_alt)
  ultimately show ?thesis
    using text_is_cstr [of m' CONV_BUF "45 # ?xs" 36] len m'(1) True by (simp add: signed_text_def signed_number_def)
next
  case False
  have v: "0 \<le> sint v" "unat v = nat (sint v)" using False signed_parts by (simp_all add: word_sless_alt)
  obtain m' where m': "itoa m v CONV_BUF 10 = Some m'" "is_cstr m' CONV_BUF (number_text (unat (10 :: u32)) (unat v))"
    by (rule itoa_text [where radix = 10 and v = v and m = m and buf = CONV_BUF]) auto
  then show ?thesis
    using number_text_facts(2) [of 10 v] text_is_cstr [OF m'(2), of 36] False v by (simp add: signed_text_def signed_number_def)
qed

lemma pad_zeros_at:
  assumes "0 \<le> i" "k < 64"
  shows "pad_zeros m i (CONV_BUF + of_nat k) = (if i \<le> int k \<and> k < 8 then 48 else m (CONV_BUF + of_nat k))"
  using assms
proof (induction m i rule: pad_zeros.induct)
  case (1 m i)
  show ?case
  proof (cases "i < 8")
    case True
    have e: "(word_of_int i :: addr) = of_nat k \<longleftrightarrow> i = int k"
      using offset_inj [of i "int k"] 1(2,3) True by simp
    let ?m = "m(CONV_BUF + word_of_int i := 48)"
    have "?m (CONV_BUF + of_nat k) = (if i = int k then 48 else m (CONV_BUF + of_nat k))"
      using e by (simp add: eq_commute [of "of_nat k"])
    moreover have "pad_zeros ?m (i + 1) (CONV_BUF + of_nat k) = (if i + 1 \<le> int k \<and> k < 8 then 48 else ?m (CONV_BUF + of_nat k))"
      by (rule "1.IH" [OF True]) (use "1.prems" in simp_all)
    moreover have "pad_zeros m i = pad_zeros ?m (i + 1)" using True by (subst pad_zeros.simps) simp
    ultimately have "pad_zeros m i (CONV_BUF + of_nat k) =
        (if i + 1 \<le> int k \<and> k < 8 then 48 else if i = int k then 48 else m (CONV_BUF + of_nat k))" by (simp only:)
    moreover have "i \<le> int k \<and> k < 8 \<longleftrightarrow> i + 1 \<le> int k \<and> k < 8 \<or> i = int k" using True by linarith
    ultimately show ?thesis by (simp only: split: if_split) blast
  next
    case False
    then show ?thesis by (subst pad_zeros.simps) auto
  qed
qed

text \<open>A hexadecimal number in eight digits.\<close>

definition hex8 :: "nat \<Rightarrow> u8 list" where
  "hex8 v = replicate (8 - length (number_text 16 v)) 48 @ number_text 16 v"

lemma hex_digits: "length (number_text 16 (unat (v :: u32))) \<le> 8"
proof -
  have "unat v < 16 ^ 8" using unat_lt32 [of v] by simp
  then show ?thesis using digits_length [of 16 "unat v" 8] by (simp add: number_text_def)
qed

lemma hex_text_plain: "text_is (hex_text m False v) (number_text 16 (unat v))"
proof -
  obtain m' where m': "itoa m v CONV_BUF 16 = Some m'" "is_cstr m' CONV_BUF (number_text (unat (16 :: u32)) (unat v))"
    by (rule itoa_text [where radix = 16 and v = v and m = m and buf = CONV_BUF]) auto
  then show ?thesis using hex_digits [of v] text_is_cstr [OF m'(2), of 64] by (simp add: hex_text_def)
qed

lemma hex_text_padded: "text_is (hex_text m True v) (hex8 (unat v))"
proof -
  let ?xs = "number_text 16 (unat v)"
  obtain m' where m': "itoa m v (CONV_BUF + 8) 16 = Some m'" "is_cstr m' (CONV_BUF + 8) (number_text (unat (16 :: u32)) (unat v))"
    by (rule itoa_text [where radix = 16 and v = v and m = m and buf = "CONV_BUF + 8"]) auto
  define n where "n = length ?xs"
  have n: "n \<le> 8" unfolding n_def by (rule hex_digits)
  have c: "is_cstr m' (CONV_BUF + 8) ?xs" using m'(2) by simp
  define p where "p = pad_zeros m' (int n)"
  have pt: "p (CONV_BUF + of_nat k) = (if n \<le> k \<and> k < 8 then 48 else m' (CONV_BUF + of_nat k))" if "k < 64" for k
    unfolding p_def using pad_zeros_at [of "int n" k m'] that by simp
  have "bytes_at p (CONV_BUF + of_nat n) (8 - n) = replicate (8 - n) 48"
  proof (intro nth_equalityI)
    fix i assume "i < length (bytes_at p (CONV_BUF + of_nat n) (8 - n))"
    then have "i < 8 - n" "n + i < 8" by simp_all
    then show "bytes_at p (CONV_BUF + of_nat n) (8 - n) ! i = replicate (8 - n) 48 ! i"
      using pt [of "n + i"] by (simp add: add.assoc)
  qed simp
  moreover have "bytes_at p (CONV_BUF + 8) 56 = bytes_at m' (CONV_BUF + 8) 56"
  proof (rule bytes_at_cong)
    fix i assume "i < (56 :: nat)"
    then have "8 + i < 64" by simp
    from pt [OF this] show "p (CONV_BUF + 8 + of_nat i) = m' (CONV_BUF + 8 + of_nat i)" by (simp add: add.assoc)
  qed
  moreover obtain rest where "bytes_at m' (CONV_BUF + 8) 56 = ?xs @ 0 # rest"
    using bytes_at_cstr [OF c, of 56] n by (auto simp: n_def)
  moreover have s: "64 - n = (8 - n) + 56" "CONV_BUF + of_nat n + of_nat (8 - n) = CONV_BUF + 8"
    using n by (simp_all add: add.assoc flip: of_nat_add)
  ultimately have "bytes_at p (CONV_BUF + of_nat n) (64 - n) = hex8 (unat v) @ 0 # rest"
    unfolding s(1) bytes_at_append s(2) hex8_def n_def [symmetric] by simp
  moreover have "hex_text m True v = Some (bytes_at p (CONV_BUF + of_nat n) (64 - n))"
  proof -
    have "sint (of_nat n :: u32) = int n" "unat (of_nat n :: u32) = n"
      using n signed_take_bit_int_eq_self [of 31 "int n"] sint_sbintrunc' [of "int n", where ?'a = 32] by (simp_all add: unat_of_nat32)
    then show ?thesis using m'(1) strlen_cstr [OF c] by (simp add: hex_text_def n_def p_def Let_def)
  qed
  moreover have "0 \<notin> set (hex8 (unat v))" using number_text_facts(1) [of 16 v] by (simp add: hex8_def)
  ultimately show ?thesis by (auto simp: text_is_def)
qed

section \<open>Directives\<close>

datatype directive = Lit u8 | Percent | Hex | Hex8 | Unsigned | Signed | Char | Str

text \<open>How a directive is written in a format string, whether it takes an argument, and what it
  prints for it.\<close>

fun written :: "directive \<Rightarrow> u8 list" where
  "written (Lit c) = [c]"
| "written Percent = [0x25, 0x25]"
| "written Hex = [0x25, 0x78]"
| "written Hex8 = [0x25, 0x23, 0x78]"
| "written Unsigned = [0x25, 0x75]"
| "written Signed = [0x25, 0x64]"
| "written Char = [0x25, 0x63]"
| "written Str = [0x25, 0x73]"

fun takes_arg :: "directive \<Rightarrow> bool" where
  "takes_arg (Lit c) = False"
| "takes_arg Percent = False"
| "takes_arg _ = True"

fun rendered :: "(u32 \<Rightarrow> u8 list) \<Rightarrow> directive \<Rightarrow> u32 \<Rightarrow> u8 list" where
  "rendered str (Lit c) v = [c]"
| "rendered str Percent v = [0x25]"
| "rendered str Hex v = number_text 16 (unat v)"
| "rendered str Hex8 v = hex8 (unat v)"
| "rendered str Unsigned v = number_text 10 (unat v)"
| "rendered str Signed v = signed_number (sint v)"
| "rendered str Char v = [ucast v]"
| "rendered str Str v = cstr (str v)"

fun render :: "(u32 \<Rightarrow> u8 list) \<Rightarrow> directive list \<Rightarrow> u32 list \<Rightarrow> u8 list" where
  "render str [] args = []"
| "render str (d # ds) args =
     (if takes_arg d then rendered str d (hd args) @ render str ds (tl args) else rendered str d 0 @ render str ds args)"

definition plain_lits :: "directive list \<Rightarrow> bool" where
  "plain_lits ds \<longleftrightarrow> (\<forall>c. Lit c \<in> set ds \<longrightarrow> c \<noteq> 0 \<and> c \<noteq> 0x25)"

lemma text_is_string: "0 \<in> set bs \<Longrightarrow> text_is (Some bs) (cstr bs)"
proof -
  assume "0 \<in> set bs"
  then obtain xs ys where bs: "bs = xs @ 0 # ys" "0 \<notin> set xs" by (meson split_list_first)
  then have "cstr bs = xs" unfolding cstr_def by (subst bs(1), subst takeWhile_append2) auto
  then show ?thesis using bs by (simp add: text_is_def)
qed

lemma printf_directives:
  assumes "plain_lits ds" "length args = length (filter takes_arg ds)" "\<And>v. 0 \<in> set (str v)"
  shows "printf_from m str None (concat (map written ds) @ 0 # rest) args i s =
    Some (i + int (length (concat (map written ds))), fold putc (render str ds args) s)"
  using assms(1,2)
proof (induction ds arbitrary: args i s)
  case Nil
  then show ?case by simp
next
  case (Cons d ds)
  have p: "plain_lits ds" using Cons.prems(1) by (simp add: plain_lits_def)
  note t = puts_text_is [OF hex_text_plain] puts_text_is [OF hex_text_padded] puts_text_is [OF unsigned_text_is]
    puts_text_is [OF signed_text_is] puts_text_is [OF text_is_string [OF assms(3)]]
  show ?case
  proof (cases "takes_arg d")
    case True
    then obtain v as where "args = v # as" "length as = length (filter takes_arg ds)"
      using Cons.prems(2) by (cases args) auto
    then show ?thesis using Cons.IH [OF p] True by (cases d) (simp_all add: t)
  next
    case False
    then have "length args = length (filter takes_arg ds)" using Cons.prems(2) by simp
    then show ?thesis using Cons.IH [OF p] False Cons.prems(1) by (cases d) (auto simp: plain_lits_def)
  qed
qed

text \<open>A percent sign at the end of a format string makes the loop step over the terminator: it goes
  on with the bytes behind the string.\<close>

lemma printf_past_end:
  "printf_from m str None (0x25 # 0 # buf) args i s = printf_from m str None buf args (2 + i) s"
  by simp

section \<open>Properties\<close>

text \<open>\<open>itoa\<close> writes positional notation. For every radix from 2 to 36 it ends and leaves in the buffer
  a string of at most 32 digits and its terminator which, read back digit by digit in that radix, is
  the number, with no leading zero except for the number 0; no byte behind the terminator or before
  the buffer changes.\<close>

theorem itoa_prints_number:
  fixes v radix :: u32
  assumes "2 \<le> radix" "radix \<le> 36"
  shows "\<exists>m' xs. itoa m v buf radix = Some m' \<and> is_cstr m' buf xs \<and> read_number (unat radix) xs = unat v \<and>
    xs \<noteq> [] \<and> length xs \<le> 32 \<and> (hd xs = 48 \<longrightarrow> v = 0) \<and> (\<forall>a. 32 < unat (a - buf) \<longrightarrow> m' a = m a)"
proof -
  have r: "2 \<le> unat radix" "unat radix \<le> 36" using assms by (simp_all add: word_le_nat_alt)
  let ?xs = "number_text (unat radix) (unat v)"
  obtain m' where m': "itoa m v buf radix = Some m'" "is_cstr m' buf ?xs" "\<And>a. length ?xs < unat (a - buf) \<Longrightarrow> m' a = m a"
    by (rule itoa_text [OF r, where m = m and buf = buf and v = v]) auto
  note f = number_text_facts [OF r, of v]
  have "hd ?xs = 48 \<longrightarrow> v = 0" using hd_number_text [OF r, of "unat v"] by (auto simp: unat_eq_0)
  then show ?thesis
    using m' f number_text_roundtrip [OF r, of "unat v"] by (intro exI [of _ m'] exI [of _ ?xs]) auto
qed

theorem itoa_prints_number_witness:
  "\<exists>m' xs. itoa (\<lambda>_. 0) 255 0x1000 16 = Some m' \<and> is_cstr m' 0x1000 xs \<and> read_number 16 xs = 255"
  using itoa_prints_number [of 16 "\<lambda>_. 0" 255 "0x1000"] by auto

text \<open>C37: \<open>printf\<close> prints what its format says. A format string made of ordinary characters and the
  documented directives, with one argument for each directive that needs one, prints the characters,
  the numbers in decimal or hexadecimal (eight digits for the alternate form, a minus sign for
  negative ones), the argument's character and the argument's string up to its terminator, all on
  the console, and returns the length of the format.\<close>

theorem printf_renders:
  assumes "plain_lits ds" "length args = length (filter takes_arg ds)" "\<forall>v. 0 \<in> set (str v)"
  shows "printf m str (concat (map written ds) @ 0 # rest) args s =
    Some (int (length (concat (map written ds))), fold putc (render str ds args) s)"
  using printf_directives [OF assms(1,2), of str m rest 0 s] assms(3) by (simp add: printf_def)

theorem printf_renders_witness:
  "printf (\<lambda>_. 0) (\<lambda>_. [0]) [0x69, 0x3D, 0x25, 0x64, 0x0A, 0] [- 5] console0 =
     Some (5, fold putc [0x69, 0x3D, 0x2D, 0x35, 0x0A] console0)"
proof -
  have "number_text 10 5 = [0x35]" by (simp add: number_text_def digits.simps lookup_nth)
  then have "signed_number (- 5) = [0x2D, 0x35]" by (simp add: signed_number_def)
  then show ?thesis
    using printf_renders [of "[Lit 0x69, Lit 0x3D, Signed, Lit 0x0A]" "[- 5]" "\<lambda>_. [0]" "\<lambda>_. 0" "[]" console0]
    by (simp add: plain_lits_def)
qed

end
