(* ===== verification/Interrupts.thy ===== *)
theory Interrupts
  imports Stacks Format
begin

text \<open>
  The interrupt descriptor table of \<open>student-distrib/idt_init.c\<close>: its gates, the handlers the other
  components do not have, and the exception handlers, which end the process that caused the
  exception. The addresses of the handlers come from the linker and are a parameter.
\<close>

section \<open>The table\<close>

text \<open>\<open>idt_desc_t\<close> of \<open>x86_desc.h\<close>, bit fields as words of their width.\<close>

record idt_desc =
  offset_15_00 :: u16
  seg_selector :: u16
  reserved4 :: u8
  reserved3 :: "1 word"
  reserved2 :: "1 word"
  reserved1 :: "1 word"
  gate_size :: "1 word"
  reserved0 :: "1 word"
  dpl :: "2 word"
  present :: "1 word"
  offset_31_16 :: u16

datatype exception =
    DIVIDE_ERROR
  | RESERVED
  | NMI
  | BREAKPOINT
  | OVERFLOW
  | BOUND_RANGE_EXCEEDED
  | INVALID_OPCODE
  | DEVICE_NOT
  | DOUBLE_FAULT
  | SEGMENT_OVERRUN
  | INVALID_TSS
  | SEGMENT_NOT_PRESENT
  | STACK_SEGMENT_FAULT
  | GENERAL_PROTECTION
  | PAGE_FAULT
  | MATH_FAULT
  | ALIGNMENT_CHECK
  | MACHINE_CHECK
  | SIMD_FLOATING_POINT_EXCEPTION

datatype handler =
    Exception exception
  | Exception_func
  | Test_interrupt
  | System_call
  | Pit_linkage
  | Keyboard_linkage
  | Rtc_linkage
  | Irq nat

abbreviation (input) KERNEL_CS :: u16 where "KERNEL_CS \<equiv> 0x10"
abbreviation (input) NUM_EXCEPTION :: int where "NUM_EXCEPTION \<equiv> 32"
abbreviation (input) NUM_VEC :: int where "NUM_VEC \<equiv> 256"
abbreviation (input) SYS_CALL_INDEX :: int where "SYS_CALL_INDEX \<equiv> 0x80"

definition SET_IDT_ENTRY :: "u32 \<Rightarrow> idt_desc \<Rightarrow> idt_desc" where
  "SET_IDT_ENTRY handler d =
     d\<lparr>offset_31_16 := ucast (drop_bit 16 (handler AND 0xFFFF0000)), offset_15_00 := ucast (handler AND 0xFFFF)\<rparr>"

definition exception_gate :: "idt_desc \<Rightarrow> idt_desc" where
  "exception_gate d =
     d\<lparr>present := 1, dpl := 0, reserved0 := 0, gate_size := 1, reserved1 := 1, reserved2 := 1, reserved3 := 1,
       reserved4 := 0, seg_selector := KERNEL_CS\<rparr>"

definition interrupt_gate :: "idt_desc \<Rightarrow> idt_desc" where
  "interrupt_gate d =
     d\<lparr>present := 1, dpl := 0, reserved0 := 0, gate_size := 1, reserved1 := 1, reserved2 := 1, reserved3 := 0,
       reserved4 := 0, seg_selector := KERNEL_CS\<rparr>"

definition system_call_gate :: "idt_desc \<Rightarrow> idt_desc" where
  "system_call_gate d =
     d\<lparr>present := 1, dpl := 3, reserved0 := 0, gate_size := 1, reserved1 := 1, reserved2 := 1, reserved3 := 0,
       reserved4 := 0, seg_selector := KERNEL_CS\<rparr>"

text \<open>The entries set one by one at the end of \<open>initialize_idt\<close>.\<close>

definition own_handlers :: "(int \<times> handler) list" where
  "own_handlers =
     [(0, Exception DIVIDE_ERROR),
      (1, Exception RESERVED),
      (2, Exception NMI),
      (3, Exception BREAKPOINT),
      (4, Exception OVERFLOW),
      (5, Exception BOUND_RANGE_EXCEEDED),
      (6, Exception INVALID_OPCODE),
      (7, Exception DEVICE_NOT),
      (8, Exception DOUBLE_FAULT),
      (9, Exception SEGMENT_OVERRUN),
      (10, Exception INVALID_TSS),
      (11, Exception SEGMENT_NOT_PRESENT),
      (12, Exception STACK_SEGMENT_FAULT),
      (13, Exception GENERAL_PROTECTION),
      (14, Exception PAGE_FAULT),
      (16, Exception MATH_FAULT),
      (17, Exception ALIGNMENT_CHECK),
      (18, Exception MACHINE_CHECK),
      (19, Exception SIMD_FLOATING_POINT_EXCEPTION),
      (0x28, Rtc_linkage), (0x21, Keyboard_linkage), (0x20, Pit_linkage),
      (0x22, Irq 2), (0x23, Irq 3), (0x24, Irq 4), (0x25, Irq 5), (0x26, Irq 6), (0x27, Irq 7), (0x29, Irq 9), (0x2a, Irq 10), (0x2b, Irq 11), (0x2c, Irq 12), (0x2d, Irq 13), (0x2e, Irq 14), (0x2f, Irq 15)]"

definition initialize_idt :: "(handler \<Rightarrow> u32) \<Rightarrow> idt_desc carray \<Rightarrow> idt_desc carray" where
  "initialize_idt place idt =
     (let idt = fold (\<lambda>i idt. idt(i := SET_IDT_ENTRY (place Exception_func) (exception_gate (idt i))))
                  [0..NUM_EXCEPTION - 1] idt;
          idt = fold (\<lambda>i idt. if i = SYS_CALL_INDEX then idt
                              else idt(i := SET_IDT_ENTRY (place Test_interrupt) (interrupt_gate (idt i))))
                  [NUM_EXCEPTION..NUM_VEC - 1] idt;
          idt = idt(SYS_CALL_INDEX := SET_IDT_ENTRY (place System_call) (system_call_gate (idt SYS_CALL_INDEX)))
      in fold (\<lambda>(i, h) idt. idt(i := SET_IDT_ENTRY (place h) (idt i))) own_handlers idt)"

section \<open>Handlers that only print\<close>

definition ascii :: "string \<Rightarrow> u8 list" where
  "ascii = map of_char"

text \<open>\<open>printf\<close> of a constant without directives; \<open>m\<close> is the memory with its locals.\<close>

definition print_const :: "mem \<Rightarrow> string \<Rightarrow> 'a console_scheme \<Rightarrow> 'a console_scheme option" where
  "print_const m msg s = map_option snd (printf m (\<lambda>_. [0]) (ascii msg @ [0]) [] s)"

definition irq1_handler :: "mem \<Rightarrow> 'a console_scheme \<Rightarrow> 'a console_scheme option" where
  "irq1_handler m s = print_const m ''keyboard interrupt\<newline>'' (send_eoi 1 s)"

definition irq2_handler :: "mem \<Rightarrow> 'a console_scheme \<Rightarrow> 'a console_scheme option" where
  "irq2_handler m s = print_const m ''slave interrupt\<newline>'' (send_eoi 2 s)"

definition irq3_handler :: "mem \<Rightarrow> 'a console_scheme \<Rightarrow> 'a console_scheme option" where
  "irq3_handler m s = print_const m ''irq3 interrupt\<newline>'' (send_eoi 3 s)"

definition irq4_handler :: "mem \<Rightarrow> 'a console_scheme \<Rightarrow> 'a console_scheme option" where
  "irq4_handler m s = print_const m ''serial port interrupt\<newline>'' (send_eoi 4 s)"

definition irq5_handler :: "mem \<Rightarrow> 'a console_scheme \<Rightarrow> 'a console_scheme option" where
  "irq5_handler m s = print_const m ''irq_5\<newline>'' (send_eoi 5 s)"

definition irq6_handler :: "mem \<Rightarrow> 'a console_scheme \<Rightarrow> 'a console_scheme option" where
  "irq6_handler m s = print_const m ''irq_6\<newline>'' (send_eoi 6 s)"

definition irq7_handler :: "mem \<Rightarrow> 'a console_scheme \<Rightarrow> 'a console_scheme option" where
  "irq7_handler m s = print_const m ''irq_7'' (send_eoi 7 s)"

definition irq9_handler :: "mem \<Rightarrow> 'a console_scheme \<Rightarrow> 'a console_scheme option" where
  "irq9_handler m s = print_const m ''irq_9\<newline>'' (send_eoi 9 s)"

definition irq10_handler :: "mem \<Rightarrow> 'a console_scheme \<Rightarrow> 'a console_scheme option" where
  "irq10_handler m s = print_const m ''irq_10\<newline>'' (send_eoi 10 s)"

definition irq11_handler :: "mem \<Rightarrow> 'a console_scheme \<Rightarrow> 'a console_scheme option" where
  "irq11_handler m s = print_const m ''irq_11, eth0(network)\<newline>'' (send_eoi 11 s)"

definition irq12_handler :: "mem \<Rightarrow> 'a console_scheme \<Rightarrow> 'a console_scheme option" where
  "irq12_handler m s = print_const m ''irq_12, PS/2 mouse interrupt\<newline>'' (send_eoi 12 s)"

definition irq13_handler :: "mem \<Rightarrow> 'a console_scheme \<Rightarrow> 'a console_scheme option" where
  "irq13_handler m s = print_const m ''irq_13\<newline>'' (send_eoi 13 s)"

definition irq14_handler :: "mem \<Rightarrow> 'a console_scheme \<Rightarrow> 'a console_scheme option" where
  "irq14_handler m s = print_const m ''irq_14, ide0(hard drive interrupt)\<newline>'' (send_eoi 14 s)"

definition irq15_handler :: "mem \<Rightarrow> 'a console_scheme \<Rightarrow> 'a console_scheme option" where
  "irq15_handler m s = print_const m ''irq_15\<newline>'' (send_eoi 15 s)"

definition sys_call_handler :: "mem \<Rightarrow> 'a console_scheme \<Rightarrow> 'a console_scheme option" where
  "sys_call_handler m s = print_const m ''System call handler here!\<newline>'' s"

definition test_interrupt :: "mem \<Rightarrow> 'a console_scheme \<Rightarrow> 'a console_scheme option" where
  "test_interrupt m s = print_const m ''Steve Lumetta is an AI coded by Steven Lumetta\<newline>'' s"

definition exception_func :: "mem \<Rightarrow> 'a console_scheme \<Rightarrow> 'a console_scheme option" where
  "exception_func m s = print_const m ''This is exception\<newline>'' s"

section \<open>Exceptions\<close>

primrec exception_msg :: "exception \<Rightarrow> string" where
  "exception_msg DIVIDE_ERROR = ''Divide Error''"
| "exception_msg RESERVED = ''RESERVED''"
| "exception_msg NMI = ''NMI''"
| "exception_msg BREAKPOINT = ''Breakpoint''"
| "exception_msg OVERFLOW = ''Overflow''"
| "exception_msg BOUND_RANGE_EXCEEDED = ''BOUND Range Exceeded''"
| "exception_msg INVALID_OPCODE = ''Invalid OPCODE''"
| "exception_msg DEVICE_NOT = ''Device Not Available''"
| "exception_msg DOUBLE_FAULT = ''Double Fault''"
| "exception_msg SEGMENT_OVERRUN = ''Coprocessor Segment Overrun''"
| "exception_msg INVALID_TSS = ''Invalid TSS''"
| "exception_msg SEGMENT_NOT_PRESENT = ''Segment Not Present''"
| "exception_msg STACK_SEGMENT_FAULT = ''Stack Segment Fault''"
| "exception_msg GENERAL_PROTECTION = ''General Protection''"
| "exception_msg PAGE_FAULT = ''Page Fault''"
| "exception_msg MATH_FAULT = ''x87 FPU Floating-Point Error(Math Fault)''"
| "exception_msg ALIGNMENT_CHECK = ''Alignment Check''"
| "exception_msg MACHINE_CHECK = ''Machine Check''"
| "exception_msg SIMD_FLOATING_POINT_EXCEPTION = ''SIMD Floating-point exception''"

text \<open>\<open>EXCEPTION_MAKER(x, msg)\<close>, with the message's bytes behind the pointer passed to \<open>printf\<close>.\<close>

definition EXCEPTION_MAKER :: "mem \<Rightarrow> exception \<Rightarrow> 'a kernel_scheme \<Rightarrow> 'a kernel_scheme outcome" where
  "EXCEPTION_MAKER m x s =
     (case printf m (\<lambda>_. ascii (exception_msg x) @ [0]) (ascii ''Exception: %s\<newline>'' @ [0]) [0] (cli s) of
        None \<Rightarrow> Waits
      | Some (_, s) \<Rightarrow>
          let p = cur_pcb s;
              s = s\<lparr>process_num := process_num s - 1\<rparr>;
              s = s\<lparr>process_array := (process_array s)(pid p - 1 := - 1)\<rparr>;
              s = upd_sched (cur_sched_term s) (\<lambda>n. n\<lparr>sn_process_num := parent_pid p,
                    sn_esp := parent_esp p, sn_ebp := parent_ebp p\<rparr>) s;
              s = set_page_dir_entry USER_PROG (prog_frame (parent_pid p)) s;
              s = (if pcb_vidmem p \<noteq> 0 then upd_sched (cur_sched_term s) (\<lambda>n. n\<lparr>sn_vid_map := 0\<rparr>) s else s);
              s = close_all s;
              s = s\<lparr>tss_esp0 := parent_esp p\<rparr>
          in Returns 256 (leave_to (parent_ebp p) (sti s)))"

section \<open>What the gates say\<close>

declare upto_rec_numeral [simp del]

text \<open>The address a gate leads to, and its access byte as the processor reads it.\<close>

definition gate_target :: "idt_desc \<Rightarrow> u32" where
  "gate_target d = push_bit 16 (ucast (offset_31_16 d)) OR ucast (offset_15_00 d)"

definition access_byte :: "idt_desc \<Rightarrow> u8" where
  "access_byte d =
     push_bit 7 (ucast (present d)) OR push_bit 5 (ucast (dpl d)) OR push_bit 4 (ucast (reserved0 d)) OR
     push_bit 3 (ucast (gate_size d)) OR push_bit 2 (ucast (reserved1 d)) OR push_bit 1 (ucast (reserved2 d)) OR
     ucast (reserved3 d)"

text \<open>The processor's check of a software interrupt at privilege level \<open>cpl\<close>.\<close>

definition int_allowed :: "2 word \<Rightarrow> idt_desc \<Rightarrow> bool" where
  "int_allowed cpl d \<longleftrightarrow> present d = 1 \<and> cpl \<le> dpl d"

definition handler_of :: "int \<Rightarrow> handler" where
  "handler_of v =
     (case map_of own_handlers v of
        Some h \<Rightarrow> h
      | None \<Rightarrow> if v = 0x80 then System_call else if v < 32 then Exception_func else Test_interrupt)"

lemma low_half: "(w AND 0xFFFF :: u32) = take_bit 16 w"
  by (simp add: take_bit_eq_mask mask_eq_exp_minus_1)

lemma gate_target_set: "gate_target (SET_IDT_ENTRY h d) = h"
proof -
  have e: "drop_bit 16 (h AND 0xFFFF0000) = drop_bit 16 h AND 0xFFFF" by simp
  have "gate_target (SET_IDT_ENTRY h d) =
      push_bit 16 (ucast (ucast (take_bit 16 (drop_bit 16 h)) :: u16)) OR ucast (ucast (take_bit 16 h) :: u16)"
    unfolding gate_target_def SET_IDT_ENTRY_def e low_half by simp
  also have "\<dots> = h" by (rule bit_word_eqI) (auto simp: bit_simps)
  finally show ?thesis .
qed

lemma set_entry_fields [simp]:
  "present (SET_IDT_ENTRY h d) = present d" "dpl (SET_IDT_ENTRY h d) = dpl d"
  "seg_selector (SET_IDT_ENTRY h d) = seg_selector d" "reserved4 (SET_IDT_ENTRY h d) = reserved4 d"
  "access_byte (SET_IDT_ENTRY h d) = access_byte d"
  by (simp_all add: SET_IDT_ENTRY_def access_byte_def)

lemma fold_update:
  "distinct xs \<Longrightarrow> fold (\<lambda>i t. t(i := g i (t i))) xs t k = (if k \<in> set xs then g k (t k) else t k)"
  by (induction xs arbitrary: t) auto

lemma fold_update_pairs:
  "distinct (map fst xs) \<Longrightarrow>
   fold (\<lambda>(i, h) t. t(i := g h (t i))) xs t k = (case map_of xs k of None \<Rightarrow> t k | Some h \<Rightarrow> g h (t k))"
proof (induction xs arbitrary: t)
  case (Cons x xs)
  obtain i h where x: "x = (i, h)" by (cases x)
  have "map_of xs i = None" using Cons.prems by (simp add: x map_of_eq_None_iff)
  then show ?case using Cons by (auto simp: x split: option.split)
qed simp

lemma set_entry_twice [simp]: "SET_IDT_ENTRY h (SET_IDT_ENTRY h' d) = SET_IDT_ENTRY h d"
  by (simp add: SET_IDT_ENTRY_def)

lemma own_handlers_distinct: "distinct (map fst own_handlers)"
  by (simp add: own_handlers_def)

lemma own_handlers_call: "map_of own_handlers 0x80 = None"
  by (simp add: own_handlers_def)

lemma idt_entry:
  assumes "0 \<le> v" "v < 256"
  shows "initialize_idt place idt v =
    SET_IDT_ENTRY (place (handler_of v))
      (if v = 0x80 then system_call_gate (idt v)
       else if v < 32 then exception_gate (idt v) else interrupt_gate (idt v))"
proof -
  let ?e = "\<lambda>d. SET_IDT_ENTRY (place Exception_func) (exception_gate d)"
    and ?i = "\<lambda>d. SET_IDT_ENTRY (place Test_interrupt) (interrupt_gate d)"
  define t1 where "t1 = fold (\<lambda>i t. t(i := ?e (t i))) [0..31] idt"
  define t2 where "t2 = fold (\<lambda>i t. if i = 0x80 then t else t(i := ?i (t i))) [32..255] t1"
  define t3 where "t3 = t2(0x80 := SET_IDT_ENTRY (place System_call) (system_call_gate (t2 0x80)))"
  define g where "g = (\<lambda>i d. if i = (0x80 :: int) then d else ?i d)"
  have t2: "t2 = fold (\<lambda>i t. t(i := g i (t i))) [32..255] t1"
    unfolding t2_def by (intro fold_cong refl) (auto simp: g_def fun_eq_iff)
  have u1: "t1 k = (if k \<in> set [0..31] then ?e (idt k) else idt k)" for k
    unfolding t1_def using fold_update [of "[0..31]" "\<lambda>_. ?e" idt k] by simp
  have u2: "t2 k = (if k \<in> set [32..255] then (if k = 0x80 then t1 k else ?i (t1 k)) else t1 k)" for k
    unfolding t2 using fold_update [of "[32..255]" g t1 k] by (simp add: g_def)
  have u3: "t3 v = (if v = 0x80 then SET_IDT_ENTRY (place System_call) (system_call_gate (idt v))
      else if v < 32 then ?e (idt v) else ?i (idt v))"
    using assms by (simp add: t3_def u2 u1)
  have "initialize_idt place idt v = (case map_of own_handlers v of None \<Rightarrow> t3 v | Some h \<Rightarrow> SET_IDT_ENTRY (place h) (t3 v))"
    using fold_update_pairs [OF own_handlers_distinct, of "\<lambda>h. SET_IDT_ENTRY (place h)" t3 v]
    by (simp add: initialize_idt_def Let_def t3_def t2_def t1_def)
  then show ?thesis
    using u3 by (auto simp: handler_of_def own_handlers_call split: option.split)
qed

lemma access_bytes:
  "access_byte (system_call_gate d) = 0xEE" "access_byte (exception_gate d) = 0x8F" "access_byte (interrupt_gate d) = 0x8E"
  by (simp_all add: access_byte_def system_call_gate_def exception_gate_def interrupt_gate_def)

section \<open>Printing\<close>

lemma print_const_eq:
  assumes "\<And>c. c \<in> set (ascii msg) \<Longrightarrow> c \<noteq> 0 \<and> c \<noteq> 0x25"
  shows "print_const m msg s = Some (fold putc (ascii msg) s)"
proof -
  have "plain_lits (map Lit (ascii msg))" using assms by (auto simp: plain_lits_def)
  moreover have "concat (map written (map Lit xs)) = xs" "render str (map Lit xs) [] = xs" "filter takes_arg (map Lit xs) = []" for str xs
    by (induction xs) simp_all
  ultimately show ?thesis
    using printf_directives [of "map Lit (ascii msg)" "[]" "\<lambda>_. [0]" m "[]" 0 s]
    by (simp add: print_const_def printf_def)
qed

section \<open>Ending a process by an exception\<close>

lemma ascii_append: "ascii (xs @ ys) = ascii xs @ ascii ys"
  by (simp add: ascii_def)

lemma exception_msg_plain: "0 \<notin> set (ascii (exception_msg x))"
  by (cases x) (simp_all add: ascii_def)

lemma exception_print:
  "printf m (\<lambda>_. ascii (exception_msg x) @ [0]) (ascii ''Exception: %s\<newline>'' @ [0]) [0] s =
   Some (14, fold putc (ascii ''Exception: '' @ ascii (exception_msg x) @ [0x0A]) s)"
proof -
  let ?ds = "map Lit (ascii ''Exception: '') @ [Str, Lit 0x0A]" and ?str = "\<lambda>_. ascii (exception_msg x) @ [0]"
  have "plain_lits ?ds" by (auto simp: plain_lits_def ascii_def)
  moreover have "length [0 :: u32] = length (filter takes_arg ?ds)" by (simp add: ascii_def)
  moreover have "concat (map written ?ds) = ascii ''Exception: %s\<newline>''" by (simp add: ascii_def)
  moreover have "cstr (?str 0) = ascii (exception_msg x)"
    using cstr_append_zero [OF exception_msg_plain [of x], of "[]"] by simp
  then have "render ?str ?ds [0] = ascii ''Exception: '' @ ascii (exception_msg x) @ [0x0A]"
    by (simp add: ascii_def)
  moreover have "length (ascii ''Exception: %s\<newline>'') = 14" by (simp add: ascii_def)
  ultimately show ?thesis
    using printf_directives [of ?ds "[0]" ?str m "[]" 0 s] by (simp add: printf_def)
qed

text \<open>The state before the descriptors are closed.\<close>

definition excepted :: "pcb \<Rightarrow> 'a kernel_scheme \<Rightarrow> 'a kernel_scheme" where
  "excepted p s =
     (let c = cur_sched_term s in
      s\<lparr>process_num := process_num s - 1, process_array := (process_array s)(pid p - 1 := - 1),
        page_directory := (page_directory s)(32 := prog_frame (parent_pid p) OR 0x087),
        sched_arr := (sched_arr s)(c := (sched_arr s c)\<lparr>sn_process_num := parent_pid p,
          sn_esp := parent_esp p, sn_ebp := parent_ebp p,
          sn_vid_map := if pcb_vidmem p \<noteq> 0 then 0 else sn_vid_map (sched_arr s c)\<rparr>)\<rparr>)"

lemma excepted_kept:
  assumes "kept v = kept s"
  shows "kept (excepted p v) = kept (excepted p s)"
  using assms by (cases s; cases v; simp add: kept_def core_of_def excepted_def Let_def)

definition exception_text :: "exception \<Rightarrow> u8 list" where
  "exception_text x = ascii ''Exception: '' @ ascii (exception_msg x) @ [0x0A]"

lemma exception_eq:
  fixes s :: "'a kernel_scheme" and x :: exception
  defines "v \<equiv> fold putc (exception_text x) (cli s)"
  shows "EXCEPTION_MAKER m x s = Returns 256 (leave_to (parent_ebp (cur_pcb s))
       ((close_all (excepted (cur_pcb s) v))\<lparr>tss_esp0 := parent_esp (cur_pcb s), iflag := True\<rparr>))"
    "kept v = kept s"
proof -
  show k: "kept v = kept s" unfolding v_def by (subst fold_kept) simp_all
  have p: "cur_pcb v = cur_pcb s" using kept_kernel [OF k] by simp
  let ?p = "cur_pcb s"
  define u where "u = upd_sched (cur_sched_term v) (\<lambda>n. n\<lparr>sn_process_num := parent_pid ?p, sn_esp := parent_esp ?p,
      sn_ebp := parent_ebp ?p\<rparr>) (v\<lparr>process_num := process_num v - 1, process_array := (process_array v)(pid ?p - 1 := - 1)\<rparr>)"
  define u' where "u' = set_page_dir_entry USER_PROG (prog_frame (parent_pid ?p)) u"
  have "(if pcb_vidmem ?p \<noteq> 0 then upd_sched (cur_sched_term u') (\<lambda>n. n\<lparr>sn_vid_map := 0\<rparr>) u' else u') = excepted ?p v"
    by (auto simp: u'_def u_def upd_sched_def set_page_dir_entry_def excepted_def Let_def intro!: kernel.equality)
  then have "excepted ?p v = (if pcb_vidmem ?p \<noteq> 0 then upd_sched (cur_sched_term u') (\<lambda>n. n\<lparr>sn_vid_map := 0\<rparr>) u' else u')" ..
  moreover have "printf m (\<lambda>_. ascii (exception_msg x) @ [0]) (ascii ''Exception: %s\<newline>'' @ [0]) [0] (cli s) = Some (14, v)"
    unfolding v_def exception_text_def by (rule exception_print)
  ultimately show "EXCEPTION_MAKER m x s = Returns 256 (leave_to (parent_ebp (cur_pcb s))
       ((close_all (excepted (cur_pcb s) v))\<lparr>tss_esp0 := parent_esp (cur_pcb s), iflag := True\<rparr>))"
    by (cases "pcb_vidmem ?p = 0") (simp_all add: EXCEPTION_MAKER_def p Let_def sti_def u_def u'_def)
qed

lemma exception_step:
  fixes s :: "'a kernel_scheme"
  obtains v w where "kept v = kept s" "own_fds_only (excepted (cur_pcb s) v) w"
    "EXCEPTION_MAKER m x s = Returns 256 (leave_to (parent_ebp (cur_pcb s))
       (w\<lparr>tss_esp0 := parent_esp (cur_pcb s), iflag := True\<rparr>))"
  by (rule that [OF exception_eq(2) close_all_frame exception_eq(1)])

text \<open>On the kernel stack of the process on top of a terminal, the process ends as by \<open>halt\<close>, with
  the return value 256.\<close>

lemma exception_outcome:
  fixes s :: "'a kernel_scheme"
  assumes "procs s cs" "term_no (cur_sched_term s)" "get_pcb_add s = pcb_addr (hd (cs (cur_sched_term s)))"
    and "cs (cur_sched_term s) = p # q # ps"
  obtains w where
    "EXCEPTION_MAKER m x s = Returns 256 (leave_to (parent_ebp (cur_pcb s))
       (w\<lparr>tss_esp0 := kernel_stack_top q, iflag := True\<rparr>))"
    "procs w (cs(cur_sched_term s := q # ps))" "pid (cur_pcb s) = p" "page_directory w 32 = prog_frame q OR 0x087"
    "own_fds_only (excepted (cur_pcb s) s) w"
proof (rule exception_step [of s m x])
  let ?c = "cur_sched_term s"
  fix v w
  assume k: "kept v = kept s" and o: "own_fds_only (excepted (cur_pcb s) v) w"
    and e: "EXCEPTION_MAKER m x s = Returns 256 (leave_to (parent_ebp (cur_pcb s))
      (w\<lparr>tss_esp0 := parent_esp (cur_pcb s), iflag := True\<rparr>))"
  have "stack_ok s ?c (cs ?c)" using assms(1,2) by (simp add: procs_def)
  then have lk: "linked (pcbs s) (p # q # ps)" unfolding stack_ok_def assms(4) by blast
  then have pr: "pid (cur_pcb s) = p" "parent_pid (cur_pcb s) = q" "parent_esp (cur_pcb s) = kernel_stack_top q"
    using assms(3,4) by (simp_all add: cur_pcb_def)
  have o': "own_fds_only (excepted (cur_pcb s) s) w"
    using own_trans [OF own_kept [OF excepted_kept [OF k]] o] .
  have "procs (excepted (cur_pcb s) s) (cs(?c := q # ps))"
    by (rule procs_pop [OF assms(1,2,4), where n = "sched_arr (excepted (cur_pcb s) s) ?c"])
      (simp_all add: excepted_def Let_def pr)
  from own_fds_procs [OF o' this] have "procs w (cs(?c := q # ps))" .
  moreover have "page_directory w = page_directory (excepted (cur_pcb s) s)"
    using o' by (simp add: own_fds_only_def core_of_def)
  ultimately show thesis
    using e pr o' by (intro that) (simp_all add: excepted_def Let_def)
qed

text \<open>A base shell has parent 0: its page is replaced by the kernel's own 4 MB frame, open to user code.\<close>

lemma exception_base_shell:
  fixes s :: "'a kernel_scheme"
  assumes "parent_pid (cur_pcb s) = 0"
  obtains t where "EXCEPTION_MAKER m x s = Returns 256 t" "page_directory t 32 = 0x400087"
    "sn_process_num (sched_arr t (cur_sched_term s)) = 0"
proof (rule exception_step [of s m x])
  fix v w
  assume k: "kept v = kept s" and o: "own_fds_only (excepted (cur_pcb s) v) w"
    and e: "EXCEPTION_MAKER m x s = Returns 256 (leave_to (parent_ebp (cur_pcb s))
      (w\<lparr>tss_esp0 := parent_esp (cur_pcb s), iflag := True\<rparr>))"
  have "own_fds_only (excepted (cur_pcb s) s) w" using own_trans [OF own_kept [OF excepted_kept [OF k]] o] .
  then have "page_directory w = page_directory (excepted (cur_pcb s) s)" "sched_arr w = sched_arr (excepted (cur_pcb s) s)"
    by (simp_all add: own_fds_only_def core_of_def)
  then show thesis
    by (intro that [OF e]) (simp_all add: leave_to_def excepted_def Let_def assms prog_frame_def)
qed

section \<open>Properties\<close>

text \<open>The table before, all zero.\<close>

definition empty_gate :: idt_desc where
  "empty_gate = \<lparr>offset_15_00 = 0, seg_selector = 0, reserved4 = 0, reserved3 = 0, reserved2 = 0, reserved1 = 0,
     gate_size = 0, reserved0 = 0, dpl = 0, present = 0, offset_31_16 = 0\<rparr>"

text \<open>The interrupt table. After \<open>initialize_idt\<close> every one of the 256 gates is present, runs in the
  kernel's code segment and leads to the address of the handler for its vector; exceptions are 32-bit
  trap gates, everything else is a 32-bit interrupt gate, and the vector of the system calls is the
  only one a user program may raise by \<open>int\<close>.\<close>

theorem idt_gates:
  fixes v place idt
  assumes "0 \<le> v" "v < 256"
  defines "d \<equiv> initialize_idt place idt v"
  shows "gate_target d = place (handler_of v) \<and> seg_selector d = KERNEL_CS \<and> reserved4 d = 0 \<and>
    access_byte d = (if v = 0x80 then 0xEE else if v < 32 then 0x8F else 0x8E) \<and>
    (int_allowed 3 d \<longleftrightarrow> v = 0x80)"
proof -
  note e = idt_entry [OF assms(1,2), of place idt]
  have "gate_target d = place (handler_of v)" unfolding d_def e by (rule gate_target_set)
  moreover have "access_byte d = (if v = 0x80 then 0xEE else if v < 32 then 0x8F else 0x8E)"
    by (simp add: d_def e access_bytes)
  moreover have "seg_selector d = KERNEL_CS \<and> reserved4 d = 0 \<and> (int_allowed 3 d \<longleftrightarrow> v = 0x80)"
    by (simp add: d_def e int_allowed_def system_call_gate_def exception_gate_def interrupt_gate_def)
  ultimately show ?thesis by blast
qed

theorem idt_gates_witness:
  "gate_target (initialize_idt (\<lambda>h. if h = Exception PAGE_FAULT then 0x401234 else 0) (\<lambda>_. empty_gate) 14) = 0x401234"
  using idt_gates [of 14 "\<lambda>h. if h = Exception PAGE_FAULT then 0x401234 else 0" "\<lambda>_. empty_gate"]
  by (simp add: handler_of_def own_handlers_def)



end
