(* ===== verification/Kernel.thy ===== *)
theory Kernel
  imports Interrupts
begin

text \<open>
  The running kernel: system calls, timer ticks, key presses, clock interrupts and exceptions as steps of one
  machine, from the state \<open>launch\<close> leaves on. In every reachable state the kernel works on the
  kernel stack of the process the scheduler says is running, so that \<open>get_pcb_add\<close> finds its control
  block, and every suspended terminal will be resumed on the stack of its own process.
\<close>

section \<open>Steps\<close>

text \<open>In user mode the stack registers are the program's. A trap loads the stack pointer from the TSS
  and the kernel code runs below it: \<open>trap d e s\<close> is the state in which the stack pointer is \<open>d\<close> bytes
  and the frame pointer \<open>e\<close> bytes below.\<close>

datatype mode = User | Kernel

definition trap :: "u32 \<Rightarrow> u32 \<Rightarrow> 'a kernel_scheme \<Rightarrow> 'a kernel_scheme" where
  "trap d e s = s\<lparr>esp := tss_esp0 s - d, ebp := tss_esp0 s - e\<rparr>"

definition frame_ok :: "u32 \<Rightarrow> u32 \<Rightarrow> bool" where
  "frame_ok d e \<longleftrightarrow> 0 < d \<and> d \<le> EIGHT_KB \<and> 8 < e \<and> e \<le> EIGHT_KB"

text \<open>A system call that waits makes no step. The image must be sound when a program is started; the
  process table after any other call does not depend on it. Exceptions are those of processes other than
  the three base shells: \<open>exception_base_shell\<close> shows what happens to these.\<close>

inductive kstep :: "mode \<times> 'a kernel_scheme \<Rightarrow> mode \<times> 'a kernel_scheme \<Rightarrow> bool" where
  call: "frame_ok d e \<Longrightarrow> length (ELF_buf0 l) = 32 \<Longrightarrow> eax = 2 \<longrightarrow> files_ok s \<Longrightarrow>
    system_call_handler eax ebx ecx edx l keys irqs (trap d e s) = Returns r t \<Longrightarrow> kstep (User, s) (Kernel, t)"
| enter_call: "frame_ok d e \<Longrightarrow> length (ELF_buf0 l) = 32 \<Longrightarrow> eax = 2 \<longrightarrow> files_ok s \<Longrightarrow>
    system_call_handler eax ebx ecx edx l keys irqs (trap d e s) = Enters a t \<Longrightarrow> kstep (User, s) (User, t)"
| tick: "frame_ok d e \<Longrightarrow> pit_interrupt_handler (trap d e s) = Return t \<Longrightarrow> kstep (m, s) (Kernel, t)"
| enter_tick: "frame_ok d e \<Longrightarrow> pit_interrupt_handler (trap d e s) = User_mode a t \<Longrightarrow> kstep (m, s) (User, t)"
| key: "kstep (m, s) (m, keyboard_interrupt_handler scan_code s)"
| clock: "kstep (m, s) (m, rtc_interrupt_handler s)"
| exception: "frame_ok d e \<Longrightarrow> pid (cur_pcb (trap d e s)) \<notin> {1, 2, 3} \<Longrightarrow>
    EXCEPTION_MAKER f x (trap d e s) = Returns r t \<Longrightarrow> kstep (User, s) (Kernel, t)"
| iret: "kstep (Kernel, s) (User, s)"

inductive_cases kstepE: "kstep x y"

section \<open>The invariant\<close>

text \<open>The frame each process above the bottom returns to lies in the stack of the one below.\<close>

fun frames_ok :: "(addr \<Rightarrow> pcb) \<Rightarrow> int list \<Rightarrow> bool" where
  "frames_ok b (p # q # ps) = (in_stack q (parent_ebp (b (pcb_addr p)) + 8) \<and> frames_ok b (q # ps))"
| "frames_ok b _ = True"

definition kernel_inv :: "stacks \<Rightarrow> mode \<Rightarrow> 'a kernel_scheme \<Rightarrow> bool" where
  "kernel_inv cs m s \<longleftrightarrow>
     procs s cs \<and> paging_wf s \<and> term_no (cur_sched_term s) \<and> prev_sched_term s \<noteq> - 1 \<and>
     runs_process s (hd (cs (cur_sched_term s))) \<and>
     (\<forall>k. term_no k \<and> k \<noteq> cur_sched_term s \<longrightarrow>
        sn_esp (sched_arr s k) = - 1 \<or> in_stack (hd (cs k)) (sn_esp (sched_arr s k))) \<and>
     (\<forall>k. term_no k \<longrightarrow> frames_ok (pcbs s) (cs k)) \<and>
     (m = Kernel \<longrightarrow> in_stack (hd (cs (cur_sched_term s))) (esp s))"

lemma frames_ok_cong:
  assumes "\<And>p. p \<in> set ps \<Longrightarrow> parent_ebp (b' (pcb_addr p)) = parent_ebp (b (pcb_addr p))"
  shows "frames_ok b' ps = frames_ok b ps"
  using assms by (induction b ps rule: frames_ok.induct) simp_all

text \<open>What a step must leave alone to keep the invariant with the same stacks.\<close>

lemma kernel_inv_cong:
  assumes "kernel_inv cs m s" "process_num t = process_num s" "process_array t = process_array s"
    and "\<And>k. sn_process_num (sched_arr t k) = sn_process_num (sched_arr s k) \<and> sn_esp (sched_arr t k) = sn_esp (sched_arr s k)"
    and "\<And>a. pid (pcbs t a) = pid (pcbs s a) \<and> parent_pid (pcbs t a) = parent_pid (pcbs s a) \<and>
      parent_esp (pcbs t a) = parent_esp (pcbs s a) \<and> parent_ebp (pcbs t a) = parent_ebp (pcbs s a)"
    and "paging_wf t" "cur_sched_term t = cur_sched_term s" "prev_sched_term t = prev_sched_term s"
    and "page_directory t = page_directory s" "tss_esp0 t = tss_esp0 s"
    and "m = Kernel \<Longrightarrow> esp t = esp s"
  shows "kernel_inv cs m t"
proof -
  have "procs t cs"
  proof (rule procs_cong [OF _ assms(2,3)])
    show "procs s cs" using assms(1) by (simp add: kernel_inv_def)
  qed (use assms(4,5) in blast)+
  moreover have "frames_ok (pcbs t) ps = frames_ok (pcbs s) ps" for ps by (rule frames_ok_cong) (use assms(5) in blast)
  ultimately show ?thesis using assms by (simp add: kernel_inv_def runs_process_def)
qed

lemma core_fields:
  assumes "core_of t = core_of s"
  shows "sched_arr t = sched_arr s" "cur_sched_term t = cur_sched_term s" "prev_sched_term t = prev_sched_term s"
    "page_directory t = page_directory s" "tss_esp0 t = tss_esp0 s" "esp t = esp s" "paging_wf t = paging_wf s"
  using assms by (simp_all add: core_of_def paging_wf_def paging_on_def)

lemma kernel_inv_own:
  assumes "kernel_inv cs m s" "own_fds_only s t"
  shows "kernel_inv cs m t"
proof (rule kernel_inv_cong [OF assms(1)])
  have c: "core_of t = core_of s" using assms(2) by (simp add: own_fds_only_def)
  have g: "get_pcb_add t = get_pcb_add s" using core_fields(6) [OF c] by (simp add: get_pcb_add_def)
  show "pid (pcbs t a) = pid (pcbs s a) \<and> parent_pid (pcbs t a) = parent_pid (pcbs s a) \<and>
      parent_esp (pcbs t a) = parent_esp (pcbs s a) \<and> parent_ebp (pcbs t a) = parent_ebp (pcbs s a)" for a
  proof (cases "a = get_pcb_add s")
    case True
    obtain f where "cur_pcb t = (cur_pcb s)\<lparr>fdt := f\<rparr>" using assms(2) by (auto simp: own_fds_only_def)
    then show ?thesis using True by (simp add: cur_pcb_def g)
  next
    case False
    then show ?thesis using assms(2) by (simp add: own_fds_only_def)
  qed
  show "paging_wf t" using assms(1) by (simp add: core_fields(7) [OF c] kernel_inv_def)
  show "sn_process_num (sched_arr t k) = sn_process_num (sched_arr s k) \<and> sn_esp (sched_arr t k) = sn_esp (sched_arr s k)" for k
    by (simp add: core_fields [OF c])
qed (use assms(2) core_fields [of t s] in \<open>simp_all add: own_fds_only_def\<close>)

lemma kernel_inv_kept:
  assumes "kernel_inv cs m s" "kept t = kept s"
  shows "kernel_inv cs m t"
  by (rule kernel_inv_own [OF assms(1) own_kept [OF assms(2)]])


section \<open>Traps and ticks\<close>

lemma stack_frame: "vmem (s\<lparr>esp := x, ebp := y\<rparr>) = vmem s"
  by (simp add: fun_eq_iff vmem_def kload_def)

lemma kernel_inv_user: "kernel_inv cs m s \<Longrightarrow> kernel_inv cs User s"
  by (simp add: kernel_inv_def)

lemma kernel_inv_trap:
  assumes "kernel_inv cs m s" "frame_ok d e"
  shows "kernel_inv cs Kernel (trap d e s)" "in_stack (hd (cs (cur_sched_term s))) (ebp (trap d e s) + 8)"
proof -
  have u: "kernel_inv cs User s" by (rule kernel_inv_user [OF assms(1)])
  have "kernel_inv cs User (trap d e s)"
    by (rule kernel_inv_cong [OF u])
      (use u in \<open>simp_all add: trap_def kernel_inv_def paging_wf_def paging_on_def\<close>)
  moreover have top: "tss_esp0 s = kernel_stack_top (hd (cs (cur_sched_term s)))"
    using assms(1) by (simp add: kernel_inv_def runs_process_def)
  have c: "cur_sched_term (trap d e s) = cur_sched_term s" "esp (trap d e s) = tss_esp0 s - d" "ebp (trap d e s) = tss_esp0 s - e"
    by (simp_all add: trap_def)
  have "in_stack (hd (cs (cur_sched_term s))) (tss_esp0 s - d)"
    using assms(2) by (simp add: top in_stack_def frame_ok_def)
  ultimately show "kernel_inv cs Kernel (trap d e s)" by (simp add: kernel_inv_def c)
  have "kernel_stack_top p - (kernel_stack_top p - e + 8) = e - 8" for p by simp
  moreover have "0 < e - 8" "e - 8 \<le> EIGHT_KB" using assms(2) unfolding frame_ok_def by unat_arith+
  ultimately show "in_stack (hd (cs (cur_sched_term s))) (ebp (trap d e s) + 8)"
    by (simp add: c top in_stack_def)
qed

lemma kernel_inv_tick:
  fixes s :: "'a kernel_scheme"
  assumes "kernel_inv cs Kernel s"
  shows "pit_interrupt_handler s = Return t \<Longrightarrow> kernel_inv cs Kernel t"
    "pit_interrupt_handler s = User_mode a t \<Longrightarrow> kernel_inv cs User t"
proof -
  let ?c = "cur_sched_term s" and ?n = "sched_arr s (next_slot (cur_sched_term s))"
  have i: "procs s cs" "paging_wf s" "term_no ?c" "prev_sched_term s \<noteq> - 1" "in_stack (hd (cs ?c)) (esp s)"
    "sn_esp ?n = - 1 \<or> in_stack (hd (cs (next_slot ?c))) (sn_esp ?n)"
    using assms next_slot [of ?c] by (auto simp: kernel_inv_def)
  note c = next_slot [OF i(3)]
  note e = pit_handler_eq [OF i(4,3)]
  have h: "hd (cs k) = sn_process_num (sched_arr s k)" if "term_no k" for k
    using hd_stack_range(3) [OF i(1) that] .
  have p: "procs (ticked s) cs" by (rule procs_cong [OF i(1)]) (simp_all add: ticked_def Let_def)
  have w: "paging_wf (ticked s)"
    using i(2) unfolding paging_wf_def paging_on_def by (simp add: ticked_def Let_def bit_or_iff)
  have u: "kernel_inv cs User (ticked s)"
    using assms p w c i h by (auto simp: kernel_inv_def ticked_def Let_def runs_process_def term_no_def)
  have v: "kernel_inv cs User (ticked s\<lparr>esp := x, ebp := y, iflag := z\<rparr>)" for x y z
    by (rule kernel_inv_cong [OF u]) (use w in \<open>simp_all add: paging_wf_def paging_on_def\<close>)
  show "kernel_inv cs User t" if "pit_interrupt_handler s = User_mode a t"
  proof -
    have "kernel_inv cs User (ticked s\<lparr>iflag := True, esp := USER_ESP\<rparr>)"
      by (rule kernel_inv_cong [OF u]) (use w in \<open>simp_all add: paging_wf_def paging_on_def\<close>)
    then show ?thesis using that by (auto simp: e split: if_splits)
  qed
  show "kernel_inv cs Kernel t" if "pit_interrupt_handler s = Return t"
    using that v [where x = "sn_esp ?n" and y = "sn_ebp ?n" and z = "pit_flags (ticked s) (sn_esp ?n)"] i(6)
    by (auto simp: e kernel_inv_def split: if_splits) (simp add: ticked_def Let_def)
qed

section \<open>System calls\<close>

lemma frames_ok_tail: "frames_ok b (p # ps) \<Longrightarrow> frames_ok b ps"
  by (cases ps) simp_all

lemma current_pid:
  assumes "procs s cs" "term_no c" "get_pcb_add s = pcb_addr (hd (cs c))"
  shows "pid (cur_pcb s) = hd (cs c)"
proof -
  have "linked (pcbs s) (cs c)" "cs c \<noteq> []" using assms(1,2) by (simp_all add: procs_def stack_ok_def)
  then show ?thesis using assms(3) by (cases "cs c" rule: remdups_adj.cases) (simp_all add: cur_pcb_def)
qed

lemma own_parent_ebp: "own_fds_only s t \<Longrightarrow> parent_ebp (pcbs t a) = parent_ebp (pcbs s a)"
proof (cases "a = get_pcb_add s")
  case True
  assume o: "own_fds_only s t"
  then obtain f where "cur_pcb t = (cur_pcb s)\<lparr>fdt := f\<rparr>" by (auto simp: own_fds_only_def)
  moreover have "get_pcb_add t = get_pcb_add s"
    using o by (simp add: own_fds_only_def get_pcb_add_def core_of_def)
  ultimately show ?thesis using True by (simp add: cur_pcb_def)
qed (simp add: own_fds_only_def)

text \<open>A process is taken off the top and its parent returned to.\<close>

lemma kernel_inv_pop:
  fixes s :: "'a kernel_scheme"
  assumes "kernel_inv cs Kernel s" "cs (cur_sched_term s) = p # q # ps"
    and "procs u (cs(cur_sched_term s := q # ps))" "runs_process u q" "esp u = parent_ebp (cur_pcb s) + 8"
    and "cur_sched_term u = cur_sched_term s" "prev_sched_term u = prev_sched_term s" "paging_wf u"
    and "\<And>k. k \<noteq> cur_sched_term s \<Longrightarrow> sched_arr u k = sched_arr s k"
    and "\<And>a. parent_ebp (pcbs u a) = parent_ebp (pcbs s a)"
  shows "kernel_inv (cs(cur_sched_term s := q # ps)) Kernel u"
proof -
  let ?c = "cur_sched_term s"
  have i: "procs s cs" "term_no ?c" "prev_sched_term s \<noteq> - 1" "in_stack (hd (cs ?c)) (esp s)"
    "\<And>k. term_no k \<Longrightarrow> frames_ok (pcbs s) (cs k)"
    "\<And>k. term_no k \<Longrightarrow> k \<noteq> ?c \<Longrightarrow> sn_esp (sched_arr s k) = - 1 \<or> in_stack (hd (cs k)) (sn_esp (sched_arr s k))"
    using assms(1) by (simp_all add: kernel_inv_def)
  note h = hd_stack_range [OF i(1,2)]
  have g: "get_pcb_add s = pcb_addr p" using pcb_of_stack [OF h(1,2) i(4)] by (simp add: assms(2))
  have fr: "frames_ok (pcbs u) (cs k)" if "term_no k" for k
    using i(5) [OF that] frames_ok_cong [of "cs k" "pcbs u" "pcbs s"] assms(10) by simp
  have "frames_ok (pcbs u) (q # ps)" using fr [OF i(2)] by (auto simp: assms(2) intro: frames_ok_tail)
  moreover have "in_stack q (parent_ebp (cur_pcb s) + 8)"
    using i(5) [OF i(2)] by (simp add: assms(2) cur_pcb_def g)
  ultimately show ?thesis
    using assms(3-9) fr i(2,3,6) by (simp add: kernel_inv_def)
qed

lemma kernel_inv_halt:
  fixes s :: "'a kernel_scheme"
  assumes "kernel_inv cs Kernel s"
  shows "halt status s = Returns r t \<Longrightarrow> \<exists>cs'. kernel_inv cs' Kernel t"
    "halt status s = Enters a t \<Longrightarrow> kernel_inv cs User t"
proof -
  let ?c = "cur_sched_term s"
  have i: "procs s cs" "paging_wf s" "term_no ?c" "prev_sched_term s \<noteq> - 1" "in_stack (hd (cs ?c)) (esp s)"
    using assms by (simp_all add: kernel_inv_def)
  note h = hd_stack_range [OF i(1,3)]
  note g = pcb_of_stack [OF h(1,2) i(5)]
  note ho = halt_outcome [OF i(1,3) g, of status]
  show "kernel_inv cs User t" if "halt status s = Enters a t"
  proof (rule ho)
    assume "halt status s = Enters (program_addr_test s) (s\<lparr>iflag := True, esp := USER_ESP\<rparr>)"
    then have "t = s\<lparr>iflag := True, esp := USER_ESP\<rparr>" using that by simp
    then show ?thesis
      using i(2) by (auto intro!: kernel_inv_cong [OF kernel_inv_user [OF assms]] simp: paging_wf_def paging_on_def)
  qed (use that in simp)
  show "\<exists>cs'. kernel_inv cs' Kernel t" if "halt status s = Returns r t"
  proof (rule ho)
    fix q ps u
    assume u: "cs ?c = hd (cs ?c) # q # ps" "halt status s = Returns (uint status) u" "procs u (cs(?c := q # ps))"
      "runs_process u q" "esp u = parent_ebp (cur_pcb s) + 8"
    have t: "t = u" using that u(2) by simp
    have np: "pid (cur_pcb s) \<notin> {1, 2, 3}" using that halt_shell [of s status] by auto
    obtain w where w: "halt status s = Returns (uint status) (leave_to (parent_ebp (cur_pcb s)) (halted (cur_pcb s) w))"
      "own_fds_only s w" by (rule halt_process [OF np])
    then have uw: "u = leave_to (parent_ebp (cur_pcb s)) (halted (cur_pcb s) w)" using u(2) by simp
    have core: "core_of w = core_of s" using w(2) by (simp add: own_fds_only_def)
    have "parent_ebp (pcbs w a) = parent_ebp (pcbs s a)" for a by (rule own_parent_ebp [OF w(2)])
    moreover have "cur_sched_term u = ?c" "prev_sched_term u = prev_sched_term s" "pcbs u = pcbs w"
      "\<And>k. k \<noteq> ?c \<Longrightarrow> sched_arr u k = sched_arr s k"
      by (simp_all add: uw leave_to_def halted_def Let_def core_fields [OF core])
    moreover have "paging_wf w" using i(2) by (simp add: core_fields(7) [OF core])
    then have "paging_wf u"
      unfolding paging_wf_def paging_on_def by (simp add: uw leave_to_def halted_def Let_def bit_or_iff)
    ultimately have "kernel_inv (cs(?c := q # ps)) Kernel u"
      by (intro kernel_inv_pop [OF assms u(1,3-5)]) simp_all
    then show ?thesis using t by blast
  qed (use that in simp)
qed

lemma kernel_inv_exception:
  fixes s :: "'a kernel_scheme"
  assumes "kernel_inv cs Kernel s" "pid (cur_pcb s) \<notin> {1, 2, 3}" "EXCEPTION_MAKER f x s = Returns r t"
  shows "\<exists>cs'. kernel_inv cs' Kernel t"
proof -
  let ?c = "cur_sched_term s"
  have i: "procs s cs" "paging_wf s" "term_no ?c" "in_stack (hd (cs ?c)) (esp s)"
    using assms(1) by (simp_all add: kernel_inv_def)
  note g = pcb_of_stack [OF hd_stack_range(1,2) [OF i(1,3)] i(4)]
  have hp: "pid (cur_pcb s) = hd (cs ?c)" using current_pid [OF i(1,3) g] .
  have "cs ?c \<noteq> [?c + 1]" using assms(2) hp i(3) by (auto simp: term_no_def)
  then obtain q ps where q: "cs ?c = hd (cs ?c) # q # ps" using stack_top [OF i(1,3)] by metis
  obtain w where w: "EXCEPTION_MAKER f x s = Returns 256 (leave_to (parent_ebp (cur_pcb s))
       (w\<lparr>tss_esp0 := kernel_stack_top q, iflag := True\<rparr>))" "procs w (cs(?c := q # ps))"
    "page_directory w 32 = prog_frame q OR 0x087" "own_fds_only (excepted (cur_pcb s) s) w"
    by (rule exception_outcome [OF i(1,3) g q]) (rule that)
  define u where "u = leave_to (parent_ebp (cur_pcb s)) (w\<lparr>tss_esp0 := kernel_stack_top q, iflag := True\<rparr>)"
  have core: "core_of w = core_of (excepted (cur_pcb s) s)" using w(4) by (simp add: own_fds_only_def)
  have "parent_ebp (pcbs u a) = parent_ebp (pcbs s a)" for a
    using own_parent_ebp [OF w(4), of a] by (simp add: u_def leave_to_def excepted_def Let_def)
  moreover have "cur_sched_term u = ?c" "prev_sched_term u = prev_sched_term s"
    "\<And>k. k \<noteq> ?c \<Longrightarrow> sched_arr u k = sched_arr s k"
    by (simp_all add: u_def leave_to_def core_fields [OF core]) (simp_all add: excepted_def Let_def)
  moreover have "runs_process u q" "esp u = parent_ebp (cur_pcb s) + 8"
    by (simp_all add: u_def leave_to_def runs_process_def w(3))
  moreover have "paging_wf (excepted (cur_pcb s) s)"
    using i(2) unfolding paging_wf_def paging_on_def by (simp add: excepted_def Let_def bit_or_iff)
  then have "paging_wf w" by (simp add: core_fields(7) [OF core])
  then have "paging_wf u" by (simp add: u_def leave_to_def paging_wf_def paging_on_def)
  moreover have "procs u (cs(?c := q # ps))"
    by (rule procs_cong [OF w(2)]) (simp_all add: u_def leave_to_def)
  ultimately have "kernel_inv (cs(?c := q # ps)) Kernel u" by (intro kernel_inv_pop [OF assms(1) q]) simp_all
  moreover have "t = u" using w(1) assms(3) by (simp add: u_def)
  ultimately show ?thesis by blast
qed

lemma kernel_inv_started:
  fixes s :: "'a kernel_scheme"
  assumes "kernel_inv cs Kernel s" "in_stack (hd (cs (cur_sched_term s))) (ebp s + 8)" "lowest_free cs = Some p"
  defines "c \<equiv> cur_sched_term s"
  shows "kernel_inv (cs(c := p # cs c)) User (started l as p q s)"
proof -
  let ?t = "started l as p q s"
  have i: "procs s cs" "paging_wf s" "term_no c" "prev_sched_term s \<noteq> - 1"
    "\<And>k. term_no k \<Longrightarrow> frames_ok (pcbs s) (cs k)"
    "\<And>k. term_no k \<Longrightarrow> k \<noteq> c \<Longrightarrow> sn_esp (sched_arr s k) = - 1 \<or> in_stack (hd (cs k)) (sn_esp (sched_arr s k))"
    using assms(1) by (simp_all add: kernel_inv_def c_def)
  note pr = lowest_free_props [OF assms(3)]
  have st: "cur_sched_term ?t = c" "prev_sched_term ?t = prev_sched_term s"
    "\<And>k. k \<noteq> c \<Longrightarrow> sched_arr ?t k = sched_arr s k" "parent_ebp (pcbs ?t (pcb_addr p)) = ebp s"
    "\<And>a. a \<noteq> pcb_addr p \<Longrightarrow> pcbs ?t a = pcbs s a" "runs_process ?t p"
    by (simp_all add: started_def Let_def c_def runs_process_def)
  have "procs ?t (cs(c := p # cs c))"
    using started_procs [OF i(1) _ assms(3), of l as q] i(3) by (simp add: c_def)
  moreover have "paging_wf ?t"
    using i(2) unfolding paging_wf_def paging_on_def by (simp add: started_def Let_def bit_or_iff)
  moreover have fr: "frames_ok (pcbs ?t) (cs k)" if "term_no k" for k
  proof -
    have "pcb_addr x \<noteq> pcb_addr p" if "x \<in> set (cs k)" for x
      using procs_range [OF i(1) \<open>term_no k\<close> that] in_all_procs [of k x cs] \<open>term_no k\<close> that pr by (auto simp: pcb_addr_inj)
    then have "frames_ok (pcbs ?t) (cs k) = frames_ok (pcbs s) (cs k)" by (intro frames_ok_cong) (simp add: st)
    then show ?thesis using i(5) [OF that] by simp
  qed
  moreover have "frames_ok (pcbs ?t) (p # cs c)"
    using fr [OF i(3)] assms(2) by (cases "cs c") (simp_all add: st c_def [symmetric])
  ultimately show ?thesis using i st by (auto simp: kernel_inv_def)
qed

lemma kernel_inv_flags:
  assumes "kernel_inv cs m s"
  shows "kernel_inv cs m (s\<lparr>iflag := b, fault := f\<rparr>)" "kernel_inv cs m (s\<lparr>iflag := b\<rparr>)"
  by (rule kernel_inv_kept [OF assms], simp add: kept_def core_of_def)+

lemma kernel_inv_execute:
  fixes s :: "'a kernel_scheme"
  assumes "kernel_inv cs Kernel s" "in_stack (hd (cs (cur_sched_term s))) (ebp s + 8)" "files_ok s" "length (ELF_buf0 l) = 32"
  shows "execute l command s = Returns r t \<Longrightarrow> kernel_inv cs Kernel t"
    "execute l command s = Enters a t \<Longrightarrow> \<exists>cs'. kernel_inv cs' User t"
proof -
  have i: "procs s cs" "paging_wf s" using assms(1) by (simp_all add: kernel_inv_def)
  note eo = execute_outcome [OF i(1) assms(3) i(2) assms(4), of command]
  show "kernel_inv cs Kernel t" if "execute l command s = Returns r t"
    by (rule eo) (use that kernel_inv_flags(1) [OF assms(1)] in auto)
  show "\<exists>cs'. kernel_inv cs' User t" if e: "execute l command s = Enters a t"
  proof (rule eo)
    fix p as m inode
    assume h: "lowest_free cs = Some p" "execute l command s = start_program l as m (s\<lparr>iflag := False\<rparr>)"
      "start_program l as m (s\<lparr>iflag := False\<rparr>) =
        Enters (load32 m (LOCAL_ELF + 24)) (started l as p (pmem (snd (vread_data inode 0 PROG_START MAX_PROG_SIZE
          (mapped_for p (s\<lparr>iflag := False\<rparr>))))) (s\<lparr>iflag := False\<rparr>))"
    then obtain q where "t = started l as p q (s\<lparr>iflag := False\<rparr>)" using e by auto
    then have "kernel_inv (cs(cur_sched_term s := p # cs (cur_sched_term s))) User t"
      using kernel_inv_started [OF kernel_inv_flags(2) [OF assms(1)] _ h(1), of False l as q] assms(2) by simp
    then show ?thesis by blast
  qed (use e in simp)
qed

lemma kernel_inv_vidmap:
  assumes "kernel_inv cs m s"
  shows "kernel_inv cs m (snd (vidmap screen_start s))"
proof -
  define u where "u = set_page_table2_entry USER_VIDEO_MEM VIDEO_MEM_ADDR
    (upd_sched (cur_sched_term s) (\<lambda>n. n\<lparr>sn_vid_map := 1\<rparr>) (upd_pcb (\<lambda>p. p\<lparr>pcb_vidmem := 1\<rparr>) s))"
  have "kernel_inv cs m u"
    using assms by (intro kernel_inv_cong [OF assms])
      (simp_all add: u_def upd_sched_def upd_pcb_def set_page_table2_entry_def cur_pcb_def kernel_inv_def paging_wf_def paging_on_def)
  then have "kernel_inv cs m (store_range screen_start 4 v u)" for v by (rule kernel_inv_kept) simp
  then show ?thesis using assms by (simp add: vidmap_def Let_def u_def upd_pcb_def)
qed

lemma kernel_inv_getargs:
  assumes "kernel_inv cs m s"
  shows "kernel_inv cs m (snd (getargs buf n s))"
  by (rule kernel_inv_kept [OF assms]) (simp add: getargs_def Let_def)

text \<open>An outcome after which the invariant holds for some stacks.\<close>

definition good :: "'a kernel_scheme outcome \<Rightarrow> bool" where
  "good out = (case out of Returns r t \<Rightarrow> \<exists>cs. kernel_inv cs Kernel t
     | Enters a t \<Rightarrow> \<exists>cs. kernel_inv cs User t | Waits \<Rightarrow> True)"

lemma good_ret: "kernel_inv cs Kernel (snd r) \<Longrightarrow> good (ret r)"
  by (auto simp: good_def ret_def)

lemma good_call:
  fixes s :: "'a kernel_scheme"
  assumes "kernel_inv cs Kernel s" "in_stack (hd (cs (cur_sched_term s))) (ebp s + 8)" "length (ELF_buf0 l) = 32"
    and "eax = 2 \<longrightarrow> files_ok s"
  shows "good (system_call_handler eax ebx ecx edx l keys irqs s)"
proof -
  define v where "v = sti s"
  have v: "kernel_inv cs Kernel v" unfolding v_def by (rule kernel_inv_kept [OF assms(1)]) simp
  have x: "in_stack (hd (cs (cur_sched_term v))) (ebp v + 8)" "eax = 2 \<longrightarrow> files_ok v"
    using assms(2,4) by (simp_all add: v_def sti_def)
  have n: "eax - 1 = 1 \<longleftrightarrow> eax = 2" by (simp add: diff_eq_eq)
  have h: "good (halt status v)" for status
    using kernel_inv_halt [OF v, of status] by (auto simp: good_def split: outcome.split)
  have e: "good (execute l command v)" if "eax = 2" for command
    using kernel_inv_execute [OF v x(1) _ assms(3), of command] that x(2) by (auto simp: good_def split: outcome.split)
  have own: "good (ret r)" if "own_fds_only v (snd r)" for r
    by (rule good_ret [OF kernel_inv_own [OF v that]])
  have rd: "good (case sys_read fd buf k keys irqs v of None \<Rightarrow> Waits | Some r \<Rightarrow> ret r)" for fd buf k
    using sys_read_frame(1) [of fd buf k keys irqs v] own by (auto simp: good_def split: option.split)
  have c: "good (ret (sys_write fd buf k v))" "good (ret (sys_open buf v))" "good (ret (sys_close fd v))"
    "good (ret (getargs buf k v))" "good (ret (vidmap buf v))" "good (ret (set_handler v))" "good (ret (sigreturn v))"
    "good (Returns (- 1) v)" for fd buf k
    using own [OF own_kept [OF sys_write_frame]] own [OF sys_open_frame(1)] own [OF sys_close_frame(1)]
      good_ret [OF kernel_inv_getargs [OF v]] good_ret [OF kernel_inv_vidmap [OF v]] v
    by (simp_all add: set_handler_def sigreturn_def) (auto simp: good_def ret_def)
  show ?thesis unfolding system_call_handler_def Let_def v_def [symmetric] n by (auto simp: h e rd c)
qed

section \<open>Reachable states\<close>

locale transition_system =
  fixes step :: "'c \<Rightarrow> 'c \<Rightarrow> bool"
    and inv :: "'c \<Rightarrow> bool"
  assumes inv_step: "step x y \<Longrightarrow> inv x \<Longrightarrow> inv y"
begin

lemma inv_reachable: "step\<^sup>*\<^sup>* x y \<Longrightarrow> inv x \<Longrightarrow> inv y"
  by (induction rule: rtranclp_induct) (auto intro: inv_step)

end

definition running :: "mode \<times> 'a kernel_scheme \<Rightarrow> bool" where
  "running x \<longleftrightarrow> (\<exists>cs. kernel_inv cs (fst x) (snd x))"

lemma running_kept:
  assumes "running (m, s)" "kept t = kept s"
  shows "running (m, t)"
proof -
  obtain cs where "kernel_inv cs m s" using assms(1) by (auto simp: running_def)
  then have "kernel_inv cs m t" using assms(2) by (rule kernel_inv_kept)
  then show ?thesis by (auto simp: running_def)
qed

lemma good_trap:
  assumes "running (User, s)" "frame_ok d e" "length (ELF_buf0 l) = 32" "eax = 2 \<longrightarrow> files_ok s"
  shows "good (system_call_handler eax ebx ecx edx l keys irqs (trap d e s))"
proof -
  obtain cs where "kernel_inv cs User s" using assms(1) by (auto simp: running_def)
  note tr = kernel_inv_trap [OF this assms(2)]
  have "cur_sched_term (trap d e s) = cur_sched_term s" "files_ok (trap d e s) = files_ok s"
    by (simp_all add: trap_def files_ok_def image_ok_def fs_placed_def stack_frame)
  then show ?thesis using tr assms(3,4) by (intro good_call) simp_all
qed

interpretation kernel_run: transition_system kstep running
proof
  fix x y :: "mode \<times> 'a kernel_scheme"
  assume "kstep x y" "running x"
  then show "running y"
  proof (induction rule: kstep.induct)
    case (call d e l eax s ebx ecx edx keys irqs r t)
    then show ?case using good_trap [of s d e l eax ebx ecx edx keys irqs] by (simp add: good_def running_def)
  next
    case (enter_call d e l eax s ebx ecx edx keys irqs a t)
    then show ?case using good_trap [of s d e l eax ebx ecx edx keys irqs] by (simp add: good_def running_def)
  next
    case (tick d e s t m)
    then show ?case using kernel_inv_tick(1) [OF kernel_inv_trap(1)] by (fastforce simp: running_def)
  next
    case (enter_tick d e s a t m)
    then show ?case using kernel_inv_tick(2) [OF kernel_inv_trap(1)] by (fastforce simp: running_def)
  next
    case (exception d e s f x r t)
    then obtain cs where "kernel_inv cs User s" by (auto simp: running_def)
    from kernel_inv_exception [OF kernel_inv_trap(1) [OF this exception(1)] exception(2,3)]
    show ?case by (simp add: running_def)
  next
    case (iret s)
    then show ?case using kernel_inv_user by (auto simp: running_def)
  qed (simp_all add: running_kept)
qed

lemma launch_running:
  fixes s :: "'a kernel_scheme"
  assumes "paging_wf s" "files_ok s" "length (ELF_buf0 l) = 32" "cur_sched_term s = 0"
    and "\<And>k. term_no k \<Longrightarrow> sn_process_num (sched_arr s k) = k + 1"
    and "sn_esp (sched_arr s 1) = - 1" "sn_esp (sched_arr s 2) = - 1"
    and "launch l s = Enters a t"
  shows "running (User, t)"
proof (rule launch_outcome [OF assms(1-3,5)])
  fix m a' u
  assume u: "launch l s = Enters a' u" "procs u (\<lambda>k. [k + 1])" "paging_wf u" "runs_process u 1" "prev_sched_term u = 0"
    "sched_arr u = sched_arr s" "cur_sched_term u = cur_sched_term s"
  have "sn_esp (sched_arr u k) = - 1" if "term_no k" "k \<noteq> 0" for k
    using that assms(6,7) u(6) by (auto elim!: term_no_cases)
  then have "kernel_inv (\<lambda>k. [k + 1]) User u" using u assms(4) by (auto simp: kernel_inv_def term_no_def)
  moreover have "t = u" using u(1) assms(8) by simp
  ultimately show ?thesis by (auto simp: running_def)
qed (use assms(8) in simp_all)

text \<open>What the invariant means for the scheduled process.\<close>

lemma running_facts:
  assumes "running (m, s)"
  defines "p \<equiv> sn_process_num (sched_arr s (cur_sched_term s))"
  shows "1 \<le> p" "p \<le> 6" "process_array s (p - 1) = 1" "runs_process s p" "term_no (cur_sched_term s)"
    "m = Kernel \<Longrightarrow> get_pcb_add s = pcb_addr p \<and> pid (cur_pcb s) = p"
    "term_no j \<Longrightarrow> term_no k \<Longrightarrow> j \<noteq> k \<Longrightarrow> sn_process_num (sched_arr s j) \<noteq> sn_process_num (sched_arr s k)"
    "process_num s = int (card {i. 0 \<le> i \<and> i < 6 \<and> process_array s i = 1})" "3 \<le> process_num s" "process_num s \<le> 6"
proof -
  let ?c = "cur_sched_term s"
  obtain cs where i: "kernel_inv cs m s" using assms(1) by (auto simp: running_def)
  then have pr: "procs s cs" and c: "term_no ?c" by (simp_all add: kernel_inv_def)
  note h = hd_stack_range [OF pr]
  have hp: "hd (cs ?c) = p" using h(3) [OF c] by (simp add: p_def)
  have hs: "hd (cs k) \<in> set (cs k)" if "term_no k" for k
    using pr that unfolding procs_def stack_ok_def by (metis hd_in_set)
  show p: "1 \<le> p" "p \<le> 6" using h(1,2) [OF c] hp by simp_all
  show "term_no ?c" by (rule c)
  have pa: "\<And>x. 0 \<le> x \<Longrightarrow> x < 6 \<Longrightarrow> process_array s x = (if x + 1 \<in> set (all_procs cs) then 1 else - 1)"
    and dist: "distinct (all_procs cs)" and sub: "set (all_procs cs) \<subseteq> {1..6}"
    and num: "process_num s = int (length (all_procs cs))" using pr by (simp_all add: procs_def)
  have "p \<in> set (all_procs cs)" using in_all_procs [of ?c p cs] hs [OF c] c hp by simp
  then show "process_array s (p - 1) = 1" using pa [of "p - 1"] p by simp
  show "runs_process s p" using i hp by (simp add: kernel_inv_def)
  show "get_pcb_add s = pcb_addr p \<and> pid (cur_pcb s) = p" if "m = Kernel"
  proof -
    have g: "get_pcb_add s = pcb_addr p" using i hp p that by (intro pcb_of_stack) (simp_all add: kernel_inv_def)
    then show ?thesis using current_pid [OF pr c] hp by simp
  qed
  show "sn_process_num (sched_arr s j) \<noteq> sn_process_num (sched_arr s k)" if "term_no j" "term_no k" "j \<noteq> k"
    using distinct_stacks [OF dist that] hs [OF that(1)] hs [OF that(2)] h(3) [OF that(1)] h(3) [OF that(2)] by metis
  have "{i. 0 \<le> i \<and> i < 6 \<and> process_array s i = 1} = (\<lambda>p. p - 1) ` set (all_procs cs)"
  proof (rule set_eqI)
    fix x :: int
    have "x \<in> (\<lambda>p. p - 1) ` set (all_procs cs) \<longleftrightarrow> x + 1 \<in> set (all_procs cs)"
      using image_eqI [of x "\<lambda>p. p - 1" "x + 1"] by auto
    moreover have "0 \<le> x \<and> x < 6" if "x + 1 \<in> set (all_procs cs)" using that sub by auto
    ultimately show "x \<in> {i. 0 \<le> i \<and> i < 6 \<and> process_array s i = 1} \<longleftrightarrow> x \<in> (\<lambda>p. p - 1) ` set (all_procs cs)"
      using pa [of x] by auto
  qed
  then have "card {i. 0 \<le> i \<and> i < 6 \<and> process_array s i = 1} = card (set (all_procs cs))"
    by (simp add: card_image inj_on_def)
  then show n: "process_num s = int (card {i. 0 \<le> i \<and> i < 6 \<and> process_array s i = 1})"
    using distinct_card [OF dist] num by simp
  show "3 \<le> process_num s" by (rule procs_num [OF pr])
  have "card (set (all_procs cs)) \<le> card {1..6 :: int}" using sub by (intro card_mono) simp_all
  then show "process_num s \<le> 6" using distinct_card [OF dist] num by simp
qed

section \<open>The start\<close>

text \<open>A booted kernel: the slots are as \<open>pit_init\<close> leaves them, terminal 0 is scheduled.\<close>

definition booted :: "'a kernel_scheme \<Rightarrow> bool" where
  "booted s \<longleftrightarrow> paging_wf s \<and> files_ok s \<and> cur_sched_term s = 0 \<and>
     map (\<lambda>k. sn_process_num (sched_arr s k)) [0, 1, 2] = [1, 2, 3] \<and>
     sn_esp (sched_arr s 1) = - 1 \<and> sn_esp (sched_arr s 2) = - 1"

lemma booted_running:
  assumes "booted s" "length (ELF_buf0 l) = 32" "launch l s = Enters a t"
  shows "running (User, t)"
proof -
  have "sn_process_num (sched_arr s k) = k + 1" if "term_no k" for k
    using assms(1) that by (elim term_no_cases) (simp_all add: booted_def)
  then show ?thesis using assms by (intro launch_running [OF _ _ assms(2) _ _ _ _ assms(3)]) (simp_all add: booted_def)
qed

end
