(* ===== verification/Boot.thy ===== *)
theory Boot
  imports Kernel
begin

text \<open>
  The initialisations of \<open>entry\<close> in \<open>student-distrib/kernel.c\<close>, from the point where paging is switched
  on to the start of the shells. They establish the invariants of the drivers and the state the
  steps of the kernel start from.
\<close>

section \<open>Operations\<close>

text \<open>\<open>prevB\<close> and \<open>prevA\<close> are the bytes \<open>rtc_init\<close> reads back from the clock.\<close>

definition init_devices :: "u8 \<Rightarrow> u8 \<Rightarrow> 'a kernel_scheme \<Rightarrow> 'a kernel_scheme" where
  "init_devices prevB prevA s =
     (let s = init_paging s;
          s = i8259_init s;
          s = enable_irq 2 s;
          s = rtc_init prevB prevA s;
          s = pit_init s;
          s = init_shell s;
          s = keyboard_init s;
          s = clear s;
          s = sti s
      in reset_screen s)"

text \<open>\<open>entry\<close> from \<open>init_paging\<close> on; when \<open>launch\<close> returns, the processor is halted.\<close>

definition entry_paged :: "u8 \<Rightarrow> u8 \<Rightarrow> locals \<Rightarrow> 'a kernel_scheme \<Rightarrow> 'a kernel_scheme outcome" where
  "entry_paged prevB prevA l s = launch l (init_devices prevB prevA s)"

section \<open>The image in physical memory\<close>

text \<open>A sound file system image in the kernel's page, as the loader leaves it.\<close>

definition disk_ok :: "mem \<Rightarrow> addr \<Rightarrow> bool" where
  "disk_ok m fs \<longleftrightarrow>
     (\<forall>a. in_fs m fs a \<longrightarrow> drop_bit 22 a = 1) \<and> fs_len m fs < 2 ^ 32 \<and> num_dentries m fs \<le> 63 \<and> types_ok m fs \<and>
     (\<forall>inode < num_inodes m fs. file_ok m fs inode)"

lemma files_ok_disk: "files_ok s \<longleftrightarrow> disk_ok (vmem s) (fs_start s)"
  by (auto simp: files_ok_def image_ok_def disk_ok_def fs_placed_def)

lemma disk_ok_same:
  assumes "disk_ok m fs" "\<And>a. drop_bit 22 a = 1 \<Longrightarrow> m' a = m a"
  shows "disk_ok m' fs"
proof -
  have d: "fs_len m fs < 2 ^ 32" "num_dentries m fs \<le> 63" "types_ok m fs"
    "\<And>a. in_fs m fs a \<Longrightarrow> drop_bit 22 a = 1" "\<And>i. i < num_inodes m fs \<Longrightarrow> file_ok m fs i"
    using assms(1) by (simp_all add: disk_ok_def)
  then have s: "m' a = m a" if "in_fs m fs a" for a using assms(2) that by blast
  note h = header_same [OF s d(1)]
  have "file_type m' (dentry_addr fs j) = file_type m (dentry_addr fs j)" if "j < num_dentries m fs" for j
  proof -
    have "unat j < 63" using d(2) that by (auto simp: word_less_nat_alt word_le_nat_alt)
    then have r: "64 + 64 * unat j + i < fs_len m fs" if "i < 64" for i using that by (simp add: fs_len_def)
    have o: "dentry_addr fs j + of_nat i = fs + of_nat (64 + 64 * unat j + i)" for i
      by (simp add: dentry_addr_def algebra_simps)
    have "in_fs m fs (dentry_addr fs j + of_nat i)" if "i < 64" for i
      unfolding o using r [OF that] d(1) by (simp only: in_fs_offset)
    then have e: "m' (dentry_addr fs j + of_nat i) = m (dentry_addr fs j + of_nat i)" if "i < 64" for i
      using s that by blast
    show ?thesis
      unfolding file_type_def using e [of 32] e [of 33] e [of 34] e [of 35]
      by (intro load32_cong) (simp_all add: add.assoc)
  qed
  then have "types_ok m' fs" using d(3) by (simp add: types_ok_def h)
  then show ?thesis
    using d image_same(3) [OF s d(5)] by (auto simp: disk_ok_def h)
qed

section \<open>The state after the initialisations\<close>

text \<open>The static data of the kernel image: its globals and tables before \<open>entry\<close>.\<close>

definition static_data :: "'a kernel_scheme \<Rightarrow> bool" where
  "static_data s \<longleftrightarrow> tables_placed s \<and> \<not> fault s \<and> cur_terminal s = 0 \<and> print_terminal s = 0 \<and>
     cur_sched_term s = 0 \<and> prev_sched_term s = - 1"

lemma reset_sti: "reset_screen (sti s) = sti (reset_screen s)"
  by (simp add: reset_screen_def show_cursor_def move_cursor_def sti_def outb_def upd_term_def Let_def)

text \<open>Programming the devices changes the ports and the interrupt masks only.\<close>

definition besides_ports :: "'a pic_scheme \<Rightarrow> 'a pic_scheme" where
  "besides_ports s = s\<lparr>ports := [], master_mask := 0, slave_mask := 0\<rparr>"

lemma besides_ports_eq:
  assumes "besides_ports s = besides_ports t"
  obtains q m l where "s = t\<lparr>ports := q, master_mask := m, slave_mask := l\<rparr>"
proof -
  have "s = (besides_ports s)\<lparr>ports := ports s, master_mask := master_mask s, slave_mask := slave_mask s\<rparr>"
    by (simp add: besides_ports_def)
  also have "\<dots> = t\<lparr>ports := ports s, master_mask := master_mask s, slave_mask := slave_mask s\<rparr>"
    unfolding assms by (simp add: besides_ports_def)
  finally show thesis by (rule that)
qed

lemma besides_outb [simp]:
  "besides_ports (outb d p s) = besides_ports s" "besides_ports (s\<lparr>master_mask := m\<rparr>) = besides_ports s"
  "besides_ports (s\<lparr>slave_mask := m\<rparr>) = besides_ports s"
  by (simp_all add: besides_ports_def outb_def)

lemma besides_devices [simp]:
  "besides_ports (enable_irq k s) = besides_ports s" "besides_ports (i8259_init s) = besides_ports s"
  "besides_ports (rtc_init b a s) = besides_ports s"
  by (simp_all add: enable_irq_def i8259_init_def rtc_init_def Let_def)

lemma besides_shell: "besides_ports (init_shell s) = init_shell (besides_ports s)"
  by (simp add: besides_ports_def init_shell_def upd_term_def)

definition boot_slots :: "'a sched_scheme \<Rightarrow> 'a sched_scheme" where
  "boot_slots s = s\<lparr>sched_arr := sched_arr (pit_init s)\<rparr>"

lemma besides_pit: "besides_ports (pit_init s) = boot_slots (besides_ports s)"
proof -
  obtain q m a where p: "pit_init s = s\<lparr>sched_arr := a, master_mask := m, ports := q\<rparr>" by (rule pit_init_frame)
  have "sched_arr (pit_init (besides_ports s)) = sched_arr (pit_init s)" unfolding pit_init_slots by (simp add: besides_ports_def)
  then show ?thesis by (simp add: p boot_slots_def) (simp add: besides_ports_def)
qed

lemma slots_shell: "boot_slots (init_shell s) = init_shell (boot_slots s)"
proof -
  have "sched_arr (pit_init (init_shell s)) = sched_arr (pit_init s)"
    unfolding pit_init_slots by (simp add: init_shell_def upd_term_def)
  then show ?thesis by (simp add: boot_slots_def) (simp add: init_shell_def upd_term_def)
qed

lemma devices_home:
  fixes s :: "'a kernel_scheme"
  obtains q m l where "init_devices b a s = sti (home ((pit_init (init_shell (init_paging s)))
    \<lparr>ports := q, master_mask := m, slave_mask := l\<rparr>))"
proof -
  define v where "v = keyboard_init (init_shell (pit_init (rtc_init b a (enable_irq 2 (i8259_init (init_paging s))))))"
  have "besides_ports v = besides_ports (pit_init (init_shell (init_paging s)))"
    by (simp add: v_def keyboard_init_def besides_shell besides_pit slots_shell)
  then obtain q m l where "v = (pit_init (init_shell (init_paging s)))\<lparr>ports := q, master_mask := m, slave_mask := l\<rparr>"
    by (rule besides_ports_eq)
  then have "init_devices b a s = sti (home ((pit_init (init_shell (init_paging s)))
      \<lparr>ports := q, master_mask := m, slave_mask := l\<rparr>))"
    by (simp add: init_devices_def Let_def v_def reset_sti home_def)
  then show thesis by (rule that)
qed

text \<open>The lines that are open.\<close>

lemma irq_enabled_steps:
  assumes "valid_irq j"
  shows "irq_enabled (rtc_init b a s) j \<longleftrightarrow> j = 8 \<or> irq_enabled s j"
    "irq_enabled (pit_init t) j \<longleftrightarrow> j = 0 \<or> irq_enabled t j"
    "irq_enabled (keyboard_init s) j \<longleftrightarrow> j = 1 \<or> irq_enabled s j"
    "irq_enabled (init_shell u) j = irq_enabled u j"
proof -
  have v: "valid_irq 8" "valid_irq 0" "valid_irq 1" by (simp_all add: valid_irq_def)
  show "irq_enabled (rtc_init b a s) j \<longleftrightarrow> j = 8 \<or> irq_enabled s j"
    by (simp add: rtc_init_def Let_def enabled_enable_irq [OF v(1) assms])
  have "irq_enabled (upd_sched k f t) j = irq_enabled t j" for k f and t :: "'b sched_scheme"
    by (simp add: irq_enabled_def upd_sched_def)
  then show "irq_enabled (pit_init t) j \<longleftrightarrow> j = 0 \<or> irq_enabled t j"
    by (simp add: pit_init_def Let_def enabled_enable_irq [OF v(2) assms])
  show "irq_enabled (keyboard_init s) j \<longleftrightarrow> j = 1 \<or> irq_enabled s j"
    by (simp add: keyboard_init_def enabled_enable_irq [OF v(3) assms])
  show "irq_enabled (init_shell u) j = irq_enabled u j" by (simp add: irq_enabled_def init_shell_def upd_term_def)
qed

lemma irq_enabled_screen:
  "irq_enabled (reset_screen (sti (clear s))) j = irq_enabled s j"
proof -
  have k: "irq_enabled (kstore x c s) j = irq_enabled s j" for x c and s :: "'b paging_scheme"
    by (simp add: irq_enabled_def kstore_def raise_fault_def split: option.split)
  have "irq_enabled (fold (put_cell c) xs s) j = irq_enabled s j" for c xs and s :: "'b paging_scheme"
    by (induction xs arbitrary: s) (simp_all add: put_cell_def k)
  moreover have "irq_enabled (reset_screen (sti t)) j = irq_enabled t j" for t :: "'a console_scheme"
    by (simp add: reset_screen_def show_cursor_def move_cursor_def Let_def) (simp add: irq_enabled_def upd_term_def sti_def)
  ultimately show ?thesis by (simp add: clear_def)
qed

lemma devices_irqs:
  assumes "valid_irq j"
  shows "irq_enabled (init_devices b a s) j \<longleftrightarrow> j \<in> {0, 1, 2, 8}"
proof -
  have "valid_irq 2" by (simp add: valid_irq_def)
  then show ?thesis
    using irq_enabled_init [OF assms]
    by (auto simp: init_devices_def Let_def irq_enabled_screen irq_enabled_steps [OF assms] enabled_enable_irq [OF _ assms])
qed

text \<open>The state as an update of the one after the terminals and slots have been set up.\<close>

lemma devices_state:
  fixes s :: "'a kernel_scheme"
  assumes "tables_placed s" "cur_terminal s = 0"
  defines "w \<equiv> pit_init (init_shell (init_paging s))"
  obtains q m l where
    "init_devices b a s = w\<lparr>pmem := fold (set_cell VIDEO 0x20) [0..1999] (pmem s), ports := q, master_mask := m, slave_mask := l,
       current_line := 0, terminals := (terminals w)(0 := (terminals w 0)\<lparr>scr_y := 0, scr_x := 0\<rparr>), iflag := True\<rparr>"
proof -
  obtain q m l where t: "init_devices b a s = sti (home (w\<lparr>ports := q, master_mask := m, slave_mask := l\<rparr>))"
    unfolding w_def by (rule devices_home)
  let ?x = "w\<lparr>ports := q, master_mask := m, slave_mask := l\<rparr>"
  obtain q' m' a' where p: "w = (init_shell (init_paging s))\<lparr>sched_arr := a', master_mask := m', ports := q'\<rparr>"
    unfolding w_def by (rule pit_init_frame)
  have pm: "pmem w = pmem s" "cur_terminal w = 0" "first_page_table w 184 = 0xB8003"
    using assms(2) by (simp_all add: p init_shell_def upd_term_def first_page_table_init)
      (simp add: init_paging_def enable_paging_def init_page_table_def init_page_directory_def)
  have wf: "paging_wf ?x"
    using paging_wf_init [OF assms(1)] by (simp add: p paging_wf_def paging_on_def init_shell_def upd_term_def)
  then have v: "video_ok ?x" "vframe ?x = VIDEO" by (simp_all add: video_ok_def vframe_def pm)
  obtain n r where h: "home ?x = ?x\<lparr>pmem := n, ports := r, current_line := 0,
      terminals := (terminals ?x)(cur_terminal ?x := (the_term ?x)\<lparr>scr_y := 0, scr_x := 0\<rparr>)\<rparr>"
    by (rule home_eq [OF v(1)])
  have "pmem (home ?x) = pmem (clear ?x)"
    by (simp add: home_def reset_screen_def show_cursor_def move_cursor_def Let_def outb_def upd_term_def)
  then have n: "n = fold (set_cell VIDEO 0x20) [0..1999] (pmem s)" by (simp add: h clear_mem [OF v(1)] v(2) pm)
  show thesis
    by (rule that [where q = r and m = m and l = l]) (simp add: t h n sti_def pm the_term_def)
qed

lemma kernel_page_above:
  assumes "drop_bit 22 (a :: addr) = 1"
  shows "4000 \<le> a - VIDEO"
proof -
  have "push_bit 22 (drop_bit 22 a) + take_bit 22 a = a" by (rule bits_ident)
  then have a: "a = 0x400000 + take_bit 22 a" using assms by simp
  have t: "unat (take_bit 22 a) < 2 ^ 22"
    using take_bit_nat_less_exp [of 22 "unat a"] by (simp add: unsigned_take_bit_eq)
  have "a - VIDEO = 0x348000 + take_bit 22 a" by (subst a) simp
  moreover have "unat (0x348000 + take_bit 22 a) = 0x348000 + unat (take_bit 22 a)"
    using t by (subst unat_add_lem [THEN iffD1]) simp_all
  ultimately have "unat (a - VIDEO) = 0x348000 + unat (take_bit 22 a)" by (simp only:)
  then show ?thesis by (simp add: word_le_nat_alt)
qed

lemma boot_ids:
  assumes "static_data s"
  shows "tables_placed s" "\<not> fault s" "term_no (cur_terminal s)" "term_no (print_terminal s)" "term_no (cur_sched_term s)"
    "cur_terminal s = 0"
  using assms by (simp_all add: static_data_def term_no_def)

text \<open>The globals and the terminals before the screen is cleared.\<close>

lemma slots_state:
  fixes s :: "'a kernel_scheme"
  assumes "static_data s"
  defines "w \<equiv> pit_init (init_shell (init_paging s))"
  shows "cur_terminal w = 0" "print_terminal w = 0" "cur_sched_term w = 0" "prev_sched_term w = - 1"
    "fs_start w = fs_start s" "vframe w = VIDEO" "sched_inv w"
    "term_no k \<Longrightarrow> terminals w k = reset_shell (0xB9000 + word_of_int k * PAGE_SIZE) (terminals s k)"
proof -
  note z = boot_ids [OF assms(1)]
  obtain q m a where p: "w = (init_shell (init_paging s))\<lparr>sched_arr := a, master_mask := m, ports := q\<rparr>"
    unfolding w_def by (rule pit_init_frame)
  have ip: "cur_sched_term (init_paging s) = cur_sched_term s" "prev_sched_term (init_paging s) = prev_sched_term s"
    "fs_start (init_paging s) = fs_start s"
    by (simp_all add: init_paging_def enable_paging_def init_page_table_def init_page_directory_def)
  show "cur_terminal w = 0" "print_terminal w = 0" "cur_sched_term w = 0" "prev_sched_term w = - 1"
    "fs_start w = fs_start s" "vframe w = VIDEO"
    using assms(1) console_boot(3) [OF z(1-4)]
    by (simp_all add: p static_data_def ip) (simp_all add: init_shell_def upd_term_def ip vframe_def)
  show "sched_inv w" unfolding w_def by (rule sched_boot [OF z(1-5)])
  show "terminals w k = reset_shell (0xB9000 + word_of_int k * PAGE_SIZE) (terminals s k)" if "term_no k"
    by (simp add: p terminals_init_shell [OF that])
qed

lemma boot_drivers:
  fixes s :: "'a kernel_scheme" and b a :: u8
  assumes "static_data s"
  defines "t \<equiv> init_devices b a s"
  shows "kb_inv t" "display_ok t" "fs_start t = fs_start s" "cur_sched_term t = 0" "prev_sched_term t = - 1" "iflag t"
    "sched_arr t = sched_arr (pit_init (init_shell (init_paging s)))"
    "pmem t = fold (set_cell VIDEO 0x20) [0..1999] (pmem s)"
proof -
  note z = boot_ids [OF assms(1)]
  define w where "w = pit_init (init_shell (init_paging s))"
  obtain q m l where t: "t = w\<lparr>pmem := fold (set_cell VIDEO 0x20) [0..1999] (pmem s), ports := q, master_mask := m,
      slave_mask := l, current_line := 0, terminals := (terminals w)(0 := (terminals w 0)\<lparr>scr_y := 0, scr_x := 0\<rparr>),
      iflag := True\<rparr>"
    unfolding t_def w_def by (rule devices_state [OF z(1,6)])
  note g = slots_state [OF assms(1), folded w_def]
  have tr: "translate u t = translate u w" for u
    by (simp add: fun_eq_iff t translate_def table_at_def Let_def)
  have "vid_mem (terminals t k) = vid_mem (terminals w k)" "on_screen (terminals t k)" "line_ok (terminals t k)" if "term_no k" for k
    using g(8) [OF that] by (cases "k = 0"; simp add: t reset_shell_def on_screen_def line_ok_def pos_def)+
  moreover have "console_inv w" using g(7) by (simp add: sched_inv_def)
  then have "console_inv t" using calculation
    by (simp add: console_inv_def video_ok_def) (simp add: t paging_wf_def paging_on_def)
  moreover have "sched_arr t = sched_arr w" "cur_sched_term t = cur_sched_term w" by (simp_all add: t)
  ultimately show "kb_inv t"
    using g(7) by (simp add: kb_inv_def sched_inv_def buffers_ok_def slots_ok_def tr) metis
  show "display_ok t" by (simp add: display_ok_def t g screen_of_def vframe_def) (simp add: vframe_def [symmetric] g)
  show "fs_start t = fs_start s" "cur_sched_term t = 0" "prev_sched_term t = - 1" "iflag t"
    "sched_arr t = sched_arr (pit_init (init_shell (init_paging s)))"
    "pmem t = fold (set_cell VIDEO 0x20) [0..1999] (pmem s)"
    by (simp_all add: t g w_def [symmetric])
qed

text \<open>The kernel's page still holds what the loader put there.\<close>

lemma boot_view:
  fixes s :: "'a kernel_scheme" and b a :: u8
  assumes "static_data s"
  defines "t \<equiv> init_devices b a s"
  shows "paging_wf t" "drop_bit 22 x = 1 \<Longrightarrow> vmem t x = pmem s x"
proof -
  note d = boot_drivers [OF assms(1), of b a, folded t_def]
  show wf: "paging_wf t" using d(1) by (simp add: kb_inv_def sched_inv_def console_inv_def video_ok_def)
  have "same_outside VIDEO (pmem s) (pmem t)"
    unfolding d(8) by (intro fold_outside same_outside_cell) simp_all
  then show "vmem t x = pmem s x" if "drop_bit 22 x = 1"
    using kernel_view [OF wf that] kernel_page_above [OF that] by (simp add: same_outside_def)
qed

lemma boot_booted:
  fixes s :: "'a kernel_scheme" and b a :: u8
  assumes "static_data s" "disk_ok (pmem s) (fs_start s)"
  shows "booted (init_devices b a s)"
proof -
  define t where "t = init_devices b a s"
  note d = boot_drivers [OF assms(1), of b a, folded t_def] and v = boot_view [OF assms(1), where b = b and a = a, folded t_def]
  have "files_ok t" unfolding files_ok_disk using disk_ok_same [OF assms(2) v(2)] by (simp add: d(3))
  then show ?thesis
    using v(1) d(4) unfolding t_def [symmetric] by (simp add: booted_def d(7) pit_init_slots)
qed

section \<open>Starting the shell\<close>

lemma executable_local:
  assumes "files_ok s" "local_view s m"
  shows "executable m (fs_start s) name inode \<longleftrightarrow> executable (vmem s) (fs_start s) name inode"
    "executable (vmem s) (fs_start s) name inode \<Longrightarrow> entry_point m (fs_start s) inode = entry_point (vmem s) (fs_start s) inode"
proof -
  have io: "image_ok s" using assms(1) by (simp add: files_ok_def)
  note lv = local_view_image [OF io assms(2)] lookup_local(1) [OF io assms(2)]
  have fb: "file_bytes m (fs_start s) inode = file_bytes (vmem s) (fs_start s) inode"
    if "inode < num_inodes (vmem s) (fs_start s)"
    using local_view_file(2,3) [OF assms that] by (simp add: file_bytes_def)
  have ino: "inode_num m (dentry_addr (fs_start s) (of_nat j)) = inode_num (vmem s) (dentry_addr (fs_start s) (of_nat j))"
    if "lookup_name (vmem s) (fs_start s) name = Some j" for j
    by (rule dentry_local(3) [OF io assms(2) lookup_bound(2) [OF that]])
  show "executable m (fs_start s) name inode \<longleftrightarrow> executable (vmem s) (fs_start s) name inode"
    using ino fb by (auto simp: executable_def lv)
  show "entry_point m (fs_start s) inode = entry_point (vmem s) (fs_start s) inode"
    if "executable (vmem s) (fs_start s) name inode"
    using that fb by (simp add: executable_def entry_point_def)
qed

lemma entry_starts_shell:
  fixes s :: "'a kernel_scheme"
  assumes "static_data s" "disk_ok (pmem s) (fs_start s)" "length (ELF_buf0 l) = 32"
    and "executable (pmem s) (fs_start s) shell_name inode"
  shows "\<exists>t. entry_paged b a l s = Enters (entry_point (pmem s) (fs_start s) inode) t"
proof -
  define t where "t = init_devices b a s"
  note d = boot_drivers [OF assms(1), of b a, folded t_def] and v = boot_view [OF assms(1), where b = b and a = a, folded t_def]
  have bt: "booted t" unfolding t_def by (rule boot_booted [OF assms(1,2)])
  then have f: "files_ok t" by (simp add: booted_def)
  have "local_view t (pmem s)" using v(2) by (simp add: local_view_def)
  note e = executable_local [OF f this, unfolded d(3)]
  have ex: "executable (vmem t) (fs_start t) shell_name inode" using assms(4) e(1) by (simp add: d(3))
  have sh: "plain_name shell_name" "length shell_name \<le> 32" by (simp_all add: plain_name_def shell_name_def)
  have n: "sn_process_num (sched_arr t k) = k + 1" if "term_no k" for k
    using bt that by (elim term_no_cases) (simp_all add: booted_def)
  obtain m where m: "read_header (fs_start t) l LOCAL_NAME (put_bytes LOCAL_NAME (shell_name @ [0]) (vmem t)) = Some (Inr m)"
    "entry_point (vmem t) (fs_start t) inode = load32 m (LOCAL_ELF + 24)"
    using read_header_name(2) [OF f sh assms(3) ex] by auto
  have "\<exists>u. launch l t = Enters (entry_point (vmem t) (fs_start t) inode) u"
    by (rule launch_outcome [OF v(1) f assms(3) n]) (simp_all add: m)
  then show ?thesis using e(2) ex by (simp add: entry_paged_def t_def [symmetric] d(3))
qed

section \<open>An example\<close>

definition kernel5 :: kernel where
  "kernel5 = kernel1\<lparr>cur_terminal := 0, print_terminal := 0, cur_sched_term := 0, prev_sched_term := - 1, iflag := False, fault := False\<rparr>"

lemma kernel5_static: "static_data kernel5" "disk_ok (pmem kernel5) (fs_start kernel5)"
proof -
  have "paging_wf kernel1" using kernel1_runs by (simp add: runs_program_def)
  then show "static_data kernel5" by (simp add: static_data_def kernel5_def tables_placed_def paging_wf_def)
  have "disk_ok (vmem kernel1) 0x400000" using kernel1_files(1) by (simp add: files_ok_disk kernel1_fields)
  then have "disk_ok demo_fs 0x400000" by (rule disk_ok_same) (simp add: kernel1_view)
  then show "disk_ok (pmem kernel5) (fs_start kernel5)" by (simp add: kernel5_def kernel1_fields)
qed

lemma kernel5_shell: "executable (pmem kernel5) (fs_start kernel5) shell_name 0" "entry_point (pmem kernel5) (fs_start kernel5) 0 = 0x8048100"
proof -
  have "local_view kernel1 demo_fs" by (simp add: local_view_def kernel1_view)
  note e = executable_local [OF kernel1_files(1) this, unfolded kernel1_fields]
  show "executable (pmem kernel5) (fs_start kernel5) shell_name 0"
    using e(1) kernel1_shell by (simp add: kernel5_def kernel1_fields)
  show "entry_point (pmem kernel5) (fs_start kernel5) 0 = 0x8048100"
    using e(2) [OF kernel1_shell] kernel2_executable(2) by (simp add: kernel5_def kernel1_fields kernel2_state)
qed

lemma kernel5_enters: "\<exists>t. entry_paged 0 0 locals1 kernel5 = Enters 0x8048100 t"
  using entry_starts_shell [OF kernel5_static _ kernel5_shell(1), of locals1 0 0] by (simp add: kernel5_shell(2) locals1_def)

section \<open>Properties\<close>

text \<open>C10: Booting establishes the invariants. Started with the kernel's static data, page-aligned tables
  and a sound file system image in its page, the initialisations end without a fault, with interrupts
  on and exactly the timer, the keyboard, the cascade and the clock line open; the screen is blank, the
  drivers' invariant holds, the first terminal is the scheduled, the printing and the visible one, the image is
  still sound, and the scheduler's slots are those \<open>launch\<close> and the steps of the kernel start from.\<close>

theorem boot_establishes_invariants:
  fixes s :: "'a kernel_scheme" and b a :: u8
  assumes "static_data s" "disk_ok (pmem s) (fs_start s)"
  defines "t \<equiv> init_devices b a s"
  shows "booted t \<and> kb_inv t \<and> display_ok t \<and> iflag t \<and> prev_sched_term t = - 1 \<and>
    (\<forall>j < 16. irq_enabled t j \<longleftrightarrow> j \<in> {0, 1, 2, 8}) \<and>
    (\<forall>i. 0 \<le> i \<and> i < 2000 \<longrightarrow> glyph VIDEO (pmem t) i = 0x20)"
proof -
  note d = boot_drivers [OF assms(1), of b a, folded t_def]
  have "glyph VIDEO (pmem t) i = 0x20" if "0 \<le> i" "i < 2000" for i
    using that glyph_blank_cells [of "[0..1999]" i] by (simp add: d(8))
  moreover have "\<forall>j < 16. irq_enabled t j \<longleftrightarrow> j \<in> {0, 1, 2, 8}"
    by (simp add: t_def devices_irqs valid_irq_def)
  ultimately show ?thesis using d boot_booted [OF assms(1,2), of b a, folded t_def] by blast
qed

theorem boot_establishes_invariants_witness:
  "booted (init_devices 0 0 kernel5) \<and> irq_enabled (init_devices 0 0 kernel5) 8 \<and> \<not> irq_enabled (init_devices 0 0 kernel5) 12"
  using boot_establishes_invariants [OF kernel5_static, of 0 0] by simp

lemma entry_running:
  assumes "static_data s" "disk_ok (pmem s) (fs_start s)" "length (ELF_buf0 l) = 32" "entry_paged b a l s = Enters x t"
  shows "running (User, t)"
  using booted_running [OF boot_booted [OF assms(1,2)] assms(3)] assms(4) by (simp add: entry_paged_def)





end
