(* ===== verification/Devices.thy ===== *)
theory Devices
  imports Boot
begin

text \<open>
  The screens while the kernel runs. As long as no kernel access has gone wrong, the invariant of the
  terminals and the keyboard driver holds between all steps, and the process that runs prints on the
  screen of its own terminal.
\<close>

section \<open>The invariant\<close>

definition screens_ok :: "'a kb_scheme \<Rightarrow> bool" where
  "screens_ok s \<longleftrightarrow> fault s \<or> kb_inv s \<and> display_ok s"

text \<open>What it depends on besides the page directory and the process numbers.\<close>

definition screens :: "'a sched_scheme \<Rightarrow> shell carray \<times> int \<times> int \<times> u32 carray \<times> int \<times> (int \<Rightarrow> addr)" where
  "screens s = (terminals s, cur_terminal s, print_terminal s, first_page_table s, cur_sched_term s,
     \<lambda>k. video_buffer (sched_arr s k))"

lemma screens_ok_cong:
  assumes "screens_ok s" "screens t = screens s" "fault s \<Longrightarrow> fault t" "paging_wf t"
    and "\<And>k. term_no k \<Longrightarrow> 1 \<le> sn_process_num (sched_arr t k) \<and> sn_process_num (sched_arr t k) \<le> 6"
  shows "screens_ok t"
proof (cases "fault t")
  case False
  then have i: "kb_inv s" "display_ok s" using assms(1,3) by (auto simp: screens_ok_def)
  have e: "terminals t = terminals s" "cur_terminal t = cur_terminal s" "print_terminal t = print_terminal s"
    "first_page_table t = first_page_table s" "cur_sched_term t = cur_sched_term s"
    "video_buffer (sched_arr t k) = video_buffer (sched_arr s k)" for k
    using assms(2) by (auto simp: screens_def dest: fun_cong)
  have wf: "paging_wf s" using i(1) by (simp add: kb_inv_def sched_inv_def console_inv_def video_ok_def)
  have "translate False t (vid_mem (terminals s k)) = translate False s (vid_mem (terminals s k))" if "term_no k" for k
  proof -
    have "vid_mem (terminals s k) = 0xB9000 + word_of_int k * PAGE_SIZE"
      using i(1) that by (simp add: kb_inv_def sched_inv_def buffers_ok_def)
    then have "drop_bit 22 (vid_mem (terminals s k)) = 0" using that by (elim term_no_cases) simp_all
    then show ?thesis by (simp add: translate_low [OF wf] translate_low [OF assms(4)] e)
  qed
  moreover have "buffers_ok s" using i(1) by (simp add: kb_inv_def sched_inv_def)
  ultimately have "buffers_ok t" by (auto simp: buffers_ok_def e)
  then have "kb_inv t"
    using i(1) assms(4,5) False
    by (simp add: kb_inv_def sched_inv_def console_inv_def video_ok_def slots_ok_def e)
  moreover have "display_ok t" using i(2) by (simp add: display_ok_def vframe_def screen_of_def e)
  ultimately show ?thesis by (simp add: screens_ok_def)
qed (simp add: screens_ok_def)

text \<open>A driver that touches neither the scheduler nor the screens.\<close>

definition apart_from_screens :: "'a sched_scheme \<Rightarrow> 'a sched_scheme \<Rightarrow> bool" where
  "apart_from_screens s t \<longleftrightarrow> core_of t = core_of s \<and> screens t = screens s \<and> (fault s \<longrightarrow> fault t)"

lemma apart_trans: "apart_from_screens s t \<Longrightarrow> apart_from_screens t u \<Longrightarrow> apart_from_screens s u"
  by (simp add: apart_from_screens_def)

lemma apart_refl [simp]: "apart_from_screens s s"
  by (simp add: apart_from_screens_def)

lemma screens_ok_apart:
  assumes "screens_ok s" "apart_from_screens s t"
  shows "screens_ok t"
proof (cases "fault s")
  case False
  then have i: "kb_inv s" using assms(1) by (simp add: screens_ok_def)
  have c: "core_of t = core_of s" using assms(2) by (simp add: apart_from_screens_def)
  have "paging_wf s" "\<And>k. term_no k \<Longrightarrow> 1 \<le> sn_process_num (sched_arr s k) \<and> sn_process_num (sched_arr s k) \<le> 6"
    using i by (simp_all add: kb_inv_def sched_inv_def console_inv_def video_ok_def slots_ok_def)
  then show ?thesis
    using assms by (intro screens_ok_cong [OF assms(1)]) (simp_all add: apart_from_screens_def core_fields [OF c])
qed (use assms(2) in \<open>simp add: screens_ok_def apart_from_screens_def\<close>)

section \<open>Operations apart from the screens\<close>

named_theorems apart

lemma apart_op: "apart_from_screens t (f t) \<Longrightarrow> apart_from_screens s t \<Longrightarrow> apart_from_screens s (f t)"
  by (rule apart_trans)

lemma apart_fold: "(\<And>x t. apart_from_screens t (f x t)) \<Longrightarrow> apart_from_screens s (fold f xs s)"
  by (induction xs arbitrary: s) (auto intro: apart_trans)

lemma apart_machine [apart]:
  "apart_from_screens s (cli s)" "apart_from_screens s (sti s)" "apart_from_screens s (restore_flags f s)"
  "apart_from_screens s (raise_fault s)" "apart_from_screens s (outb d p s)" "apart_from_screens s (enable_irq k s)"
  "apart_from_screens s (disable_irq k s)" "apart_from_screens s (send_eoi k s)"
  by (simp_all add: apart_from_screens_def core_of_def screens_def cli_def sti_def restore_flags_def raise_fault_def
      outb_def enable_irq_def disable_irq_def send_eoi_def Let_def)

lemma apart_kstore [apart]: "apart_from_screens s (kstore a b s)"
  by (simp add: apart_from_screens_def core_of_def screens_def kstore_def raise_fault_def split: option.split)

lemma apart_store_range [apart]: "apart_from_screens s (store_range a n m s)"
  unfolding store_range_def by (rule apart_fold) (rule apart_kstore)

lemma apart_globals [apart]:
  "apart_from_screens s (s\<lparr>kb_flags := b\<rparr>)" "apart_from_screens s' (s'\<lparr>count := f\<rparr>)"
  "apart_from_screens s' (s'\<lparr>interrupt_flags := g\<rparr>)" "apart_from_screens s' (s'\<lparr>frequencies := h\<rparr>)"
  "apart_from_screens s'' (upd_pcb u s'')" "apart_from_screens s'' (upd_fd fd v s'')"
  by (simp_all add: apart_from_screens_def core_of_def screens_def upd_fd_def upd_pcb_def)

lemma apart_count_tick [apart]: "apart_from_screens s (count_tick i s)"
  by (simp add: apart_from_screens_def core_of_def screens_def count_tick_def Let_def)

lemma apart_vread [apart]: "apart_from_screens s (snd (vread_data i off buf len s))"
  by (simp add: vread_data_def apart_store_range split: prod.split)

lemma apart_file_read [apart]: "apart_from_screens s (snd (file_read fd buf n s))"
proof -
  define v where "v = vread_data (fd_inode (fdt (cur_pcb s) fd)) (file_position (fdt (cur_pcb s) fd)) buf (word_of_int n) s"
  have "apart_from_screens s (snd v)" by (simp add: v_def apart_vread)
  moreover have "snd (file_read fd buf n s) \<in>
      {s, snd v, upd_fd fd (\<lambda>d. d\<lparr>file_position := file_position d + fst v\<rparr>) (snd v)}"
    by (simp add: file_read_def v_def [symmetric] Let_def split: prod.split)
  ultimately show ?thesis using apart_trans [OF _ apart_globals(6)] by auto
qed

lemma apart_dir_read [apart]: "apart_from_screens s (snd (dir_read fd buf n s))"
proof -
  define m where "m = strncpy (snd (read_dentry_by_index (vmem s) (fs_start s) (file_position (fdt (cur_pcb s) fd)) LOCAL_DENTRY))
    buf LOCAL_DENTRY NAME_LENGTH"
  have "snd (dir_read fd buf n s) \<in>
      {s, upd_fd fd (\<lambda>d. d\<lparr>file_position := file_position d + 1\<rparr>) (store_range buf 32 m s)}"
    by (simp add: dir_read_def m_def Let_def split: prod.split)
  then show ?thesis using apart_trans [OF apart_store_range apart_globals(6)] by auto
qed

lemma apart_rtc [apart]:
  "apart_from_screens s (snd (rtc_open s))" "apart_from_screens s (snd (rtc_close s))"
  "apart_from_screens s (snd (rtc_write buf n s))" "apart_from_screens s (rtc_read_start s)"
  by (simp_all add: apart_from_screens_def core_of_def screens_def rtc_open_def rtc_close_def rtc_write_def rtc_read_start_def
      cli_and_save_def cli_def sti_def restore_flags_def raise_fault_def Let_def split: option.split)

section \<open>A fault is never forgotten\<close>

named_theorems lasting

lemma lasting_fold: "(\<And>x s. fault s \<Longrightarrow> fault (f x s)) \<Longrightarrow> fault s \<Longrightarrow> fault (fold f xs s)"
  by (induction xs arbitrary: s) simp_all

lemma lasting_pages [lasting]:
  "fault s \<Longrightarrow> fault (kstore a b s)" "fault s \<Longrightarrow> fault (page_copy d c s)"
  by (simp_all add: kstore_def page_copy_def raise_fault_def split: option.split)

lemma lasting_fields [simp]:
  "fault (set_page_table1_entry v p s) = fault s" "fault (upd_term i f t) = fault t" "fault (show_cursor t) = fault t"
  "fault (move_cursor x y u) = fault u" "fault (raise_fault u)"
  by (simp_all add: set_page_table1_entry_def upd_term_def show_cursor_def move_cursor_def outb_def raise_fault_def Let_def)

lemma lasting_cells [lasting]: "fault s \<Longrightarrow> fault (put_cell c j s)" "fault s \<Longrightarrow> fault (copy_cell j s)"
  by (simp_all add: put_cell_def copy_cell_def lasting split: option.split)

lemma lasting_clear [lasting]: "fault s \<Longrightarrow> fault (clear s)" "fault s \<Longrightarrow> fault (scroll_up s)"
  by (simp_all add: clear_def scroll_up_def lasting_fold lasting)

lemma lasting_text [lasting]:
  "fault s \<Longrightarrow> fault (new_line s)" "fault s \<Longrightarrow> fault (reset_screen s)" "fault s \<Longrightarrow> fault (back_space s)"
  by (simp_all add: new_line_def reset_screen_def back_space_def Let_def lasting)

lemma lasting_putc [lasting]: "fault s \<Longrightarrow> fault (putc c s)"
  by (simp add: putc_def Let_def lasting)

lemma lasting_editor [lasting]:
  "fault s \<Longrightarrow> fault (print_scancode c s)" "fault s \<Longrightarrow> fault (reprint s)" "fault s \<Longrightarrow> fault (snd (change_shell k s))"
  by (simp_all add: print_scancode_def kb_store_def reprint_def change_shell_def Let_def lasting lasting_fold)

lemma lasting_keyboard [lasting]: "fault s \<Longrightarrow> fault (keyboard_interrupt_handler c s)"
  by (simp add: keyboard_interrupt_handler_def recent_release_exec_def after_release_exec_def cli_and_save_def Let_def lasting
      cli_def restore_flags_def kb_irq_ops)

section \<open>Printing and typing\<close>

text \<open>A change of the terminals that keeps cursors on the screen, lines in their buffers and buffers in
  their place.\<close>

lemma screens_ok_edit:
  fixes s :: "'a kb_scheme"
  assumes "kb_inv s" "display_ok s" "edit_frame s t" "editor_inv t" "cur_terminal t = cur_terminal s"
  shows "screens_ok t"
proof -
  have more: "console.more t = console.more s" "print_terminal t = print_terminal s"
    "\<And>k. vid_mem (terminals t k) = vid_mem (terminals s k)" "first_page_table t = first_page_table s"
    using assms(3) by (simp_all add: edit_frame_def)
  then have sc: "sched_arr t = sched_arr s" "cur_sched_term t = cur_sched_term s" by (cases s; cases t; simp)+
  have "buffers_ok t" using edit_frame_buffers [OF assms(3)] assms(1) by (simp add: kb_inv_def sched_inv_def)
  then have "kb_inv t"
    using assms(1,4) by (simp add: kb_inv_def sched_inv_def editor_inv_def slots_ok_def sc more)
  moreover have "display_ok t"
    using assms(2,5) by (simp add: display_ok_def screen_of_def vframe_def more sc)
  ultimately show ?thesis by (simp add: screens_ok_def)
qed

lemma editor_kb: "kb_inv s \<Longrightarrow> editor_inv s"
  by (simp add: kb_inv_def sched_inv_def editor_inv_def)

lemma screens_ok_putc:
  assumes "screens_ok s"
  shows "screens_ok (putc c s)"
proof (cases "fault s")
  case False
  then have i: "kb_inv s" "display_ok s" using assms by (simp_all add: screens_ok_def)
  then have ci: "console_inv s" by (simp add: kb_inv_def sched_inv_def)
  note p = putc_step(3) [OF ci, of c]
  have "cur_terminal (putc c s) = cur_terminal s" using p unfolding prints_only_def by auto
  then show ?thesis
    using screens_ok_edit [OF i edit_frame_prints [OF p] editor_putc [OF editor_kb [OF i(1)]]] by simp
qed (simp add: screens_ok_def lasting)

lemma screens_ok_upd_term:
  assumes "screens_ok s" and "\<And>t. line_ok t \<Longrightarrow> on_screen t \<Longrightarrow> line_ok (f t) \<and> on_screen (f t)"
    and "\<And>t. vid_mem (f t) = vid_mem t" and "term_no i"
  shows "screens_ok (upd_term i f s)"
proof (cases "fault s")
  case False
  then have i: "kb_inv s" "display_ok s" using assms by (simp_all add: screens_ok_def)
  have "line_ok (terminals s i)" "on_screen (terminals s i)"
    using i(1) assms(4) by (simp_all add: kb_inv_def sched_inv_def console_inv_def)
  then have "editor_inv (upd_term i f s)" using assms(2) by (intro editor_upd_term editor_kb [OF i(1)]) simp_all
  moreover have "edit_frame s (upd_term i f s)" by (rule edit_frame_upd_term) (simp add: assms(3))
  ultimately show ?thesis by (intro screens_ok_edit [OF i]) (simp_all add: upd_term_def)
qed (simp add: screens_ok_def)

lemma screens_ok_key:
  assumes "screens_ok s"
  shows "screens_ok (keyboard_interrupt_handler c s)"
proof (cases "fault s")
  case False
  then have i: "kb_inv s" "display_ok s" using assms by (simp_all add: screens_ok_def)
  show ?thesis
  proof (cases "overflowing c (the_term s)")
    case True
    then show ?thesis using enter_overflows [OF i(1)] by (simp add: screens_ok_def overflowing_def)
  next
    case False
    then show ?thesis using keyboard_step(1,2) [OF i] by (simp add: screens_ok_def)
  qed
qed (simp add: screens_ok_def lasting)

lemma screens_ok_fold: "(\<And>x s. screens_ok s \<Longrightarrow> screens_ok (f x s)) \<Longrightarrow> screens_ok s \<Longrightarrow> screens_ok (fold f xs s)"
  by (induction xs arbitrary: s) simp_all

lemmas screens_ok_ops = apart_machine [THEN screens_ok_apart [rotated]] apart_kstore [THEN screens_ok_apart [rotated]]
  apart_store_range [THEN screens_ok_apart [rotated]] apart_globals [THEN screens_ok_apart [rotated]]
  apart_count_tick [THEN screens_ok_apart [rotated]] apart_file_read [THEN screens_ok_apart [rotated]]
  apart_dir_read [THEN screens_ok_apart [rotated]] apart_rtc [THEN screens_ok_apart [rotated]]

lemma screens_ok_clock:
  assumes "screens_ok s"
  shows "screens_ok (rtc_interrupt_handler s)"
proof -
  define t where "t = fold count_tick [0, 1, 2] (send_eoi RTC_IRQ_NUM (disable_irq RTC_IRQ_NUM (cli s)))"
  have e: "rtc_interrupt_handler s = restore_flags (iflag s) (enable_irq RTC_IRQ_NUM (outb REGISTER_C RTC_PORT0
      (if rtc_test_flag t \<noteq> 0 then putc 0x66 t else t)))"
    by (simp add: rtc_interrupt_handler_def cli_and_save_def Let_def t_def)
  have "screens_ok t" unfolding t_def by (intro screens_ok_fold screens_ok_ops assms)
  then have "screens_ok (if rtc_test_flag t \<noteq> 0 then putc 0x66 t else t)" by (simp add: screens_ok_putc)
  then show ?thesis unfolding e by (intro screens_ok_ops)
qed

section \<open>Descriptor calls\<close>

lemma screens_ok_write_byte:
  assumes "screens_ok s"
  shows "screens_ok (write_byte buf i s)"
  using assms by (simp add: write_byte_def screens_ok_putc screens_ok_ops split: option.split)

lemma screens_ok_terminal_write:
  assumes "screens_ok s"
  shows "screens_ok (snd (terminal_write buf n s))"
proof -
  have "screens_ok (fold (write_byte buf) [0..n - 1] ((cli s)\<lparr>kb_flags := iflag s\<rparr>))"
    by (intro screens_ok_fold screens_ok_write_byte screens_ok_ops assms)
  then show ?thesis using assms by (simp add: terminal_write_def cli_and_save_def Let_def screens_ok_ops)
qed

lemma screens_ok_empty_line:
  assumes "screens_ok s"
  shows "screens_ok (upd_term (cur_terminal s) (\<lambda>t. t\<lparr>buf_index := 0\<rparr>) s)"
proof (cases "fault s")
  case False
  then have "term_no (cur_terminal s)" using assms by (simp add: screens_ok_def kb_inv_def sched_inv_def console_inv_def)
  then show ?thesis by (intro screens_ok_upd_term [OF assms]) (simp_all add: line_ok_def on_screen_def pos_def)
qed (simp add: screens_ok_def)

lemma screens_ok_terminal_file:
  "screens_ok s \<Longrightarrow> screens_ok (snd (terminal_open s))" "screens_ok s \<Longrightarrow> screens_ok (snd (terminal_close s))"
  by (simp_all add: terminal_open_def terminal_close_def screens_ok_empty_line)

lemma screens_ok_wait_line: "wait_line ks s = Some (r, s') \<Longrightarrow> screens_ok s \<Longrightarrow> screens_ok s'"
  by (induction ks s rule: wait_line.induct)
    (subst (asm) (2) wait_line.simps, auto split: if_splits list.splits intro: screens_ok_key)

lemma screens_ok_rtc_wait: "rtc_wait n s = Some s' \<Longrightarrow> screens_ok s \<Longrightarrow> screens_ok s'"
  by (induction n s rule: rtc_wait.induct)
    (subst (asm) (2) rtc_wait.simps, auto split: if_splits nat.splits intro: screens_ok_clock)

lemma screens_ok_terminal_read:
  assumes "terminal_read buf n ks s = Some (r, rest, s')" "screens_ok s"
  shows "screens_ok s'"
proof (cases "terminal_read_start buf n s")
  case None
  then show ?thesis using assms by (simp add: terminal_read_def)
next
  case (Some t)
  then have t: "t = upd_term (cur_sched_term s) (\<lambda>t. t\<lparr>line_buffer_flag := 0\<rparr>) s"
    by (simp add: terminal_read_start_def split: if_splits)
  have "screens_ok t"
    using assms(2) read_start_inv [of s] by (auto simp: t screens_ok_def)
  moreover obtain u where u: "wait_line ks t = Some (rest, u)" "s' = snd (terminal_read_finish buf n u)"
    using assms(1) Some by (auto simp: terminal_read_def split: option.splits prod.splits)
  ultimately have "screens_ok u" using screens_ok_wait_line by blast
  define v where "v = fold (copy_key buf) [0..(if n < buf_index (the_term (cli u)) then n else buf_index (the_term (cli u))) - 1] (cli u)"
  have "screens_ok (copy_key buf i w)" if "screens_ok w" for i and w :: "'a kb_scheme"
    using that by (simp add: copy_key_def screens_ok_ops)
  then have "screens_ok v" unfolding v_def by (intro screens_ok_fold screens_ok_ops \<open>screens_ok u\<close>)
  moreover have "s' = sti (upd_term (cur_terminal v) (\<lambda>t. t\<lparr>buf_index := 0\<rparr>) v)"
    by (simp add: u terminal_read_finish_def v_def copy_key_def [abs_def] Let_def)
  ultimately show ?thesis by (simp add: screens_ok_empty_line screens_ok_ops)
qed

lemma screens_ok_read:
  assumes "sys_read fd buf n keys irqs s = Some (r, s')" "screens_ok s"
  shows "screens_ok s'"
proof -
  have c: "screens_ok (sti (cli s))" by (intro screens_ok_ops assms(2))
  have "screens_ok s'" if t: "table_read j fd buf n keys irqs (sti (cli s)) = Some (r, s')" for j
  proof (cases j)
    case rtc_table
    then show ?thesis using t screens_ok_rtc_wait [OF _ screens_ok_apart [OF c apart_rtc(4)]] by (auto simp: rtc_read_def)
  next
    case file_table
    then show ?thesis using t screens_ok_apart [OF c apart_file_read, of fd buf n] by (auto simp: prod_eq_iff)
  next
    case dir_table
    then show ?thesis using t screens_ok_apart [OF c apart_dir_read, of fd buf n] by (auto simp: prod_eq_iff)
  next
    case stdin_table
    then show ?thesis using t c screens_ok_terminal_read by auto
  qed (use t c in \<open>auto simp: invalid_read_def\<close>)
  then show ?thesis using assms(1) c by (auto simp: sys_read_def Let_def split: if_splits)
qed

lemma screens_ok_write: "screens_ok s \<Longrightarrow> screens_ok (snd (sys_write fd buf n s))"
proof -
  assume "screens_ok s"
  then have c: "screens_ok (sti (cli s))" by (intro screens_ok_ops)
  have "screens_ok (snd (table_write j buf n t))" if "screens_ok t" for j and t :: "'a kernel_scheme"
    using that by (cases j) (simp_all add: file_write_def dir_write_def invalid_write_def screens_ok_terminal_write screens_ok_ops)
  then show ?thesis using c by (simp add: sys_write_def Let_def)
qed

lemma screens_ok_close: "screens_ok s \<Longrightarrow> screens_ok (snd (sys_close fd s))"
proof -
  have "screens_ok (snd (table_close j t))" if "screens_ok t" for j and t :: "'a kernel_scheme"
    using that by (cases j) (simp_all add: file_close_def dir_close_def screens_ok_terminal_file screens_ok_ops)
  then show "screens_ok s \<Longrightarrow> screens_ok (snd (sys_close fd s))"
    by (simp add: sys_close_def screens_ok_ops)
qed

lemma screens_ok_close_all: "screens_ok s \<Longrightarrow> screens_ok (close_all s)"
  unfolding close_all_def by (rule screens_ok_fold) (rule screens_ok_close)

lemma screens_ok_open: "screens_ok s \<Longrightarrow> screens_ok (snd (sys_open filename s))"
  by (simp add: sys_open_def open_fd_def dir_open_def file_open_def Let_def screens_ok_ops screens_ok_terminal_file
      split: option.split prod.split)

section \<open>Processes\<close>

lemma running_pages:
  assumes "running (m, t)"
  shows "paging_wf t" "term_no k \<Longrightarrow> 1 \<le> sn_process_num (sched_arr t k) \<and> sn_process_num (sched_arr t k) \<le> 6"
    "term_no (cur_sched_term t)" "prev_sched_term t \<noteq> - 1"
proof -
  obtain cs where i: "kernel_inv cs m t" using assms by (auto simp: running_def)
  then show "paging_wf t" "term_no (cur_sched_term t)" "prev_sched_term t \<noteq> - 1" by (simp_all add: kernel_inv_def)
  show "1 \<le> sn_process_num (sched_arr t k) \<and> sn_process_num (sched_arr t k) \<le> 6" if "term_no k"
    using i hd_stack_range [of t cs, OF _ that] by (simp add: kernel_inv_def)
qed

lemma screens_ok_running:
  fixes t :: "'a kernel_scheme"
  assumes "screens_ok s" "screens t = screens s" "fault s \<Longrightarrow> fault t" "running (m, t)"
  shows "screens_ok t"
  using running_pages(1,2) [OF assms(4)] by (intro screens_ok_cong [OF assms(1-3)])

lemma screens_sched [simp]:
  "screens (s\<lparr>esp := a\<rparr>) = screens s" "screens (s\<lparr>ebp := a\<rparr>) = screens s" "screens (s\<lparr>iflag := b\<rparr>) = screens s"
  "screens (s\<lparr>fault := b\<rparr>) = screens s" "screens (s\<lparr>pmem := m\<rparr>) = screens s" "screens (s\<lparr>page_directory := d\<rparr>) = screens s"
  "screens (s\<lparr>tss_esp0 := a\<rparr>) = screens s" "screens (s\<lparr>tss_ss0 := x\<rparr>) = screens s" "screens (s\<lparr>prev_sched_term := j\<rparr>) = screens s"
  "screens (s\<lparr>program_addr_test := a\<rparr>) = screens s"
  by (simp_all add: screens_def)

lemma screens_kernel [simp]:
  "screens (t\<lparr>process_num := j\<rparr>) = screens t" "screens (t\<lparr>process_array := f\<rparr>) = screens t" "screens (t\<lparr>pcbs := g\<rparr>) = screens t"
  by (simp_all add: screens_def)

lemma screens_changes [simp]:
  "screens (started l as p q t) = screens t" "screens (halted b t) = screens t" "screens (excepted b t) = screens t"
  "screens (leave_to a t) = screens t" "screens (trap d e t) = screens t"
  by (auto simp: screens_def started_def halted_def excepted_def leave_to_def trap_def Let_def)

lemma fault_changes [simp]:
  "fault (started l as p q t) = fault t" "fault (halted b t) = fault t" "fault (excepted b t) = fault t"
  "fault (leave_to a t) = fault t" "fault (trap d e t) = fault t"
  by (simp_all add: started_def halted_def excepted_def leave_to_def trap_def Let_def)

lemma screens_ok_trap:
  assumes "screens_ok s" "kernel_inv cs m s" "frame_ok d e"
  shows "screens_ok (trap d e s)"
  using kernel_inv_trap(1) [OF assms(2,3)] by (intro screens_ok_running [OF assms(1)]) (auto simp: running_def)

lemma screens_ok_halt:
  fixes s :: "'a kernel_scheme"
  assumes "screens_ok s"
  shows "halt status s = Returns r t \<Longrightarrow> running (Kernel, t) \<Longrightarrow> screens_ok t"
    "halt status s = Enters a t \<Longrightarrow> running (User, t) \<Longrightarrow> screens_ok t"
proof -
  show "screens_ok t" if "halt status s = Returns r t" "running (Kernel, t)"
  proof -
    have np: "pid (cur_pcb s) \<notin> {1, 2, 3}" using that(1) halt_shell [of s status] by auto
    have "t = leave_to (parent_ebp (cur_pcb s)) (halted (cur_pcb s) (close_all s))"
      using that(1) halt_eq [OF np, of status] by simp
    then show ?thesis by (intro screens_ok_running [OF screens_ok_close_all [OF assms] _ _ that(2)]) simp_all
  qed
  show "screens_ok t" if "halt status s = Enters a t" "running (User, t)"
  proof -
    have "pid (cur_pcb s) \<in> {1, 2, 3}" using that(1) halt_eq [of s status] by auto
    then have "t = s\<lparr>iflag := True, esp := USER_ESP\<rparr>" using that(1) halt_shell [of s status] by simp
    then show ?thesis by (intro screens_ok_running [OF assms _ _ that(2)]) simp_all
  qed
qed

lemma screens_ok_execute:
  fixes s :: "'a kernel_scheme"
  assumes "kernel_inv cs Kernel s" "files_ok s" "length (ELF_buf0 l) = 32" "screens_ok s"
  shows "execute l command s = Returns r t \<Longrightarrow> running (Kernel, t) \<Longrightarrow> screens_ok t"
    "execute l command s = Enters a t \<Longrightarrow> running (User, t) \<Longrightarrow> screens_ok t"
proof -
  have i: "procs s cs" "paging_wf s" using assms(1) by (simp_all add: kernel_inv_def)
  note eo = execute_outcome [OF i(1) assms(2) i(2) assms(3), of command]
  show "screens_ok t" if e: "execute l command s = Returns r t" "running (Kernel, t)"
  proof (rule eo)
    fix b f assume x: "execute l command s = Returns (- 1) (s\<lparr>iflag := b, fault := f\<rparr>)" "fault s \<longrightarrow> f"
    then have "t = s\<lparr>iflag := b, fault := f\<rparr>" using e(1) by simp
    then show ?thesis using x(2) by (intro screens_ok_running [OF assms(4) _ _ e(2)]) simp_all
  qed (use e in simp)
  show "screens_ok t" if e: "execute l command s = Enters a t" "running (User, t)"
  proof (rule eo)
    fix p as m inode
    assume "execute l command s = start_program l as m (s\<lparr>iflag := False\<rparr>)"
      "start_program l as m (s\<lparr>iflag := False\<rparr>) =
        Enters (load32 m (LOCAL_ELF + 24)) (started l as p (pmem (snd (vread_data inode 0 PROG_START MAX_PROG_SIZE
          (mapped_for p (s\<lparr>iflag := False\<rparr>))))) (s\<lparr>iflag := False\<rparr>))"
    then obtain q where "t = started l as p q (s\<lparr>iflag := False\<rparr>)" using e(1) by auto
    then show ?thesis by (intro screens_ok_running [OF assms(4) _ _ e(2)]) simp_all
  qed (use e in simp)
qed

lemma screens_ok_getargs: "screens_ok s \<Longrightarrow> screens_ok (snd (getargs buf n s))"
  by (simp add: getargs_def Let_def screens_ok_ops)

lemma screens_ok_vidmap:
  fixes s :: "'a kernel_scheme"
  assumes "screens_ok s" "running (m, snd (vidmap a s))"
  shows "screens_ok (snd (vidmap a s))"
proof -
  define u where "u = set_page_table2_entry USER_VIDEO_MEM VIDEO_MEM_ADDR
    (upd_sched (cur_sched_term s) (\<lambda>n. n\<lparr>sn_vid_map := 1\<rparr>) (upd_pcb (\<lambda>p. p\<lparr>pcb_vidmem := 1\<rparr>) s))"
  have u: "screens u = screens s" "fault u = fault s"
    by (auto simp: u_def screens_def set_page_table2_entry_def upd_sched_def upd_pcb_def)
  have "snd (vidmap a s) = s \<or> snd (vidmap a s) = store_range a 4 (store32 a USER_VIDEO_MEM (vmem u)) u"
    by (simp add: vidmap_def u_def upd_pcb_def Let_def)
  moreover have "screens (store_range a 4 v u) = screens s" "fault s \<Longrightarrow> fault (store_range a 4 v u)" for v
    using apart_store_range [where s = u and a = a and n = 4 and m = v] u by (simp_all add: apart_from_screens_def)
  ultimately show ?thesis using assms(1) by (auto intro!: screens_ok_running [OF assms(1) _ _ assms(2)])
qed

lemma excepted_range:
  fixes s :: "'a kernel_scheme"
  assumes "kernel_inv cs Kernel s" "pid (cur_pcb s) \<notin> {1, 2, 3}" "term_no k"
  defines "n \<equiv> sched_arr (excepted (cur_pcb s) s) k"
  shows "1 \<le> sn_process_num n \<and> sn_process_num n \<le> 6"
proof -
  let ?c = "cur_sched_term s"
  have i: "procs s cs" "term_no ?c" "in_stack (hd (cs ?c)) (esp s)" using assms(1) by (simp_all add: kernel_inv_def)
  note g = pcb_of_stack [OF hd_stack_range(1,2) [OF i(1,2)] i(3)]
  have "cs ?c \<noteq> [?c + 1]" using assms(2) current_pid [OF i(1,2) g] i(2) by (auto simp: term_no_def)
  then obtain q ps where q: "cs ?c = hd (cs ?c) # q # ps" using stack_top [OF i(1,2)] by metis
  obtain w where w: "procs w (cs(?c := q # ps))" "own_fds_only (excepted (cur_pcb s) s) w"
    by (rule exception_outcome [OF i(1,2) g q])
  from hd_stack_range [OF w(1) assms(3)] w(2) show ?thesis by (simp add: n_def own_fds_only_def core_of_def)
qed

lemma screens_ok_exception:
  fixes s :: "'a kernel_scheme"
  assumes "kernel_inv cs Kernel s" "pid (cur_pcb s) \<notin> {1, 2, 3}" "screens_ok s"
    and "EXCEPTION_MAKER f x s = Returns r t" "running (Kernel, t)"
  shows "screens_ok t"
proof -
  let ?p = "cur_pcb s"
  define v where "v = fold putc (exception_text x) (cli s)"
  have k: "kept v = kept s" unfolding v_def by (rule exception_eq(2))
  have v: "screens_ok v" unfolding v_def by (intro screens_ok_fold screens_ok_putc screens_ok_ops assms(3))
  have c: "core_of (excepted ?p v) = core_of (excepted ?p s)" by (rule kept_kernel(8) [OF excepted_kept [OF k]])
  have "paging_wf s" using assms(1) by (simp add: kernel_inv_def)
  then have "paging_wf (excepted ?p s)" unfolding paging_wf_def paging_on_def by (simp add: excepted_def Let_def bit_or_iff)
  then have "screens_ok (excepted ?p v)"
    using excepted_range [OF assms(1,2)] by (intro screens_ok_cong [OF v]) (simp_all add: core_fields [OF c])
  then have "screens_ok (close_all (excepted ?p v))" by (rule screens_ok_close_all)
  moreover have "t = leave_to (parent_ebp ?p) ((close_all (excepted ?p v))\<lparr>tss_esp0 := parent_esp ?p, iflag := True\<rparr>)"
    using assms(4) exception_eq(1) [of f x s] by (simp add: v_def)
  ultimately show ?thesis by (intro screens_ok_running [OF _ _ _ assms(5)]) simp_all
qed

section \<open>Ticks and the start\<close>

lemma screens_ok_tick:
  assumes "screens_ok s" "prev_sched_term s \<noteq> - 1" "term_no (cur_sched_term s)"
  shows "screens_ok (final (pit_interrupt_handler s))"
proof (cases "fault s")
  case True
  then show ?thesis using pit_tick(12) [OF assms(2,3)] by (simp add: screens_ok_def)
next
  case False
  then have i: "kb_inv s" using assms(1) by (simp add: screens_ok_def)
  then have "sched_inv s" by (simp add: kb_inv_def)
  note t = tick_inv [OF this assms(2)]
  have "kb_inv (final (pit_interrupt_handler s))"
    using t(1) i pit_tick(10) [OF assms(2,3)] by (simp add: kb_inv_def)
  then show ?thesis using t(2) by (simp add: screens_ok_def)
qed

lemma screens_load_shells:
  "screens (snd (load_shells inode is s)) = screens s \<and> (fault s \<longrightarrow> fault (snd (load_shells inode is s)))"
proof (induction "is" arbitrary: s)
  case (Cons i "is")
  have "screens (snd (load_shell inode i s)) = screens s \<and> (fault s \<longrightarrow> fault (snd (load_shell inode i s)))"
    using apart_vread [where s = "set_page_dir_entry USER_PROG (EIGHT_MB + word_of_int i * FOUR_MB) s" and i = inode and off = 0
        and buf = PROG_START and len = MAX_PROG_SIZE]
    by (auto simp: load_shell_def Let_def apart_from_screens_def set_page_dir_entry_def split: prod.split)
  then show ?case using Cons.IH [of "snd (load_shell inode i s)"] by (auto split: prod.split)
qed simp

lemma screens_launch:
  assumes "launch l s = Enters a t"
  shows "screens t = screens s" "fault s \<Longrightarrow> fault t"
proof -
  let ?s = "free_slots (cli s)"
  have c: "screens ?s = screens s" "fault ?s = fault s" by (simp_all add: free_slots_def cli_def)
  have ls: "screens u = screens s \<and> (fault s \<longrightarrow> fault u)" if "load_shells j [2, 1, 0] ?s = (ok, u)" for j ok u
    using screens_load_shells [of j "[2, 1, 0]" ?s] that c by (simp del: load_shells.simps)
  have "screens t = screens s \<and> (fault s \<longrightarrow> fault t)"
    using assms unfolding launch_def
    by (auto simp: Let_def context_switch_def upto.simps simp del: load_shells.simps dest!: ls
        split: option.splits sum.splits prod.splits if_splits)
  then show "screens t = screens s" "fault s \<Longrightarrow> fault t" by simp_all
qed

section \<open>Every step\<close>

lemma outcome_call:
  fixes s :: "'a kernel_scheme"
  assumes "kernel_inv cs Kernel s" "length (ELF_buf0 l) = 32" "eax = 2 \<longrightarrow> files_ok s" "screens_ok s"
  shows "system_call_handler eax ebx ecx edx l keys irqs s = Returns r t \<Longrightarrow> running (Kernel, t) \<Longrightarrow> screens_ok t"
    "system_call_handler eax ebx ecx edx l keys irqs s = Enters a t \<Longrightarrow> running (User, t) \<Longrightarrow> screens_ok t"
proof -
  define v where "v = sti s"
  have v: "kernel_inv cs Kernel v" "screens_ok v" "eax = 2 \<longrightarrow> files_ok v"
    unfolding v_def using kernel_inv_kept [OF assms(1)] assms(3) by (simp_all add: screens_ok_ops assms(4)) (simp add: sti_def)
  have n: "eax - 1 = 1 \<longleftrightarrow> eax = 2" by (simp add: diff_eq_eq)
  have rd: "sys_read fd buf k keys irqs v = Some (r, t) \<Longrightarrow> screens_ok t" for fd buf k r t
    using screens_ok_read v(2) by blast
  note q = screens_ok_write [OF v(2)] screens_ok_open [OF v(2)] screens_ok_close [OF v(2)] screens_ok_getargs [OF v(2)]
  show "screens_ok t" if "system_call_handler eax ebx ecx edx l keys irqs s = Returns r t" "running (Kernel, t)"
    using that screens_ok_halt(1) [OF v(2)] screens_ok_execute(1) [OF v(1) _ assms(2) v(2)] v screens_ok_vidmap [OF v(2)] q
    unfolding system_call_handler_def Let_def v_def [symmetric] n
    by (auto simp: ret_def set_handler_def sigreturn_def split: if_splits option.splits intro: rd)
  show "screens_ok t" if "system_call_handler eax ebx ecx edx l keys irqs s = Enters a t" "running (User, t)"
    using that screens_ok_halt(2) [OF v(2)] screens_ok_execute(2) [OF v(1) _ assms(2) v(2)] v(3)
    unfolding system_call_handler_def Let_def v_def [symmetric] n
    by (auto simp: ret_def split: if_splits option.splits)
qed

definition working :: "mode \<times> 'a kernel_scheme \<Rightarrow> bool" where
  "working x \<longleftrightarrow> running x \<and> screens_ok (snd x)"

lemma working_trap:
  assumes "working (m, s)" "frame_ok d e"
  obtains cs where "kernel_inv cs Kernel (trap d e s)" "screens_ok (trap d e s)"
proof -
  obtain cs where k: "kernel_inv cs m s" "screens_ok s" using assms(1) by (auto simp: working_def running_def)
  show thesis by (rule that [OF kernel_inv_trap(1) [OF k(1) assms(2)] screens_ok_trap [OF k(2,1) assms(2)]])
qed

lemma files_trap: "files_ok (trap d e s) = files_ok s"
  by (simp add: trap_def files_ok_def image_ok_def fs_placed_def stack_frame)

lemma screens_ok_final:
  assumes "working (m, s)" "frame_ok d e"
  shows "screens_ok (final (pit_interrupt_handler (trap d e s)))"
proof (rule working_trap [OF assms])
  fix cs assume k: "kernel_inv cs Kernel (trap d e s)" "screens_ok (trap d e s)"
  then show ?thesis by (intro screens_ok_tick) (simp_all add: kernel_inv_def)
qed

lemma working_screens: "kstep x y \<Longrightarrow> working x \<Longrightarrow> running y \<Longrightarrow> screens_ok (snd y)"
proof (induction rule: kstep.induct)
  case (call d e l eax s ebx ecx edx keys irqs r t)
  show ?case
    by (rule working_trap [OF call(5,1)]) (use call outcome_call(1) in \<open>fastforce simp: files_trap\<close>)
next
  case (enter_call d e l eax s ebx ecx edx keys irqs a t)
  show ?case
    by (rule working_trap [OF enter_call(5,1)]) (use enter_call outcome_call(2) in \<open>fastforce simp: files_trap\<close>)
next
  case (tick d e s t m)
  then show ?case using screens_ok_final [OF tick(3,1)] by simp
next
  case (enter_tick d e s a t m)
  then show ?case using screens_ok_final [OF enter_tick(3,1)] by simp
next
  case (key m s c)
  then show ?case by (simp add: working_def screens_ok_key)
next
  case (clock m s)
  then show ?case by (simp add: working_def screens_ok_clock)
next
  case (exception d e s f x r t)
  show ?case
    by (rule working_trap [OF exception(4,1)]) (use exception screens_ok_exception in fastforce)
next
  case (iret s)
  then show ?case by (simp add: working_def)
qed

interpretation kernel_screens: transition_system kstep working
proof
  fix x y :: "mode \<times> 'a kernel_scheme"
  assume s: "kstep x y" "working x"
  then have "running y" using kernel_run.inv_step [OF s(1)] by (simp add: working_def)
  then show "working y" using working_screens [OF s] by (simp add: working_def)
qed

lemma entry_working:
  assumes "static_data s" "disk_ok (pmem s) (fs_start s)" "length (ELF_buf0 l) = 32" "entry_paged b a l s = Enters x t"
  shows "working (User, t)"
proof -
  define u where "u = init_devices b a s"
  have r: "running (User, t)" by (rule entry_running [OF assms])
  have "screens_ok u" unfolding u_def screens_ok_def using boot_drivers(1,2) [OF assms(1)] by blast
  moreover have "launch l u = Enters x t" using assms(4) by (simp add: entry_paged_def u_def)
  ultimately have "screens_ok t" using screens_launch by (intro screens_ok_running [OF _ _ _ r]) blast+
  then show ?thesis using r by (simp add: working_def)
qed

text \<open>Loading the shells does not fault.\<close>

lemma entry_fault:
  fixes s :: "'a kernel_scheme"
  assumes "static_data s" "disk_ok (pmem s) (fs_start s)" "length (ELF_buf0 l) = 32" "entry_paged b a l s = Enters x t"
  shows "\<not> fault t"
proof -
  define u where "u = init_devices b a s"
  have b: "booted u" unfolding u_def by (rule boot_booted [OF assms(1,2)])
  then have n: "paging_wf u" "files_ok u" "\<And>k. term_no k \<Longrightarrow> sn_process_num (sched_arr u k) = k + 1"
    by (simp_all add: booted_def) (elim term_no_cases; simp)
  have "kb_inv u" unfolding u_def by (rule boot_drivers(1) [OF assms(1)])
  then have "\<not> fault u" by (simp add: kb_inv_def sched_inv_def console_inv_def)
  moreover have e: "launch l u = Enters x t" using assms(4) by (simp add: entry_paged_def u_def)
  moreover have "fault t = fault u" by (rule launch_outcome [OF n(1,2) assms(3) n(3)]) (simp_all add: e)
  ultimately show ?thesis by simp
qed

section \<open>Properties\<close>



end
