(* ===== verification/UserLib.thy ===== *)
theory UserLib
  imports Devices "HOL-Library.Stream"
begin

text \<open>
  The library the user programs are linked with: the string routines of \<open>syscalls/ece391support.c\<close> and
  the system call stubs of \<open>syscalls/ece391syscall.S\<close>. The string routines are compared with the kernel's
  own; the stubs are related to the calls of the kernel model.
\<close>

section \<open>String routines\<close>

lemma unat_pred_less: "n \<noteq> 1 \<Longrightarrow> unat (n - 2) < unat (n - 1 :: u32)"
  using unat_minus_one [of "n - 1"] by (simp add: unat_gt_0)

partial_function (option) ece391_strlen_loop :: "mem \<Rightarrow> addr \<Rightarrow> u32 \<Rightarrow> u32 option" where
  "ece391_strlen_loop m s len = (if 0 \<noteq> m s then ece391_strlen_loop m (s + 1) (len + 1) else Some len)"

definition ece391_strlen :: "mem \<Rightarrow> addr \<Rightarrow> u32 option" where
  "ece391_strlen m s = ece391_strlen_loop m s 0"

partial_function (option) ece391_strcpy :: "mem \<Rightarrow> addr \<Rightarrow> addr \<Rightarrow> mem option" where
  "ece391_strcpy m dst src =
     (let m' = m(dst := m src) in if 0 \<noteq> m src then ece391_strcpy m' (dst + 1) (src + 1) else Some m')"

partial_function (option) ece391_strcmp :: "mem \<Rightarrow> addr \<Rightarrow> addr \<Rightarrow> int option" where
  "ece391_strcmp m s1 s2 =
     (if m s1 = m s2 then if m s1 = 0 then Some 0 else ece391_strcmp m (s1 + 1) (s2 + 1)
      else Some (uint (m s1) - uint (m s2)))"

text \<open>\<open>n\<close> is unsigned and decremented before it is tested.\<close>

function ece391_strncmp_loop :: "mem \<Rightarrow> addr \<Rightarrow> addr \<Rightarrow> u32 \<Rightarrow> int" where
  "ece391_strncmp_loop m s1 s2 n =
     (if m s1 = m s2
      then if m s1 = 0 \<or> n - 1 = 0 then 0 else ece391_strncmp_loop m (s1 + 1) (s2 + 1) (n - 1)
      else uint (m s1) - uint (m s2))"
  by pat_completeness auto
termination
  by (relation "measure (\<lambda>(m, s1, s2, n). unat (n - 1))") (auto intro: unat_pred_less)

declare ece391_strncmp_loop.simps [simp del]

definition ece391_strncmp :: "mem \<Rightarrow> addr \<Rightarrow> addr \<Rightarrow> u32 \<Rightarrow> int" where
  "ece391_strncmp m s1 s2 n = (if 0 = n then 0 else ece391_strncmp_loop m s1 s2 n)"

function ece391_strrev_loop :: "mem \<Rightarrow> addr \<Rightarrow> int \<Rightarrow> int \<Rightarrow> mem" where
  "ece391_strrev_loop m s beg end =
     (if beg < end
      then let tmp = m (s + word_of_int end);
               m = m(s + word_of_int end := m (s + word_of_int beg));
               m = m(s + word_of_int beg := tmp)
           in ece391_strrev_loop m s (beg + 1) (end - 1)
      else m)"
  by pat_completeness auto
termination
  by (relation "measure (\<lambda>(m, s, beg, end). nat (end - beg))") auto

declare ece391_strrev_loop.simps [simp del]

definition ece391_strrev :: "mem \<Rightarrow> addr \<Rightarrow> mem option" where
  "ece391_strrev m s =
     (case ece391_strlen m s of
        None \<Rightarrow> None
      | Some n \<Rightarrow>
          let end = sint (n - 1)
          in if end \<le> 0 then Some m else Some (ece391_strrev_loop m s 0 end))"

partial_function (option) ece391_itoa_loop :: "mem \<Rightarrow> addr \<Rightarrow> u32 \<Rightarrow> u32 \<Rightarrow> (mem \<times> addr) option" where
  "ece391_itoa_loop m newbuf newval radix =
     (if newval > 0
      then ece391_itoa_loop (m(newbuf := lookup ! unat (newval mod radix))) (newbuf + 1) (newval div radix) radix
      else Some (m, newbuf))"

definition ece391_itoa :: "mem \<Rightarrow> u32 \<Rightarrow> addr \<Rightarrow> u32 \<Rightarrow> mem option" where
  "ece391_itoa m value buf radix =
     (if value = 0 then Some (m(buf := 48, buf + 1 := 0))
      else case ece391_itoa_loop m buf value radix of
             None \<Rightarrow> None
           | Some (m, newbuf) \<Rightarrow> ece391_strrev (m(newbuf := 0)) buf)"

section \<open>System calls\<close>

text \<open>What a system call depends on besides its arguments: how far the handler's stack and frame pointers are
  below the top of the kernel stack, the uninitialised locals of \<open>execute\<close>, the keys and clock
  interrupts that arrive while it waits. A program runs with one of these for each of its calls to come.\<close>

record trap_env =
  sp_depth :: u32
  fp_depth :: u32
  elf_locals :: locals
  keystrokes :: "u8 list"
  clock_irqs :: nat

record user = kernel +
  script :: "trap_env stream"

text \<open>\<open>DO_CALL\<close> for a call that returns to the program; \<open>None\<close> when it does not. The registers a call
  does not use are 0 here.\<close>

definition syscall :: "u32 \<Rightarrow> u32 \<Rightarrow> u32 \<Rightarrow> u32 \<Rightarrow> user \<Rightarrow> (int \<times> user) option" where
  "syscall eax ebx ecx edx s =
     (let e = shd (script s) in
      case system_call_handler eax ebx ecx edx (elf_locals e) (keystrokes e) (clock_irqs e)
             (trap (sp_depth e) (fp_depth e) s) of
        Returns r t \<Rightarrow> Some (r, t\<lparr>script := stl (script s)\<rparr>)
      | _ \<Rightarrow> None)"

definition ece391_read :: "int \<Rightarrow> addr \<Rightarrow> int \<Rightarrow> user \<Rightarrow> (int \<times> user) option" where
  "ece391_read fd buf nbytes = syscall 3 (word_of_int fd) buf (word_of_int nbytes)"

definition ece391_write :: "int \<Rightarrow> addr \<Rightarrow> int \<Rightarrow> user \<Rightarrow> (int \<times> user) option" where
  "ece391_write fd buf nbytes = syscall 4 (word_of_int fd) buf (word_of_int nbytes)"

definition ece391_open :: "addr \<Rightarrow> user \<Rightarrow> (int \<times> user) option" where
  "ece391_open filename = syscall 5 filename 0 0"

definition ece391_close :: "int \<Rightarrow> user \<Rightarrow> (int \<times> user) option" where
  "ece391_close fd = syscall 6 (word_of_int fd) 0 0"

definition ece391_getargs :: "addr \<Rightarrow> int \<Rightarrow> user \<Rightarrow> (int \<times> user) option" where
  "ece391_getargs buf nbytes = syscall 7 buf (word_of_int nbytes) 0"

definition ece391_vidmap :: "addr \<Rightarrow> user \<Rightarrow> (int \<times> user) option" where
  "ece391_vidmap screen_start = syscall 8 screen_start 0 0"

text \<open>Memory as the program sees it.\<close>

definition umapped :: "'a paging_scheme \<Rightarrow> addr \<Rightarrow> bool" where
  "umapped s a \<longleftrightarrow> translate True s a \<noteq> None"

definition umem :: "'a paging_scheme \<Rightarrow> mem" where
  "umem s a = (case translate True s a of None \<Rightarrow> 0 | Some pa \<Rightarrow> pmem s pa)"

definition ustore :: "addr \<Rightarrow> u8 \<Rightarrow> 'a paging_scheme \<Rightarrow> 'a paging_scheme option" where
  "ustore a b s = map_option (\<lambda>pa. s\<lparr>pmem := (pmem s)(pa := b)\<rparr>) (translate True s a)"

text \<open>\<open>None\<close> also when the scan for the terminator meets a page the program may not use.\<close>

definition ece391_fdputs :: "int \<Rightarrow> addr \<Rightarrow> user \<Rightarrow> user option" where
  "ece391_fdputs fd s u =
     (case ece391_strlen (umem u) s of
        None \<Rightarrow> None
      | Some n \<Rightarrow> if umapped u (s + n) then map_option snd (ece391_write fd s (sint n) u) else None)"

section \<open>The same routines as the kernel's\<close>

lemma option_eqI: "(\<And>y. a = Some y \<Longrightarrow> b = Some y) \<Longrightarrow> (\<And>y. b = Some y \<Longrightarrow> a = Some y) \<Longrightarrow> a = b"
  by (cases a; cases b) auto

lemma strlen_loop_eq: "ece391_strlen_loop m (s + len) len = strlen_loop m s len"
proof (rule option_eqI)
  have "p = s + len \<Longrightarrow> strlen_loop m s len = Some n" if "ece391_strlen_loop m p len = Some n" for p n
    using that
  proof (induction arbitrary: s rule: ece391_strlen_loop.raw_induct [rotated, consumes 1, case_names step])
    case (step f m p len n)
    then show ?case by (subst strlen_loop.simps) (auto simp: add.assoc split: if_splits)
  qed
  then show "strlen_loop m s len = Some n" if "ece391_strlen_loop m (s + len) len = Some n" for n using that by blast
  show "ece391_strlen_loop m (s + len) len = Some n" if "strlen_loop m s len = Some n" for n
    using that
  proof (induction rule: strlen_loop.raw_induct [rotated, consumes 1, case_names step])
    case (step f m s len n)
    then show ?case by (subst ece391_strlen_loop.simps) (auto simp: add.assoc split: if_splits)
  qed
qed

lemma strlen_eq: "ece391_strlen = strlen"
  using strlen_loop_eq [where len = 0] by (simp add: fun_eq_iff ece391_strlen_def strlen_def)

lemma strcpy_loop_eq: "ece391_strcpy m (dest + i) (src + i) = strcpy_loop m dest src i"
proof (rule option_eqI)
  have "d = dest + i \<Longrightarrow> s = src + i \<Longrightarrow> strcpy_loop m dest src i = Some n" if "ece391_strcpy m d s = Some n" for d s n i
    using that
  proof (induction arbitrary: i rule: ece391_strcpy.raw_induct [rotated, consumes 1, case_names step])
    case (step f m d s n)
    then show ?case by (subst strcpy_loop.simps) (auto simp: add.assoc Let_def split: if_splits)
  qed
  then show "strcpy_loop m dest src i = Some n" if "ece391_strcpy m (dest + i) (src + i) = Some n" for n using that by blast
  show "ece391_strcpy m (dest + i) (src + i) = Some n" if "strcpy_loop m dest src i = Some n" for n
    using that
  proof (induction rule: strcpy_loop.raw_induct [rotated, consumes 1, case_names step])
    case (step f m dest src i n)
    then show ?case by (subst ece391_strcpy.simps) (auto simp: add.assoc Let_def split: if_splits)
  qed
qed

lemma strcpy_eq: "ece391_strcpy = strcpy"
  using strcpy_loop_eq [where i = 0] by (simp add: fun_eq_iff strcpy_def)

lemma strrev_loop_eq: "ece391_strrev_loop m s beg end = strrev_loop m s beg end"
proof (induction m s beg "end" rule: strrev_loop.induct)
  case (1 m s beg "end")
  then show ?case by (subst ece391_strrev_loop.simps, subst strrev_loop.simps) (simp add: Let_def del: fun_upd_apply)
qed

lemma strrev_eq: "ece391_strrev = strrev"
  by (auto simp: fun_eq_iff ece391_strrev_def strrev_def strlen_eq strrev_loop_eq Let_def strrev_loop.simps split: option.split)

lemma itoa_loop_eq: "ece391_itoa_loop m b v r = itoa_loop m b v r"
proof (rule option_eqI)
  show "itoa_loop m b v r = Some n" if "ece391_itoa_loop m b v r = Some n" for n
    using that
  proof (induction rule: ece391_itoa_loop.raw_induct [rotated, consumes 1, case_names step])
    case (step f m b v r n)
    then show ?case by (subst itoa_loop.simps) (auto split: if_splits)
  qed
  show "ece391_itoa_loop m b v r = Some n" if "itoa_loop m b v r = Some n" for n
    using that
  proof (induction rule: itoa_loop.raw_induct [rotated, consumes 1, case_names step])
    case (step f m b v r n)
    then show ?case by (subst ece391_itoa_loop.simps) (auto split: if_splits)
  qed
qed

lemma itoa_eq: "ece391_itoa = itoa"
  by (intro ext) (simp only: ece391_itoa_def itoa_def itoa_loop_eq strrev_eq)

text \<open>The kernel's \<open>strncmp\<close> subtracts signed characters and the library's unsigned ones, so only the test
  for equality is the same.\<close>

lemma strncmp_loop_eq:
  assumes "i < n"
  shows "ece391_strncmp_loop m (s1 + i) (s2 + i) (n - i) = 0 \<longleftrightarrow> strncmp_loop m s1 s2 n i = 0"
  using assms
proof (induction m s1 s2 n i rule: strncmp_loop.induct)
  case (1 m s1 s2 n i)
  have d: "n - i - 1 = 0 \<longleftrightarrow> i + 1 = n" "n - i - 1 = n - (i + 1)" by (auto simp: algebra_simps)
  have l: "i + 1 < n" if "i + 1 \<noteq> n" using that 1(2) inc_le [of i n] by (simp add: order_less_le)
  show ?case
  proof (cases "m (s1 + i) = m (s2 + i) \<and> m (s1 + i) \<noteq> 0 \<and> i + 1 \<noteq> n")
    case True
    then have "ece391_strncmp_loop m (s1 + i + 1) (s2 + i + 1) (n - i - 1) = 0 \<longleftrightarrow> strncmp_loop m s1 s2 n (i + 1) = 0"
      using 1 l by (auto simp: add.assoc d(2))
    then show ?thesis
      using True 1(2) d(1) by (subst ece391_strncmp_loop.simps, subst strncmp_loop.simps) simp
  next
    case False
    have z: "strncmp_loop m s1 s2 n (i + 1) = 0" if "i + 1 = n" using that by (subst strncmp_loop.simps) simp
    show ?thesis
      using False 1(2) d(1) z by (subst ece391_strncmp_loop.simps, subst strncmp_loop.simps) (auto simp: word_uint_eq_iff)
  qed
qed

lemma strncmp_zero_eq: "ece391_strncmp m s1 s2 n = 0 \<longleftrightarrow> strncmp m s1 s2 n = 0"
  using strncmp_loop_eq [of 0 n m s1 s2]
  by (auto simp: ece391_strncmp_def strncmp_def strncmp_loop.simps [of m s1 s2 0] word_gt_0)

section \<open>A process between its calls\<close>

definition user_ok :: "int \<Rightarrow> user \<Rightarrow> bool" where
  "user_ok p s \<longleftrightarrow> 1 \<le> p \<and> p \<le> 6 \<and> runs_process s p \<and> files_ok s \<and> kb_inv s \<and> display_ok s \<and>
     (\<forall>e \<in> sset (script s). frame_ok (sp_depth e) (fp_depth e))"

lemma script_frame [simp]:
  "translate u (s\<lparr>script := x\<rparr>) = translate u s" "vmem (s\<lparr>script := x\<rparr>) = vmem s"
  "tty_of (s\<lparr>script := x\<rparr>) = tty_of s" "shown (s\<lparr>script := x\<rparr>) = shown s"
  "kb_inv (s\<lparr>script := x\<rparr>) = kb_inv s" "display_ok (s\<lparr>script := x\<rparr>) = display_ok s"
  "files_ok (s\<lparr>script := x\<rparr>) = files_ok s" "runs_process (s\<lparr>script := x\<rparr>) p = runs_process s p"
proof -
  show t: "translate u (s\<lparr>script := x\<rparr>) = translate u s" for u by (simp add: fun_eq_iff translate_def table_at_def Let_def)
  then show v: "vmem (s\<lparr>script := x\<rparr>) = vmem s" by (simp add: fun_eq_iff vmem_def kload_def)
  show "tty_of (s\<lparr>script := x\<rparr>) = tty_of s" "shown (s\<lparr>script := x\<rparr>) = shown s" "display_ok (s\<lparr>script := x\<rparr>) = display_ok s"
    by (simp_all add: fun_eq_iff tty_of_def shown_def screen_of_def vframe_def display_ok_def Let_def)
  show "kb_inv (s\<lparr>script := x\<rparr>) = kb_inv s"
    by (simp add: kb_inv_def sched_inv_def console_inv_def video_ok_def paging_wf_def paging_on_def buffers_ok_def slots_ok_def t)
  show "files_ok (s\<lparr>script := x\<rparr>) = files_ok s" by (simp add: files_ok_disk v)
  show "runs_process (s\<lparr>script := x\<rparr>) p = runs_process s p" by (simp add: runs_process_def)
qed

definition entered :: "user \<Rightarrow> user" where
  "entered s = sti (trap (sp_depth (shd (script s))) (fp_depth (shd (script s))) s)"

lemma entered_fields [simp]:
  "pcbs (entered s) = pcbs s" "fs_start (entered s) = fs_start s" "cur_sched_term (entered s) = cur_sched_term s"
  "pmem (entered s) = pmem s" "page_directory (entered s) = page_directory s" "tss_esp0 (entered s) = tss_esp0 s"
  "fault (entered s) = fault s" "script (entered s) = script s" "tty_of (entered s) = tty_of s" "shown (entered s) = shown s"
  "translate u (entered s) = translate u s" "vmem (entered s) = vmem s" "iflag (entered s)"
  by (simp_all add: entered_def trap_def sti_def fun_eq_iff tty_of_def shown_def screen_of_def vframe_def vmem_def kload_def Let_def)

lemma user_okD:
  assumes "user_ok p s"
  shows "runs_program s p" "kb_inv s" "display_ok s" "files_ok s" "paging_wf s" "1 \<le> p" "p \<le> 6"
    "page_directory s 32 = prog_frame p OR 0x087" "tss_esp0 s = kernel_stack_top p" "\<not> fault s"
proof -
  show k: "kb_inv s" "display_ok s" "files_ok s" "1 \<le> p" "p \<le> 6" "page_directory s 32 = prog_frame p OR 0x087"
    "tss_esp0 s = kernel_stack_top p" using assms by (simp_all add: user_ok_def runs_process_def)
  then show "paging_wf s" "\<not> fault s" by (simp_all add: kb_inv_def sched_inv_def console_inv_def video_ok_def)
  then show "runs_program s p" using k by (simp add: runs_program_def)
qed

lemma entered_ok:
  assumes "user_ok p s"
  shows "runs_program (entered s) p" "kb_inv (entered s)" "display_ok (entered s)" "files_ok (entered s)"
    "get_pcb_add (entered s) = pcb_addr p" "cur_pcb (entered s) = pcbs s (pcb_addr p)"
proof -
  note d = user_okD [OF assms]
  show "display_ok (entered s)" using d(3) by (simp add: entered_def trap_def sti_def display_ok_def vframe_def screen_of_def)
  have wf: "paging_wf (entered s)" using d(5) by (simp add: entered_def trap_def sti_def paging_wf_def paging_on_def)
  then show "runs_program (entered s) p" using d by (simp add: runs_program_def)
  have "\<And>k. terminals (entered s) k = terminals s k" "cur_terminal (entered s) = cur_terminal s"
    "print_terminal (entered s) = print_terminal s" "sched_arr (entered s) = sched_arr s"
    "first_page_table (entered s) = first_page_table s"
    by (simp_all add: entered_def trap_def sti_def)
  then show "kb_inv (entered s)" using d(2) wf
    by (auto simp: kb_inv_def sched_inv_def console_inv_def video_ok_def buffers_ok_def slots_ok_def)
  show "files_ok (entered s)" using d(4) by (simp add: files_ok_disk)
  have "frame_ok (sp_depth (shd (script s))) (fp_depth (shd (script s)))" using assms shd_sset by (auto simp: user_ok_def)
  then have "(tss_esp0 s - sp_depth (shd (script s))) AND (EIGHT_MB - EIGHT_KB) = pcb_addr p"
    unfolding d(9) by (intro pcb_addr_kernel_stack [OF d(6,7)]) (simp_all add: frame_ok_def)
  then show g: "get_pcb_add (entered s) = pcb_addr p" by (simp add: get_pcb_add_def entered_def trap_def sti_def)
  then show "cur_pcb (entered s) = pcbs s (pcb_addr p)" by (simp add: cur_pcb_def)
qed

lemma user_ok_return:
  assumes "user_ok p s" "kb_inv t" "display_ok t" "files_ok t" "core_of t = core_of (entered s)"
  shows "user_ok p (t\<lparr>script := stl (script s)\<rparr>)"
proof -
  have "runs_process t p" using user_okD(8,9) [OF assms(1)] core_fields(4,5) [OF assms(5)] by (simp add: runs_process_def)
  then show ?thesis using assms stl_sset [of _ "script s"] by (auto simp: user_ok_def)
qed

lemma syscalls:
  "syscall 4 ebx ecx edx s = (let (r, t) = sys_write (sint ebx) ecx (sint edx) (entered s) in Some (r, t\<lparr>script := stl (script s)\<rparr>))"
  "syscall 5 ebx ecx edx s = (let (r, t) = sys_open ebx (entered s) in Some (r, t\<lparr>script := stl (script s)\<rparr>))"
  "syscall 6 ebx ecx edx s = (let (r, t) = sys_close (sint ebx) (entered s) in Some (r, t\<lparr>script := stl (script s)\<rparr>))"
  "syscall 7 ebx ecx edx s = (let (r, t) = getargs ebx (sint ecx) (entered s) in Some (r, t\<lparr>script := stl (script s)\<rparr>))"
  "syscall 8 ebx ecx edx s = (let (r, t) = vidmap ebx (entered s) in Some (r, t\<lparr>script := stl (script s)\<rparr>))"
  "syscall 3 ebx ecx edx s =
    map_option (\<lambda>(r, t). (r, t\<lparr>script := stl (script s)\<rparr>))
      (sys_read (sint ebx) ecx (sint edx) (keystrokes (shd (script s))) (clock_irqs (shd (script s))) (entered s))"
  by (simp_all add: syscall_def system_call_handler_def entered_def [symmetric] Let_def ret_def split_beta split: option.split)

section \<open>What a program's calls do\<close>

text \<open>A step of process \<open>p\<close> that prints \<open>bs\<close> on its terminal and nothing elsewhere, and leaves the kernel's page and
  all other processes alone.\<close>

definition outputs :: "int \<Rightarrow> u8 list \<Rightarrow> user \<Rightarrow> user \<Rightarrow> bool" where
  "outputs p bs s t \<longleftrightarrow>
     tty_of t = fold tty_put bs (tty_of s) \<and> cur_sched_term t = cur_sched_term s \<and> fs_start t = fs_start s \<and>
     (\<forall>k i. term_no k \<and> k \<noteq> cur_sched_term s \<and> i < PAGE_SIZE \<longrightarrow> shown t k i = shown s k i) \<and>
     (\<forall>a. drop_bit 22 a = 1 \<longrightarrow> vmem t a = vmem s a) \<and> (\<forall>a. a \<noteq> pcb_addr p \<longrightarrow> pcbs t a = pcbs s a)"

lemma outputs_refl [simp]: "outputs p [] s s"
  by (simp add: outputs_def)

lemma outputs_trans: "outputs p xs s t \<Longrightarrow> outputs p ys t u \<Longrightarrow> outputs p (xs @ ys) s u"
  by (simp add: outputs_def)

lemma outputs_script [simp]: "outputs p bs s (t\<lparr>script := x\<rparr>) = outputs p bs s t"
  by (simp add: outputs_def)

lemma outputs_entered [simp]: "outputs p bs (entered s) t = outputs p bs s t"
  by (simp add: outputs_def)

text \<open>The screens lie outside the frames of the processes.\<close>

lemma screen_page_low:
  assumes "f \<in> screen_pages" "i < PAGE_SIZE"
  shows "drop_bit 22 (f + i) = 0"
proof -
  have "unat f \<le> 0xBB000" using assms(1) by (auto simp: screen_pages_def)
  moreover have "unat i < 4096" using assms(2) by (simp add: word_less_nat_alt)
  ultimately have u: "unat (f + i) = unat f + unat i" by (intro unat_add_lem [THEN iffD1]) simp
  have "unat (f + i) div 2 ^ 22 = 0" using u \<open>unat f \<le> 0xBB000\<close> \<open>unat i < 4096\<close> by simp
  then show ?thesis by (simp add: word_unat_eq_iff drop_bit_eq_div unat_div)
qed

lemma vframe_screen:
  assumes "kb_inv s" "display_ok s"
  shows "vframe s \<in> screen_pages"
  using assms screen_of_page [of s "cur_sched_term s"] by (simp add: kb_inv_def sched_inv_def display_ok_def)

lemma own_frame_screens:
  fixes s :: "'a kb_scheme"
  assumes "kb_inv s" "display_ok s" "1 \<le> p" "p \<le> 6" "own_frame p s q"
  shows "tty_of (s\<lparr>pmem := q\<rparr>) = tty_of s" "term_no k \<Longrightarrow> i < PAGE_SIZE \<Longrightarrow> shown (s\<lparr>pmem := q\<rparr>) k i = shown s k i"
proof -
  have nz: "(word_of_int (p + 1) :: u32) \<noteq> 0" using assms(3,4) by (elim pid_cases) simp_all
  then have q: "q (f + i) = pmem s (f + i)" if "f \<in> screen_pages" "i < PAGE_SIZE" for f i
    using assms(5) screen_page_low [OF that] by (simp add: own_frame_def)
  have b: "buffers_ok s" using assms(1) by (simp add: kb_inv_def sched_inv_def)
  have "screen_of (s\<lparr>pmem := q\<rparr>) k = screen_of s k" by (simp add: screen_of_def)
  then show "shown (s\<lparr>pmem := q\<rparr>) k i = shown s k i" if "term_no k" "i < PAGE_SIZE"
    using q [OF screen_of_page [OF b that(1)] that(2)] by (simp add: shown_def)
  have "glyph (vframe s) q i = glyph (vframe s) (pmem s) i" if "0 \<le> i" "i < 2000" for i
  proof -
    have "uint (word_of_int (2 * i) :: u32) = 2 * i"
      unfolding uint_word_of_int_eq using that by (simp add: take_bit_int_eq_self)
    then have "word_of_int (2 * i) < PAGE_SIZE" using that by (simp only: word_less_def) simp
    from q [OF vframe_screen [OF assms(1,2)] this] show ?thesis by (simp only: glyph_def)
  qed
  then show "tty_of (s\<lparr>pmem := q\<rparr>) = tty_of s" by (simp add: tty_of_def vframe_def Let_def fun_eq_iff)
qed

lemma upd_fd_screens:
  "tty_of (upd_fd fd f s) = tty_of s" "shown (upd_fd fd f s) = shown s" "core_of (upd_fd fd f s) = core_of s"
  "screens (upd_fd fd f s) = screens s" "fault (upd_fd fd f s) = fault s" "cur_sched_term (upd_fd fd f s) = cur_sched_term s"
  "a \<noteq> get_pcb_add s \<Longrightarrow> pcbs (upd_fd fd f s) a = pcbs s a"
  by (simp_all add: upd_fd_def upd_pcb_def fun_eq_iff tty_of_def shown_def screen_of_def vframe_def Let_def core_of_def screens_def)

text \<open>A call that stores into the program page and changes descriptors of its process.\<close>

lemma store_call:
  assumes "user_ok p s" "own_frame p (entered s) q" "\<And>a. drop_bit 22 a = 1 \<Longrightarrow> vmem ((entered s)\<lparr>pmem := q\<rparr>) a = vmem s a"
    and "t = (entered s)\<lparr>pmem := q\<rparr> \<or> t = upd_fd fd f ((entered s)\<lparr>pmem := q\<rparr>)"
  shows "user_ok p (t\<lparr>script := stl (script s)\<rparr>)" "outputs p [] s t" "vmem t = vmem ((entered s)\<lparr>pmem := q\<rparr>)"
proof -
  let ?u = "entered s" let ?v = "?u\<lparr>pmem := q\<rparr>"
  note e = entered_ok [OF assms(1)] and d = user_okD [OF assms(1)]
  have t: "tty_of t = tty_of ?v" "shown t = shown ?v" "vmem t = vmem ?v" "fs_start t = fs_start s"
    "cur_sched_term t = cur_sched_term s" "core_of t = core_of ?v" "screens t = screens ?v" "fault t = fault s"
    "\<And>a. a \<noteq> pcb_addr p \<Longrightarrow> pcbs t a = pcbs s a"
    using assms(4) e(5) by (elim disjE; simp add: upd_fd_screens)+
  show "vmem t = vmem ?v" by (rule t)
  note sc = own_frame_screens [OF e(2,3) d(6,7) assms(2)]
  show "outputs p [] s t" using sc assms(3) t by (simp add: outputs_def)
  have a: "apart_from_screens ?u t"
    using t(6-8) by (simp add: apart_from_screens_def) (simp add: core_of_def screens_def)
  have "screens_ok t" by (rule screens_ok_apart [OF _ a]) (simp add: screens_ok_def e)
  then have k: "kb_inv t" "display_ok t" using t(8) d(10) by (simp_all add: screens_ok_def)
  have "files_ok t" by (rule files_ok_same [OF d(4) t(4)]) (simp add: local_view_def t(3) assms(3))
  then show "user_ok p (t\<lparr>script := stl (script s)\<rparr>)"
    using user_ok_return [OF assms(1) k] a by (simp add: apart_from_screens_def)
qed

text \<open>A call that only returns.\<close>

definition returned :: "user \<Rightarrow> user" where
  "returned s = (entered s)\<lparr>script := stl (script s)\<rparr>"

lemma returned_ok:
  assumes "user_ok p s"
  shows "user_ok p (returned s)" "outputs p [] s (returned s)" "pcbs (returned s) = pcbs s" "vmem (returned s) = vmem s"
proof -
  have id: "entered s = (entered s)\<lparr>pmem := pmem s\<rparr>" by (simp add: entered_def trap_def sti_def)
  have f: "own_frame p (entered s) (pmem s)" by (simp add: own_frame_def)
  note c = store_call [OF assms f _ disjI1 [OF id], folded id]
  show "user_ok p (returned s)" "outputs p [] s (returned s)" "pcbs (returned s) = pcbs s" "vmem (returned s) = vmem s"
    using c(1,2) by (simp_all add: returned_def)
qed

lemma sint_small [simp]: "- (2 ^ 31) \<le> i \<Longrightarrow> i < 2 ^ 31 \<Longrightarrow> sint (word_of_int i :: u32) = i"
  unfolding sint_sbintrunc' by (rule signed_take_bit_int_eq_self) simp_all

lemma sti_cli_entered [simp]: "sti (cli (entered s)) = entered s"
  by (simp add: entered_def sti_def cli_def)

lemma sint_small_nat [simp]: "int n < 2 ^ 31 \<Longrightarrow> sint (of_nat n :: u32) = int n"
  using sint_small [of "int n"] by simp

lemma cur_pcb_cli [simp]: "cur_pcb (cli s) = cur_pcb s"
  by (rule kept_kernel(7)) simp

abbreviation (input) own_fd :: "int \<Rightarrow> user \<Rightarrow> int \<Rightarrow> file_desc" where
  "own_fd p s fd \<equiv> fdt (pcbs s (pcb_addr p)) fd"

lemma kernel_page_far:
  assumes "drop_bit 22 (a :: addr) = 1" "f \<in> screen_pages"
  shows "4000 \<le> a - f"
proof -
  have "unat (drop_bit 22 a) = 1" by (simp add: assms(1))
  then have "unat a div 2 ^ 22 = 1" by (simp add: drop_bit_eq_div unat_div)
  then have "0x400000 \<le> unat a" by auto
  moreover have "unat f \<le> 0xBB000" using assms(2) by (auto simp: screen_pages_def)
  ultimately have "unat (a - f) = unat a - unat f" by (subst unat_sub) (simp_all add: word_le_nat_alt)
  then show ?thesis using \<open>0x400000 \<le> unat a\<close> \<open>unat f \<le> 0xBB000\<close> by (simp add: word_le_nat_alt)
qed

lemma program_bytes:
  assumes "runs_program s p" "user_range buf n"
  shows "map (\<lambda>i. pmem s (prog_addr p (buf + word_of_int i))) [0..int n - 1] = bytes_at (vmem s) buf n"
proof (rule nth_equalityI)
  fix i assume "i < length (map (\<lambda>i. pmem s (prog_addr p (buf + word_of_int i))) [0..int n - 1])"
  then have i: "i < n" by simp
  then have "drop_bit 22 (buf + of_nat i) = 32" using assms(2) by (simp add: user_range_def)
  then have "vmem s (buf + of_nat i) = pmem s (prog_addr p (buf + of_nat i))"
    using main_translate(2) [OF assms(1)] by (simp add: vmem_def kload_def prog_addr_def)
  then show "map (\<lambda>i. pmem s (prog_addr p (buf + word_of_int i))) [0..int n - 1] ! i = bytes_at (vmem s) buf n ! i"
    using i by (simp add: bytes_at_def)
qed simp

lemma write_call:
  assumes "user_ok p s" "0 \<le> fd" "fd \<le> 7" "fd_flags (own_fd p s fd) \<noteq> - 1" "jump_ptr (own_fd p s fd) = stdout_table"
    and "user_range buf n" "buf \<noteq> 0"
  obtains t where "ece391_write fd buf (int n) s = Some (int n, t)" "user_ok p t"
    "outputs p (bytes_at (vmem s) buf n) s t" "pcbs t = pcbs s" "\<And>a. a \<in> main_region \<Longrightarrow> vmem t a = vmem s a"
proof -
  let ?u = "entered s"
  note e = entered_ok [OF assms(1)] and d = user_okD [OF assms(1)]
  have n: "int n < 2 ^ 31" using user_range_small [OF assms(6)] by simp
  define t where "t = snd (terminal_write buf (int n) ?u)"
  have ip: "in_program buf (int n)"
    unfolding in_program_def
  proof (intro allI impI)
    fix i assume i: "0 \<le> i \<and> i < int n"
    then have "drop_bit 22 (buf + of_nat (nat i)) = 32" using assms(6) unfolding user_range_def by (elim conjE allE [of _ "nat i"]) linarith
    then show "drop_bit 22 (buf + word_of_int i) = 32" using i by simp
  qed
  have u: "page_directory ?u 32 = prog_frame p OR 0x087" using d by simp
  note w = terminal_write_step [OF e(2,3) u d(6,7) assms(7) _ ip, folded t_def]
  have c: "ece391_write fd buf (int n) s = Some (int n, t\<lparr>script := stl (script s)\<rparr>)"
    using assms(2-5) n w(1) by (simp add: ece391_write_def syscalls sys_write_def Let_def e t_def split_beta)
  have k: "kept t = kept ?u" by (simp add: t_def)
  have vp: "vframe ?u \<in> screen_pages" by (rule vframe_screen [OF e(2,3)])
  have v: "vmem t a = vmem s a" if mr: "a \<in> main_region" for a
  proof -
    obtain pa where pa: "translate False ?u a = Some pa" "4000 \<le> pa - vframe ?u"
      using mr main_translate [OF e(1), of a] kernel_page_far [OF _ vp, of a] prog_addr_far [OF d(6,7) vp, of a]
      by (auto simp: main_region_def prog_addr_def)
    then have "kload a t = Some (pmem s pa)" using w(7) by simp
    moreover have "kload a s = Some (pmem s pa)" using pa(1) by (simp add: kload_def)
    ultimately show ?thesis by (simp add: vmem_def)
  qed
  then have v1: "vmem t a = vmem s a" if "drop_bit 22 a = 1" for a using that by (simp add: main_region_def)
  have "files_ok t" by (rule files_ok_same [OF d(4)]) (use v1 kept_kernel(4) [OF k] in \<open>simp_all add: local_view_def\<close>)
  then have ok: "user_ok p (t\<lparr>script := stl (script s)\<rparr>)"
    by (intro user_ok_return [OF assms(1)] w) (simp_all add: kept_kernel(8) [OF k])
  have "outputs p (bytes_at (vmem s) buf n) s t"
    using w(2,6) v1 kept_kernel(3,4) [OF k] core_fields(2) [OF kept_kernel(8) [OF k]] program_bytes [OF e(1) assms(6)]
    by (simp add: outputs_def)
  then show thesis using v kept_kernel(3) [OF k] by (intro that [OF c ok]) simp_all
qed

section \<open>Memory of the program\<close>

lemma umem_user:
  assumes "user_ok p s" "drop_bit 22 a = 32"
  shows "translate True s a = translate False s a" "umem s a = vmem s a" "umapped s a"
proof -
  note d = user_okD [OF assms(1)]
  have t: "translate u s a = Some (page_join 22 (prog_frame p) a)" for u
    by (rule translate_user_page [OF d(5) d(8) assms(2)])
  show "translate True s a = translate False s a" "umem s a = vmem s a" "umapped s a"
    by (simp_all add: umem_def vmem_def kload_def umapped_def t)
qed

lemma own_store:
  assumes "user_ok p s" "own_frame p s q" "\<And>a. drop_bit 22 a = 1 \<Longrightarrow> vmem (s\<lparr>pmem := q\<rparr>) a = vmem s a"
  shows "user_ok p (s\<lparr>pmem := q\<rparr>)" "outputs p [] s (s\<lparr>pmem := q\<rparr>)"
proof -
  note d = user_okD [OF assms(1)]
  let ?t = "s\<lparr>pmem := q\<rparr>"
  show "outputs p [] s ?t" using own_frame_screens [OF d(2,3,6,7) assms(2)] assms(3) by (simp add: outputs_def)
  have "apart_from_screens s ?t" by (simp add: apart_from_screens_def core_of_def screens_def)
  then have "screens_ok ?t" by (rule screens_ok_apart [rotated]) (simp add: screens_ok_def d)
  then have k: "kb_inv ?t" "display_ok ?t" using d(10) by (simp_all add: screens_ok_def)
  have "files_ok ?t" by (rule files_ok_same [OF d(4)]) (simp_all add: local_view_def assms(3))
  then show "user_ok p ?t" using assms(1) k by (simp add: user_ok_def runs_process_def)
qed

lemma ustore_call:
  assumes "user_ok p s" "drop_bit 22 a = 32"
  obtains t where "ustore a b s = Some t" "user_ok p t" "outputs p [] s t" "pcbs t = pcbs s"
    "\<And>x. x \<in> main_region \<Longrightarrow> vmem t x = ((vmem s)(a := b)) x"
proof -
  have mr: "a \<in> main_region" using assms(2) by (simp add: main_region_def)
  have rp: "runs_program s p" by (rule user_okD(1) [OF assms(1)])
  obtain q where q: "kstore a b s = s\<lparr>pmem := q\<rparr>" "\<And>x. x \<in> main_region \<Longrightarrow> vmem (s\<lparr>pmem := q\<rparr>) x = ((vmem s)(a := b)) x"
    by (rule kstore_view [OF main_region_plain [OF rp] mr]) blast
  have e: "store_range a 1 (\<lambda>_. b) s = s\<lparr>pmem := q\<rparr>" using q(1) by (simp add: store_range_def)
  have "own_frame p s (pmem (store_range a 1 (\<lambda>_. b) s))"
    using store_range_frame [OF rp, of 1 a "\<lambda>_. b"] assms(2) by simp
  then have f: "own_frame p s q" unfolding e by simp
  have "vmem (s\<lparr>pmem := q\<rparr>) x = vmem s x" if "drop_bit 22 x = 1" for x
    using q(2) [of x] that assms(2) by (auto simp: main_region_def)
  note o = own_store [OF assms(1) f this]
  have "ustore a b s = Some (s\<lparr>pmem := q\<rparr>)"
    using q(1) umem_user(1,3) [OF assms] by (auto simp: ustore_def kstore_def umapped_def split: option.splits)
  from that [OF this o] show thesis using q(2) by simp
qed

lemma fdputs_call:
  assumes "user_ok p s" "0 \<le> fd" "fd \<le> 7" "fd_flags (own_fd p s fd) \<noteq> - 1" "jump_ptr (own_fd p s fd) = stdout_table"
    and "is_cstr (vmem s) a xs" "user_range a (Suc (length xs))"
  obtains t where "ece391_fdputs fd a s = Some t" "user_ok p t" "outputs p xs s t" "pcbs t = pcbs s"
    "\<And>x. x \<in> main_region \<Longrightarrow> vmem t x = vmem s x"
proof -
  have r: "drop_bit 22 (a + of_nat i) = 32" if "i \<le> length xs" for i
    using assms(7) that by (simp add: user_range_def)
  have u: "umem s (a + of_nat i) = vmem s (a + of_nat i)" if "i \<le> length xs" for i
    by (rule umem_user(2) [OF assms(1) r [OF that]])
  then have "bytes_at (umem s) a (length xs) = bytes_at (vmem s) a (length xs)" by (intro bytes_at_same) simp
  then have "is_cstr (umem s) a xs" using assms(6) u [of "length xs"] by (simp add: is_cstr_def)
  then have l: "ece391_strlen (umem s) a = Some (of_nat (length xs))" unfolding strlen_eq by (rule strlen_cstr)
  have sm: "int (length xs) < 2 ^ 31" using user_range_small [OF assms(7)] by simp
  have nz: "a \<noteq> 0" using r [of 0] by auto
  have ur: "user_range a (length xs)" by (rule user_range_mono [OF assms(7)]) simp
  have b: "bytes_at (vmem s) a (length xs) = xs" using assms(6) by (simp add: is_cstr_def)
  obtain t where t: "ece391_write fd a (int (length xs)) s = Some (int (length xs), t)" "user_ok p t"
    "outputs p xs s t" "pcbs t = pcbs s" "\<And>x. x \<in> main_region \<Longrightarrow> vmem t x = vmem s x"
    using write_call [OF assms(1-5) ur nz] unfolding b by metis
  have "ece391_fdputs fd a s = Some t"
    using t(1) sm umem_user(3) [OF assms(1) r [of "length xs"]] by (simp add: ece391_fdputs_def l)
  then show thesis using t by (intro that)
qed

section \<open>Files\<close>

lemma outputs_files:
  assumes "user_ok p s" "outputs p bs s t"
  shows "num_dentries (vmem t) (fs_start t) = num_dentries (vmem s) (fs_start s)"
    "num_inodes (vmem t) (fs_start t) = num_inodes (vmem s) (fs_start s)"
    "inode < num_inodes (vmem s) (fs_start s) \<Longrightarrow>
       file_bytes (vmem t) (fs_start t) inode = file_bytes (vmem s) (fs_start s) inode"
    "j < num_dentries (vmem s) (fs_start s) \<Longrightarrow>
       dentry_name (vmem t) (dentry_addr (fs_start t) j) = dentry_name (vmem s) (dentry_addr (fs_start s) j) \<and>
       file_type (vmem t) (dentry_addr (fs_start t) j) = file_type (vmem s) (dentry_addr (fs_start s) j) \<and>
       inode_num (vmem t) (dentry_addr (fs_start t) j) = inode_num (vmem s) (dentry_addr (fs_start s) j)"
    "lookup_name (vmem t) (fs_start t) name = lookup_name (vmem s) (fs_start s) name"
proof -
  have f: "files_ok s" by (rule user_okD(4) [OF assms(1)])
  then have i: "image_ok s" by (simp add: files_ok_def)
  have v: "local_view s (vmem t)" and e: "fs_start t = fs_start s" using assms(2) by (simp_all add: outputs_def local_view_def)
  show "num_dentries (vmem t) (fs_start t) = num_dentries (vmem s) (fs_start s)"
    "num_inodes (vmem t) (fs_start t) = num_inodes (vmem s) (fs_start s)" unfolding e by (rule local_view_image [OF i v])+
  show "file_bytes (vmem t) (fs_start t) inode = file_bytes (vmem s) (fs_start s) inode" if "inode < num_inodes (vmem s) (fs_start s)"
    using local_view_file(2,3) [OF f v that] by (simp add: file_bytes_def e)
  show "dentry_name (vmem t) (dentry_addr (fs_start t) j) = dentry_name (vmem s) (dentry_addr (fs_start s) j) \<and>
       file_type (vmem t) (dentry_addr (fs_start t) j) = file_type (vmem s) (dentry_addr (fs_start s) j) \<and>
       inode_num (vmem t) (dentry_addr (fs_start t) j) = inode_num (vmem s) (dentry_addr (fs_start s) j)"
    if "j < num_dentries (vmem s) (fs_start s)"
    using dentry_local [OF i v that] by (simp add: e)
  show "lookup_name (vmem t) (fs_start t) name = lookup_name (vmem s) (fs_start s) name"
    using lookup_local(1) [OF i v] by (simp add: e)
qed

lemma read_call:
  assumes "user_ok p s" "0 \<le> fd" "fd \<le> 7" "fd_flags (own_fd p s fd) \<noteq> - 1" "jump_ptr (own_fd p s fd) = file_table"
    and "fd_inode (own_fd p s fd) = inode" "inode < num_inodes (vmem s) (fs_start s)"
    and "k = unat (file_position (own_fd p s fd))" "k \<le> length (file_bytes (vmem s) (fs_start s) inode)" "len < 2 ^ 31"
    and "n = min len (length (file_bytes (vmem s) (fs_start s) inode) - k)" "user_range buf n"
  obtains t pos where "ece391_read fd buf (int len) s = Some (int n, t)" "user_ok p t" "outputs p [] s t"
    "bytes_at (vmem t) buf n = take n (drop k (file_bytes (vmem s) (fs_start s) inode))" "unat pos = k + n"
    "pcbs t = (pcbs s)(pcb_addr p := (pcbs s (pcb_addr p))\<lparr>fdt := (fdt (pcbs s (pcb_addr p)))(fd := (own_fd p s fd)\<lparr>file_position := pos\<rparr>)\<rparr>)"
    "\<And>x. x \<in> main_region \<Longrightarrow> n \<le> unat (x - buf) \<Longrightarrow> vmem t x = vmem s x"
proof -
  let ?u = "entered s" let ?F = "file_bytes (vmem s) (fs_start s) inode"
  note e = entered_ok [OF assms(1)] and d = user_okD [OF assms(1)]
  have fo: "file_ok (vmem s) (fs_start s) inode" using d(4) assms(7) by (simp add: files_ok_def)
  have sz: "unat (file_size (vmem s) (fs_start s) inode) \<le> 1023 * 4096" using fo by (simp add: file_ok_def)
  have lf: "length ?F = unat (file_size (vmem s) (fs_start s) inode)" by (simp add: file_bytes_def)
  have rf: "reads_file ?u p fd inode"
    using e(1) fo assms(6) d(4) by (simp add: reads_file_def e(6) files_ok_def image_ok_def fs_placed_def)
  have ps: "int (unat (file_position (fdt (cur_pcb ?u) fd))) + int len < 2 ^ 32"
    using assms(8-10) sz lf by (simp only: e(6) entered_fields assms(8) [symmetric]) simp
  have n: "n = min (nat (int len)) (unat (file_size (vmem ?u) (fs_start ?u) inode) - unat (file_position (fdt (cur_pcb ?u) fd)))"
    using assms(8,11) lf by (simp add: e(6))
  define t where "t = snd (file_read fd buf (int len) ?u)"
  note r = file_read_step [OF rf _ ps, folded n, OF _ assms(12), folded t_def]
  obtain q where q: "t = upd_fd fd (\<lambda>d. d\<lparr>file_position := file_position d + of_nat n\<rparr>) (?u\<lparr>pmem := q\<rparr>)" "own_frame p ?u q"
    using r(8) by auto
  have c: "ece391_read fd buf (int len) s = Some (int n, t\<lparr>script := stl (script s)\<rparr>)"
    using assms(2-5,10) r(1) by (simp add: ece391_read_def syscalls sys_read_def Let_def e t_def split_beta prod_eq_iff)
  have vt: "vmem t = vmem (?u\<lparr>pmem := q\<rparr>)" by (simp add: q)
  have del: "vmem t x = (if unat (x - buf) < n then file_byte (vmem s) (fs_start s) inode (k + unat (x - buf)) else vmem s x)"
    if "x \<in> main_region" for x
    using r(3) that assms(8) by (simp add: delivered_def e(6))
  have v1: "vmem (?u\<lparr>pmem := q\<rparr>) a = vmem s a" if "drop_bit 22 a = 1" for a
    using del [of a] that user_range_at [OF assms(12), of a] by (auto simp: main_region_def vt)
  note st = store_call [OF assms(1) q(2) v1 disjI2 [OF q(1)]]
  have b: "bytes_at (vmem t) buf n = take n (drop k ?F)"
  proof (rule nth_equalityI)
    show "length (bytes_at (vmem t) buf n) = length (take n (drop k ?F))" using assms(11) by simp
    fix i assume "i < length (bytes_at (vmem t) buf n)"
    then have i: "i < n" by simp
    have "buf + of_nat i \<in> main_region" using assms(12) i by (simp add: user_range_def main_region_def)
    moreover have "unat (of_nat i :: u32) = i"
      using i user_range_small [OF assms(12)] by (intro unat_of_nat32) simp
    moreover have "k + i < length ?F" using i assms(11) by linarith
    ultimately show "bytes_at (vmem t) buf n ! i = take n (drop k ?F) ! i"
      using i del by (simp add: file_bytes_def)
  qed
  have pc: "pcbs t = (pcbs s)(pcb_addr p := (pcbs s (pcb_addr p))\<lparr>fdt := (fdt (pcbs s (pcb_addr p)))
      (fd := (own_fd p s fd)\<lparr>file_position := file_position (own_fd p s fd) + of_nat n\<rparr>)\<rparr>)"
    using e(5,6) by (simp add: q upd_fd_def upd_pcb_def)
  have "unat (file_position (own_fd p s fd) + of_nat n) = k + n"
    using r(4) assms(8) e(5,6) by (simp add: q)
  then show thesis
    using st(1,2) b pc del by (intro that [OF c]) simp_all
qed

text \<open>The directory.\<close>

lemma dir_call:
  assumes "user_ok p s" "0 \<le> fd" "fd \<le> 7" "fd_flags (own_fd p s fd) \<noteq> - 1" "jump_ptr (own_fd p s fd) = dir_table"
    and "file_position (own_fd p s fd) = k" "user_range buf 32"
  shows "\<not> k < num_dentries (vmem s) (fs_start s) \<Longrightarrow> k \<noteq> - 1 \<Longrightarrow>
      ece391_read fd buf nb s = Some (0, (entered s)\<lparr>script := stl (script s)\<rparr>)"
    and "k < num_dentries (vmem s) (fs_start s) \<Longrightarrow>
      \<exists>t. ece391_read fd buf nb s = Some (32, t) \<and> user_ok p t \<and> outputs p [] s t \<and>
        bytes_at (vmem t) buf 32 = dentry_name (vmem s) (dentry_addr (fs_start s) k) @
          replicate (32 - length (dentry_name (vmem s) (dentry_addr (fs_start s) k))) 0 \<and>
        pcbs t = (pcbs s)(pcb_addr p := (pcbs s (pcb_addr p))\<lparr>fdt := (fdt (pcbs s (pcb_addr p)))
          (fd := (own_fd p s fd)\<lparr>file_position := k + 1\<rparr>)\<rparr>) \<and>
        (\<forall>x \<in> main_region. 32 \<le> unat (x - buf) \<longrightarrow> vmem t x = vmem s x)"
proof -
  let ?u = "entered s"
  note e = entered_ok [OF assms(1)] and d = user_okD [OF assms(1)]
  have rd: "ece391_read fd buf nb s = (let (r, t) = dir_read fd buf (sint (word_of_int nb :: u32)) ?u in Some (r, t\<lparr>script := stl (script s)\<rparr>))"
    using assms(2-5) by (simp add: ece391_read_def syscalls sys_read_def Let_def e split_beta)
  have ps: "file_position (fdt (cur_pcb ?u) fd) = k" using assms(6) by (simp add: e)
  show "ece391_read fd buf nb s = Some (0, ?u\<lparr>script := stl (script s)\<rparr>)"
    if "\<not> k < num_dentries (vmem s) (fs_start s)" "k \<noteq> - 1"
    using that by (simp add: rd dir_read_def ps not_less)
  assume lt: "k < num_dentries (vmem s) (fs_start s)"
  define t where "t = snd (dir_read fd buf (sint (word_of_int nb :: u32)) ?u)"
  have im: "image_ok ?u" using e(4) by (simp add: files_ok_def)
  have lt': "k < num_dentries (vmem ?u) (fs_start ?u)" using lt by simp
  note r = dir_read_step [OF e(1) im assms(7) ps lt', where n = "sint (word_of_int nb :: u32)", folded t_def]
  obtain q where q: "t = upd_fd fd (\<lambda>d. d\<lparr>file_position := file_position d + 1\<rparr>) (?u\<lparr>pmem := q\<rparr>)" "own_frame p ?u q"
    using r(9) by auto
  have vt: "vmem t = vmem (?u\<lparr>pmem := q\<rparr>)" by (simp add: q)
  have "vmem (?u\<lparr>pmem := q\<rparr>) a = vmem s a" if "drop_bit 22 a = 1" for a using r(6) [OF that] by (simp add: vt)
  note st = store_call [OF assms(1) q(2) this disjI2 [OF q(1)]]
  have "pcbs t = (pcbs s)(pcb_addr p := (pcbs s (pcb_addr p))\<lparr>fdt := (fdt (pcbs s (pcb_addr p)))
      (fd := (own_fd p s fd)\<lparr>file_position := k + 1\<rparr>)\<rparr>)"
    using e(5,6) assms(6) by (simp add: q upd_fd_def upd_pcb_def)
  moreover have "ece391_read fd buf nb s = Some (32, t\<lparr>script := stl (script s)\<rparr>)"
    using r(1) by (simp add: rd t_def split_beta Let_def)
  ultimately show "\<exists>t. ece391_read fd buf nb s = Some (32, t) \<and> user_ok p t \<and> outputs p [] s t \<and>
        bytes_at (vmem t) buf 32 = dentry_name (vmem s) (dentry_addr (fs_start s) k) @
          replicate (32 - length (dentry_name (vmem s) (dentry_addr (fs_start s) k))) 0 \<and>
        pcbs t = (pcbs s)(pcb_addr p := (pcbs s (pcb_addr p))\<lparr>fdt := (fdt (pcbs s (pcb_addr p)))
          (fd := (own_fd p s fd)\<lparr>file_position := k + 1\<rparr>)\<rparr>) \<and>
        (\<forall>x \<in> main_region. 32 \<le> unat (x - buf) \<longrightarrow> vmem t x = vmem s x)"
    using st(1,2) r(7,8) by (intro exI [of _ "t\<lparr>script := stl (script s)\<rparr>"]) simp
qed

text \<open>Opening a regular file or the directory.\<close>

lemma open_call:
  assumes "user_ok p s" "names_file s filename name" "\<not> terminal_name name" "plain_name name"
    and "lookup_name (vmem s) (fs_start s) name = Some j" "d = dentry_addr (fs_start s) (of_nat j)"
    and "file_type (vmem s) d = 1 \<or> file_type (vmem s) d = 2" "free_fd (pcbs s (pcb_addr p)) = Some i"
  obtains t where "ece391_open filename s = Some (i, t)" "user_ok p t" "outputs p [] s t" "vmem t = vmem s"
    "pcbs t = (pcbs s)(pcb_addr p := (pcbs s (pcb_addr p))\<lparr>fdt := (fdt (pcbs s (pcb_addr p)))
       (i := fresh_fd (file_type (vmem s) d) (inode_num (vmem s) d))\<rparr>)"
proof -
  let ?u = "entered s"
  note e = entered_ok [OF assms(1)]
  have "names_file ?u filename name" using assms(2) by (simp add: names_file_def)
  moreover have "image_ok ?u" using e(4) by (simp add: files_ok_def)
  ultimately have o: "sys_open filename ?u = (i, upd_fd i (\<lambda>_. fresh_fd (file_type (vmem s) d) (inode_num (vmem s) d)) ?u)"
    using sys_open_lookup(1) [OF e(1) _ assms(3,4)] assms(5-8) by (simp add: e(6) open_fd_plain Let_def)
  let ?t = "upd_fd i (\<lambda>_. fresh_fd (file_type (vmem s) d) (inode_num (vmem s) d)) ?u"
  have id: "?u\<lparr>pmem := pmem s\<rparr> = ?u" by (simp add: entered_def trap_def sti_def)
  then have t: "?t = upd_fd i (\<lambda>_. fresh_fd (file_type (vmem s) d) (inode_num (vmem s) d)) (?u\<lparr>pmem := pmem s\<rparr>)" by (simp only:)
  have fr: "own_frame p ?u (pmem s)" by (simp add: own_frame_def)
  note st = store_call [OF assms(1) fr _ disjI2 [OF t]]
  show thesis
  proof (rule that)
    show "ece391_open filename s = Some (i, ?t\<lparr>script := stl (script s)\<rparr>)" by (simp add: ece391_open_def syscalls o)
    show "user_ok p (?t\<lparr>script := stl (script s)\<rparr>)" "outputs p [] s (?t\<lparr>script := stl (script s)\<rparr>)" using st by (simp_all add: id)
    show "vmem (?t\<lparr>script := stl (script s)\<rparr>) = vmem s" by simp
    show "pcbs (?t\<lparr>script := stl (script s)\<rparr>) = (pcbs s)(pcb_addr p := (pcbs s (pcb_addr p))\<lparr>fdt := (fdt (pcbs s (pcb_addr p)))
       (i := fresh_fd (file_type (vmem s) d) (inode_num (vmem s) d))\<rparr>)"
      using e(5,6) by (simp add: upd_fd_def upd_pcb_def)
  qed
qed

lemma getargs_call:
  assumes "user_ok p s" "args (pcbs s (pcb_addr p)) = padded as" "0 \<notin> set as" "as \<noteq> []" "length (take 127 as) < n" "user_range buf n"
  obtains t where "ece391_getargs buf (int n) s = Some (0, t)" "user_ok p t" "outputs p [] s t" "pcbs t = pcbs s"
    "bytes_at (vmem t) buf n = take 127 as @ replicate (n - length (take 127 as)) 0"
    "\<And>x. x \<in> main_region \<Longrightarrow> n \<le> unat (x - buf) \<Longrightarrow> vmem t x = vmem s x"
proof -
  let ?u = "entered s"
  note e = entered_ok [OF assms(1)]
  have n: "int n < 2 ^ 31" using user_range_small [OF assms(6)] by simp
  have "args (cur_pcb ?u) = padded as" using assms(2) by (simp add: e)
  note g = getargs_copies [OF e(1) this assms(3,4,6,5)]
  define t where "t = snd (getargs buf (int n) ?u)"
  obtain q where q: "t = ?u\<lparr>pmem := q\<rparr>" "own_frame p ?u q"
    "\<And>x. x \<in> main_region \<Longrightarrow> n \<le> unat (x - buf) \<Longrightarrow> vmem (?u\<lparr>pmem := q\<rparr>) x = vmem s x"
    using g(3) by (auto simp: t_def)
  have "vmem (?u\<lparr>pmem := q\<rparr>) a = vmem s a" if "drop_bit 22 a = 1" for a
    using q(3) [of a] that user_range_at [OF assms(6), of a] by (fastforce simp: main_region_def not_less [symmetric])
  note st = store_call [OF assms(1) q(2) this disjI1 [OF q(1)]]
  have c: "ece391_getargs buf (int n) s = Some (0, t\<lparr>script := stl (script s)\<rparr>)"
    using g(1) n by (simp add: ece391_getargs_def syscalls t_def split_beta Let_def)
  show thesis
    using st(1,2) g(2) q by (intro that [OF c]) (simp_all add: t_def [symmetric])
qed

section \<open>Properties\<close>

text \<open>C31: The programs' library agrees with the kernel's. The two implementations of the string length, the string
  copy, the reversal and the conversion of numbers, written separately, are the same functions, on all memories,
  including the inputs on which they do not end; the two bounded comparisons agree on equality. Their signs may
  differ, since the kernel compares signed characters and the library unsigned ones.\<close>

theorem support_matches_kernel:
  "ece391_strlen = strlen \<and> ece391_strcpy = strcpy \<and> ece391_strrev = strrev \<and> ece391_itoa = itoa \<and>
   (ece391_strncmp m s1 s2 n = 0 \<longleftrightarrow> strncmp m s1 s2 n = 0)"
  using strlen_eq strcpy_eq strrev_eq itoa_eq strncmp_zero_eq by blast

lemma strncmp_signs_differ: "0 < ece391_strncmp (\<lambda>a. if a = 0 then 0x80 else 1) 0 1 1" "strncmp (\<lambda>a. if a = 0 then 0x80 else 1) 0 1 1 < 0"
  by (simp_all add: ece391_strncmp_def ece391_strncmp_loop.simps strncmp_def strncmp_loop.simps)

end
