(* ===== verification/Utilities.thy ===== *)
theory Utilities
  imports UserLib "HOL-Library.Monad_Syntax"
begin

text \<open>
  The user programs \<open>cat\<close> and \<open>ls\<close> of \<open>syscalls\<close>, as they run on the kernel model. A
  program is a function from the state in which \<open>main\<close> is called to its result and the state in which it
  returns. The addresses of its local arrays and string constants are parameters; \<open>None\<close> is a run that does
  not return.
\<close>

section \<open>The programs\<close>

subsection \<open>cat\<close>

partial_function (option) cat_loop :: "(u8 list \<Rightarrow> addr) \<Rightarrow> int \<Rightarrow> addr \<Rightarrow> user \<Rightarrow> (int \<times> user) option" where
  "cat_loop lit fd buf s =
     do {
       (cnt, s) \<leftarrow> ece391_read fd buf 1024 s;
       if cnt = 0 then Some (0, s)
       else if cnt = - 1 then do {
         s \<leftarrow> ece391_fdputs 1 (lit (ascii ''file read failed\<newline>'')) s;
         Some (3, s)
       }
       else do {
         (r, s) \<leftarrow> ece391_write 1 buf cnt s;
         if r = - 1 then Some (3, s) else cat_loop lit fd buf s
       }
     }"

definition cat_main :: "(u8 list \<Rightarrow> addr) \<Rightarrow> addr \<Rightarrow> user \<Rightarrow> (int \<times> user) option" where
  "cat_main lit buf s =
     do {
       (r, s) \<leftarrow> ece391_getargs buf 1024 s;
       if r \<noteq> 0 then do {
         s \<leftarrow> ece391_fdputs 1 (lit (ascii ''could not read arguments\<newline>'')) s;
         Some (3, s)
       }
       else do {
         (fd, s) \<leftarrow> ece391_open buf s;
         if fd = - 1 then do {
           s \<leftarrow> ece391_fdputs 1 (lit (ascii ''file not found\<newline>'')) s;
           Some (2, s)
         }
         else cat_loop lit fd buf s
       }
     }"

subsection \<open>ls\<close>

partial_function (option) ls_loop :: "(u8 list \<Rightarrow> addr) \<Rightarrow> int \<Rightarrow> addr \<Rightarrow> user \<Rightarrow> (int \<times> user) option" where
  "ls_loop lit fd buf s =
     do {
       (cnt, s) \<leftarrow> ece391_read fd buf 32 s;
       if cnt = 0 then Some (0, s)
       else if cnt = - 1 then do {
         s \<leftarrow> ece391_fdputs 1 (lit (ascii ''directory entry read failed\<newline>'')) s;
         Some (3, s)
       }
       else do {
         s \<leftarrow> ustore (buf + word_of_int cnt) 10 s;
         (r, s) \<leftarrow> ece391_write 1 buf (cnt + 1) s;
         if r = - 1 then Some (3, s) else ls_loop lit fd buf s
       }
     }"

definition ls_main :: "(u8 list \<Rightarrow> addr) \<Rightarrow> addr \<Rightarrow> user \<Rightarrow> (int \<times> user) option" where
  "ls_main lit buf s =
     do {
       (fd, s) \<leftarrow> ece391_open (lit (ascii ''.'')) s;
       if fd = - 1 then do {
         s \<leftarrow> ece391_fdputs 1 (lit (ascii ''directory open failed\<newline>'')) s;
         Some (2, s)
       }
       else ls_loop lit fd buf s
     }"

section \<open>Loops that empty their input\<close>

text \<open>A loop that emits one piece of its input after the other and then returns.\<close>

locale drain =
  fixes loop :: "'s \<Rightarrow> ('r \<times> 's) option"
    and left :: "'o list list \<Rightarrow> 's \<Rightarrow> bool"
    and emits :: "'o list \<Rightarrow> 's \<Rightarrow> 's \<Rightarrow> bool"
    and result :: 'r
  assumes emits_append: "emits a s t \<Longrightarrow> emits b t u \<Longrightarrow> emits (a @ b) s u"
    and stop: "left [] s \<Longrightarrow> \<exists>t. loop s = Some (result, t) \<and> left [] t \<and> emits [] s t"
    and step: "left (x # xs) s \<Longrightarrow> \<exists>t. loop s = loop t \<and> left xs t \<and> emits x s t"
begin

lemma drains: "left xs s \<Longrightarrow> \<exists>t. loop s = Some (result, t) \<and> left [] t \<and> emits (concat xs) s t"
proof (induction xs arbitrary: s)
  case Nil
  then show ?case using stop by simp
next
  case (Cons x xs)
  then obtain t where t: "loop s = loop t" "left xs t" "emits x s t" using step by blast
  from Cons.IH [OF t(2)] t(1,3) show ?case using emits_append by fastforce
qed

end

function chunks :: "nat \<Rightarrow> 'a list \<Rightarrow> 'a list list" where
  "chunks n xs = (if xs = [] \<or> n = 0 then [] else take n xs # chunks n (drop n xs))"
  by pat_completeness auto
termination
  by (relation "measure (\<lambda>(n, xs). length xs)") auto

declare chunks.simps [simp del]

lemma concat_chunks: "0 < n \<Longrightarrow> concat (chunks n xs) = xs"
proof (induction n xs rule: chunks.induct)
  case (1 n xs)
  then show ?case by (subst chunks.simps) simp
qed

lemma chunks_eq:
  assumes "0 < n"
  shows "chunks n xs = [] \<longleftrightarrow> xs = []" "chunks n xs = c # cs \<Longrightarrow> xs \<noteq> [] \<and> c = take n xs \<and> cs = chunks n (drop n xs)"
  using assms by (simp_all add: chunks.simps [of n xs] split: if_splits)

section \<open>cat\<close>

text \<open>The state of the loop with the pieces that are still to be copied.\<close>

definition cat_left :: "int \<Rightarrow> int \<Rightarrow> addr \<Rightarrow> u32 \<Rightarrow> u8 list \<Rightarrow> u8 list list \<Rightarrow> user \<Rightarrow> bool" where
  "cat_left p fd buf inode F xs s \<longleftrightarrow>
     user_ok p s \<and> user_range buf 1024 \<and> 2 \<le> fd \<and> fd \<le> 7 \<and>
     fd_flags (own_fd p s 1) \<noteq> - 1 \<and> jump_ptr (own_fd p s 1) = stdout_table \<and>
     fd_flags (own_fd p s fd) \<noteq> - 1 \<and> jump_ptr (own_fd p s fd) = file_table \<and> fd_inode (own_fd p s fd) = inode \<and>
     inode < num_inodes (vmem s) (fs_start s) \<and> file_bytes (vmem s) (fs_start s) inode = F \<and>
     unat (file_position (own_fd p s fd)) \<le> length F \<and> xs = chunks 1024 (drop (unat (file_position (own_fd p s fd))) F)"

lemma cat_step:
  assumes "cat_left p fd buf inode F xs s"
  defines "n \<equiv> min 1024 (length F - unat (file_position (own_fd p s fd)))"
  obtains t where "ece391_read fd buf 1024 s = Some (int n, t)" "outputs p [] s t" "cat_left p fd buf inode F (tl xs) t"
    "0 < n \<Longrightarrow> xs = bytes_at (vmem t) buf n # tl xs" "n = 0 \<longleftrightarrow> xs = []"
proof -
  let ?k = "unat (file_position (own_fd p s fd))"
  have a: "user_ok p s" "user_range buf 1024" "2 \<le> fd" "fd \<le> 7" "fd_flags (own_fd p s fd) \<noteq> - 1"
    "jump_ptr (own_fd p s fd) = file_table" "fd_inode (own_fd p s fd) = inode" "inode < num_inodes (vmem s) (fs_start s)"
    "file_bytes (vmem s) (fs_start s) inode = F" "?k \<le> length F" and xs: "xs = chunks 1024 (drop ?k F)"
    using assms(1) by (simp_all add: cat_left_def)
  have n: "n = min 1024 (length F - ?k)" by (simp add: n_def)
  obtain t pos where t: "ece391_read fd buf (int 1024) s = Some (int n, t)" "user_ok p t" "outputs p [] s t"
    "bytes_at (vmem t) buf n = take n (drop ?k F)" "unat pos = ?k + n"
    "pcbs t = (pcbs s)(pcb_addr p := (pcbs s (pcb_addr p))\<lparr>fdt := (fdt (pcbs s (pcb_addr p)))(fd := (own_fd p s fd)\<lparr>file_position := pos\<rparr>)\<rparr>)"
    by (rule read_call [OF a(1) _ a(4-8) refl, unfolded a(9), OF _ a(10) _ n user_range_mono [OF a(2)]]) (use a(3) n in simp_all)
  note f = outputs_files [OF a(1) t(3)]
  have own: "own_fd p t 1 = own_fd p s 1" "own_fd p t fd = (own_fd p s fd)\<lparr>file_position := pos\<rparr>"
    using t(6) a(3) by simp_all
  have e: "n = 0 \<longleftrightarrow> drop ?k F = []" using a(10) by (auto simp: n)
  have tn: "take n (drop ?k F) = take 1024 (drop ?k F)" "drop n (drop ?k F) = drop 1024 (drop ?k F)"
    by (simp_all add: n min_def)
  have "tl xs = chunks 1024 (drop (unat pos) F)"
  proof (cases "drop ?k F = []")
    case True
    then show ?thesis using e by (simp add: xs t(5) chunks.simps)
  next
    case False
    then show ?thesis using tn(2) by (subst xs, subst chunks.simps) (simp add: t(5) add.commute)
  qed
  moreover have "unat pos \<le> length F" using a(10) by (simp add: t(5) n_def)
  ultimately have "cat_left p fd buf inode F (tl xs) t"
    using assms(1) t(2) f own by (simp add: cat_left_def)
  moreover have "xs = bytes_at (vmem t) buf n # tl xs" if "0 < n"
    using that e tn(1) by (subst (1 2) xs, subst (1 2) chunks.simps) (simp add: t(4))
  moreover have "n = 0 \<longleftrightarrow> xs = []" unfolding e xs by (simp add: chunks_eq)
  ultimately show thesis using t(1,3) by (intro that [of t]) simp_all
qed

interpretation cat: drain "cat_loop lit fd buf" "cat_left p fd buf inode F" "outputs p" 0 for lit fd buf p inode F
proof
  show "outputs p xs s t \<Longrightarrow> outputs p ys t u \<Longrightarrow> outputs p (xs @ ys) s u" for xs ys s t u by (rule outputs_trans)
  show "\<exists>t. cat_loop lit fd buf s = Some (0, t) \<and> cat_left p fd buf inode F [] t \<and> outputs p [] s t"
    if "cat_left p fd buf inode F [] s" for s
    by (rule cat_step [OF that]) (subst cat_loop.simps, simp)
  show "\<exists>t. cat_loop lit fd buf s = cat_loop lit fd buf t \<and> cat_left p fd buf inode F xs t \<and> outputs p x s t"
    if l: "cat_left p fd buf inode F (x # xs) s" for s x xs
  proof -
    define n where "n = min 1024 (length F - unat (file_position (own_fd p s fd)))"
    obtain t where t: "ece391_read fd buf 1024 s = Some (int n, t)" "outputs p [] s t" "cat_left p fd buf inode F xs t"
      "0 < n \<Longrightarrow> x = bytes_at (vmem t) buf n" "0 < n"
      by (rule cat_step [OF l, folded n_def]) auto
    have c: "user_ok p t" "user_range buf n" "fd_flags (own_fd p t 1) \<noteq> - 1" "jump_ptr (own_fd p t 1) = stdout_table" "buf \<noteq> 0"
      using t(3,5) user_range_mono [of buf 1024 n] user_range_at [of buf 1024 buf] by (auto simp: cat_left_def n_def)
    obtain u where u: "ece391_write 1 buf (int n) t = Some (int n, u)" "user_ok p u" "outputs p x t u" "pcbs u = pcbs t"
      using write_call [OF c(1) _ _ c(3,4,2,5)] t(4,5) by auto
    have "cat_left p fd buf inode F xs u"
      using t(3) u(2,4) outputs_files [OF c(1) u(3)] by (simp add: cat_left_def)
    moreover have "cat_loop lit fd buf s = cat_loop lit fd buf u"
      using t(1,5) u(1) by (subst cat_loop.simps) simp
    ultimately show ?thesis using outputs_trans [OF t(2) u(3)] by auto
  qed
qed

text \<open>\<open>main\<close> up to the loop.\<close>

lemma args_name:
  assumes "user_ok p s" "user_range buf 1024" "args (pcbs s (pcb_addr p)) = padded name" "plain_name name" "\<not> terminal_name name"
    and "length name \<le> 127"
  obtains t where "ece391_getargs buf 1024 s = Some (0, t)" "user_ok p t" "outputs p [] s t" "pcbs t = pcbs s"
    "names_file t buf name" "\<And>a. a \<in> main_region \<Longrightarrow> 1024 \<le> unat (a - buf) \<Longrightarrow> vmem t a = vmem s a"
proof -
  have nz: "0 \<notin> set name" using assms(4) by (auto simp: plain_name_def)
  have ne: "name \<noteq> []" using assms(5) by (auto simp: terminal_name_def)
  have tk: "take 127 name = name" using assms(6) by simp
  obtain t where t: "ece391_getargs buf (int 1024) s = Some (0, t)" "user_ok p t" "outputs p [] s t" "pcbs t = pcbs s"
    "bytes_at (vmem t) buf 1024 = name @ replicate (1024 - length name) 0"
    "\<And>a. a \<in> main_region \<Longrightarrow> 1024 \<le> unat (a - buf) \<Longrightarrow> vmem t a = vmem s a"
    by (rule getargs_call [OF assms(1,3) nz ne _ assms(2), unfolded tk]) (use assms(6) in auto)
  have at: "vmem t (buf + of_nat i) = (name @ replicate (1024 - length name) 0) ! i" if "i < 1024" for i
    using arg_cong [OF t(5), of "\<lambda>x. x ! i"] that by simp
  have "bytes_at (vmem t) buf (length name) = name"
    using arg_cong [OF t(5), of "take (length name)"] assms(6) by simp
  moreover have "vmem t (buf + of_nat (length name)) = 0" using at [of "length name"] assms(6) by (simp add: nth_append)
  moreover have "buf + of_nat i \<in> main_region" if "i \<le> length name" for i
    using assms(2,6) that by (simp add: user_range_def main_region_def)
  ultimately have "names_file t buf name" using nz assms(6) by (simp add: names_file_def is_cstr_def)
  then show thesis using t by (intro that [of t]) simp_all
qed

lemma cat_opens:
  assumes "user_ok p s" "user_range buf 1024" "fd_flags (own_fd p s 1) \<noteq> - 1" "jump_ptr (own_fd p s 1) = stdout_table"
    and "args (pcbs s (pcb_addr p)) = padded name" "plain_name name" "\<not> terminal_name name" "length name \<le> 127"
    and "lookup_name (vmem s) (fs_start s) name = Some j" "d = dentry_addr (fs_start s) (of_nat j)"
    and "file_type (vmem s) d = 2" "inode = inode_num (vmem s) d" "inode < num_inodes (vmem s) (fs_start s)"
    and "free_fd (pcbs s (pcb_addr p)) = Some fd"
  obtains t where "cat_main lit buf s = cat_loop lit fd buf t" "outputs p [] s t"
    "cat_left p fd buf inode (file_bytes (vmem s) (fs_start s) inode)
       (chunks 1024 (file_bytes (vmem s) (fs_start s) inode)) t"
proof -
  obtain t where t: "ece391_getargs buf 1024 s = Some (0, t)" "user_ok p t" "outputs p [] s t" "pcbs t = pcbs s" "names_file t buf name"
    by (rule args_name [OF assms(1,2,5-8)])
  note f = outputs_files [OF assms(1) t(3)]
  have ft: "file_type (vmem t) d = 2" "inode_num (vmem t) d = inode" "d = dentry_addr (fs_start t) (of_nat j)"
    using f(4) [OF lookup_bound(2) [OF assms(9)]] assms(10-12) t(3) by (simp_all add: outputs_def)
  have lt: "lookup_name (vmem t) (fs_start t) name = Some j" using assms(9) f(5) by simp
  obtain u where u: "ece391_open buf t = Some (fd, u)" "user_ok p u" "outputs p [] t u" "vmem u = vmem t"
    "pcbs u = (pcbs t)(pcb_addr p := (pcbs t (pcb_addr p))\<lparr>fdt := (fdt (pcbs t (pcb_addr p)))(fd := fresh_fd 2 inode)\<rparr>)"
    by (rule open_call [OF t(2,5) assms(7,6) lt ft(3), where i = fd]) (use ft assms(14) t(4) in auto)
  have fd: "2 \<le> fd" "fd \<le> 7" using free_fd_Some assms(14) by blast+
  have "cat_main lit buf s = cat_loop lit fd buf u" using t(1) u(1) fd by (simp add: cat_main_def)
  moreover have "outputs p [] s u" using outputs_trans [OF t(3) u(3)] by simp
  moreover have "cat_left p fd buf inode (file_bytes (vmem s) (fs_start s) inode)
      (chunks 1024 (file_bytes (vmem s) (fs_start s) inode)) u"
    using u(2,5) t(4) fd assms(2-4,13) f outputs_files [OF t(2) u(3)]
    by (simp add: cat_left_def fresh_fd_def)
  ultimately show thesis by (rule that)
qed

section \<open>ls\<close>

definition names_of :: "'a kernel_scheme \<Rightarrow> u8 list list" where
  "names_of s = map (\<lambda>j. dentry_name (vmem s) (dentry_addr (fs_start s) (of_nat j))) [0..<unat (num_dentries (vmem s) (fs_start s))]"

text \<open>A line of \<open>ls\<close>: the kernel delivers names padded with zero bytes, and \<open>ls\<close> prints them all.\<close>

definition ls_line :: "u8 list \<Rightarrow> u8 list" where
  "ls_line name = name @ replicate (32 - length name) 0 @ [10]"

lemma names_of_outputs:
  assumes "user_ok p s" "outputs p bs s t"
  shows "names_of t = names_of s"
proof -
  note f = outputs_files [OF assms]
  have "of_nat j < num_dentries (vmem s) (fs_start s)" if "j < unat (num_dentries (vmem s) (fs_start s))" for j
    using that unat_lt32 [of "num_dentries (vmem s) (fs_start s)"] by (simp add: word_less_nat_alt unat_of_nat32)
  then show ?thesis unfolding names_of_def f(1) using f(4) by (intro map_cong) auto
qed

definition ls_left :: "int \<Rightarrow> int \<Rightarrow> addr \<Rightarrow> u8 list list \<Rightarrow> u8 list list \<Rightarrow> user \<Rightarrow> bool" where
  "ls_left p fd buf names xs s \<longleftrightarrow>
     user_ok p s \<and> user_range buf 33 \<and> 2 \<le> fd \<and> fd \<le> 7 \<and>
     fd_flags (own_fd p s 1) \<noteq> - 1 \<and> jump_ptr (own_fd p s 1) = stdout_table \<and>
     fd_flags (own_fd p s fd) \<noteq> - 1 \<and> jump_ptr (own_fd p s fd) = dir_table \<and> names_of s = names \<and>
     unat (file_position (own_fd p s fd)) \<le> length names \<and> xs = map ls_line (drop (unat (file_position (own_fd p s fd))) names)"

lemma ls_step:
  assumes "ls_left p fd buf names (x # xs) s"
  obtains t u where "ece391_read fd buf 32 s = Some (32, t)" "ustore (buf + 32) 10 t = Some u" "outputs p [] s u"
    "ls_left p fd buf names xs u" "bytes_at (vmem u) buf 33 = x"
proof -
  let ?k = "file_position (own_fd p s fd)"
  have a: "user_ok p s" "user_range buf 33" "2 \<le> fd" "fd \<le> 7" "fd_flags (own_fd p s fd) \<noteq> - 1"
    "jump_ptr (own_fd p s fd) = dir_table" "names_of s = names" and xs: "x # xs = map ls_line (drop (unat ?k) names)"
    using assms by (simp_all add: ls_left_def)
  have kl: "unat ?k < length names" using xs by (metis drop_eq_Nil list.distinct(1) list.simps(8) not_le)
  then have dk: "drop (unat ?k) names = names ! unat ?k # drop (Suc (unat ?k)) names" by (rule Cons_nth_drop_Suc [symmetric])
  have nk: "names ! unat ?k = dentry_name (vmem s) (dentry_addr (fs_start s) ?k)"
    using kl by (simp add: a(7) [symmetric] names_of_def)
  have lt: "?k < num_dentries (vmem s) (fs_start s)"
    using kl by (simp add: a(7) [symmetric] names_of_def word_less_nat_alt)
  have r32: "user_range buf 32" by (rule user_range_mono [OF a(2)]) simp
  obtain t where t: "ece391_read fd buf 32 s = Some (32, t)" "user_ok p t" "outputs p [] s t"
    "bytes_at (vmem t) buf 32 = names ! unat ?k @ replicate (32 - length (names ! unat ?k)) 0"
    "pcbs t = (pcbs s)(pcb_addr p := (pcbs s (pcb_addr p))\<lparr>fdt := (fdt (pcbs s (pcb_addr p)))
          (fd := (own_fd p s fd)\<lparr>file_position := ?k + 1\<rparr>)\<rparr>)"
    using dir_call(2) [OF a(1) _ a(4-6) refl r32 lt, where nb = 32] a(3) nk by auto
  have d32: "drop_bit 22 (buf + 32) = 32" using a(2) unfolding user_range_def by (auto dest: spec [of _ 32])
  obtain u where u: "ustore (buf + 32) 10 t = Some u" "user_ok p u" "outputs p [] t u" "pcbs u = pcbs t"
    "\<And>x. x \<in> main_region \<Longrightarrow> vmem u x = ((vmem t)(buf + 32 := 10)) x"
    by (rule ustore_call [OF t(2) d32]) blast
  have o: "outputs p [] s u" using outputs_trans [OF t(3) u(3)] by simp
  have m: "buf + of_nat i \<in> main_region" if "i < 33" for i using a(2) that by (simp add: user_range_def main_region_def)
  have "bytes_at (vmem u) buf 32 = bytes_at (vmem t) buf 32"
  proof (rule bytes_at_same)
    fix i :: nat assume i: "i < 32"
    then have "of_nat i \<noteq> (32 :: u32)" using unat_of_nat32 [of i] by (auto dest: arg_cong [of _ _ unat])
    then show "vmem u (buf + of_nat i) = vmem t (buf + of_nat i)" using u(5) [OF m [of i]] i by simp
  qed
  moreover have "vmem u (buf + 32) = 10" using u(5) m [of 32] by simp
  ultimately have b: "bytes_at (vmem u) buf 33 = ls_line (names ! unat ?k)"
    using bytes_at_append [of "vmem u" buf 32 1] t(4) bytes_at_Suc [of "vmem u" "buf + 32" 0] by (simp add: ls_line_def)
  have k1: "unat (?k + 1) = Suc (unat ?k)" using lt by unat_arith
  have "ls_left p fd buf names xs u"
    using assms u(2,4) t(5) names_of_outputs [OF a(1) o] k1 kl xs dk by (simp add: ls_left_def)
  moreover have "bytes_at (vmem u) buf 33 = x" using b xs dk by simp
  ultimately show thesis using t(1) u(1) o by (intro that)
qed

interpretation ls: drain "ls_loop lit fd buf" "ls_left p fd buf names" "outputs p" 0 for lit fd buf p names
proof
  show "outputs p a s t \<Longrightarrow> outputs p b t u \<Longrightarrow> outputs p (a @ b) s u" for a b s t u by (rule outputs_trans)
  show "\<exists>t. ls_loop lit fd buf s = Some (0, t) \<and> ls_left p fd buf names [] t \<and> outputs p [] s t"
    if l: "ls_left p fd buf names [] s" for s
  proof -
    let ?k = "file_position (own_fd p s fd)"
    have a: "user_ok p s" "user_range buf 33" "2 \<le> fd" "fd \<le> 7" "fd_flags (own_fd p s fd) \<noteq> - 1"
      "jump_ptr (own_fd p s fd) = dir_table" "unat ?k = length names" "names_of s = names"
      using l by (simp_all add: ls_left_def)
    have "unat (num_dentries (vmem s) (fs_start s)) \<le> 63"
      using user_okD(4) [OF a(1)] by (simp add: files_ok_def image_ok_def word_le_nat_alt)
    moreover have k: "unat ?k = unat (num_dentries (vmem s) (fs_start s))" using a(7,8) by (auto simp: names_of_def)
    ultimately have "?k \<noteq> - 1" by (auto simp: unsigned_minus_1_eq_mask mask_eq_exp_minus_1)
    moreover have "\<not> ?k < num_dentries (vmem s) (fs_start s)" using k by (simp add: word_less_nat_alt)
    ultimately have r: "ece391_read fd buf 32 s = Some (0, (entered s)\<lparr>script := stl (script s)\<rparr>)"
      using dir_call(1) [OF a(1) _ a(4-6) refl user_range_mono [OF a(2)], where nb = 32] a(3) by simp
    note e = returned_ok [OF a(1)]
    have "ls_left p fd buf names [] (returned s)" using l e names_of_outputs [OF a(1) e(2)] by (simp add: ls_left_def)
    moreover have "ls_loop lit fd buf s = Some (0, returned s)" using r by (subst ls_loop.simps) (simp add: returned_def)
    ultimately show ?thesis using e(2) by blast
  qed
  show "\<exists>t. ls_loop lit fd buf s = ls_loop lit fd buf t \<and> ls_left p fd buf names xs t \<and> outputs p x s t"
    if l: "ls_left p fd buf names (x # xs) s" for s x xs
  proof -
    obtain t u where t: "ece391_read fd buf 32 s = Some (32, t)" "ustore (buf + 32) 10 t = Some u" "outputs p [] s u"
      "ls_left p fd buf names xs u" "bytes_at (vmem u) buf 33 = x" by (rule ls_step [OF l])
    have c: "user_ok p u" "user_range buf 33" "fd_flags (own_fd p u 1) \<noteq> - 1" "jump_ptr (own_fd p u 1) = stdout_table" "buf \<noteq> 0"
      using t(4) user_range_at [of buf 33 buf] by (auto simp: ls_left_def)
    obtain v where v: "ece391_write 1 buf (int 33) u = Some (int 33, v)" "user_ok p v" "outputs p x u v" "pcbs v = pcbs u"
      using write_call [OF c(1) _ _ c(3,4,2,5)] t(5) by auto
    have "ls_left p fd buf names xs v"
      using t(4) v(2,4) names_of_outputs [OF c(1) v(3)] by (simp add: ls_left_def)
    moreover have "ls_loop lit fd buf s = ls_loop lit fd buf v"
      using t(1,2) v(1) by (subst ls_loop.simps) simp
    ultimately show ?thesis using outputs_trans [OF t(3) v(3)] by auto
  qed
qed

lemma ls_opens:
  assumes "user_ok p s" "user_range buf 33" "fd_flags (own_fd p s 1) \<noteq> - 1" "jump_ptr (own_fd p s 1) = stdout_table"
    and "names_file s (lit (ascii ''.'')) (ascii ''.'')" "lookup_name (vmem s) (fs_start s) (ascii ''.'') = Some j"
    and "file_type (vmem s) (dentry_addr (fs_start s) (of_nat j)) = 1" "free_fd (pcbs s (pcb_addr p)) = Some fd"
  obtains t where "ls_main lit buf s = ls_loop lit fd buf t" "outputs p [] s t"
    "ls_left p fd buf (names_of s) (map ls_line (names_of s)) t"
proof -
  have nm: "\<not> terminal_name (ascii ''.'')" "plain_name (ascii ''.'')"
    by (simp_all add: terminal_name_def ascii_def stdin_name_def stdout_name_def plain_name_def)
  obtain u where u: "ece391_open (lit (ascii ''.'')) s = Some (fd, u)" "user_ok p u" "outputs p [] s u"
    "pcbs u = (pcbs s)(pcb_addr p := (pcbs s (pcb_addr p))\<lparr>fdt := (fdt (pcbs s (pcb_addr p)))
       (fd := fresh_fd 1 (inode_num (vmem s) (dentry_addr (fs_start s) (of_nat j))))\<rparr>)"
    by (rule open_call [OF assms(1,5) nm assms(6) refl _ assms(8)]) (use assms(7) in auto)
  have fd: "2 \<le> fd" "fd \<le> 7" using free_fd_Some assms(8) by blast+
  have "ls_main lit buf s = ls_loop lit fd buf u" using u(1) fd by (simp add: ls_main_def)
  moreover have "ls_left p fd buf (names_of s) (map ls_line (names_of s)) u"
    using u(2,4) fd assms(2-4) names_of_outputs [OF assms(1) u(3)] by (simp add: ls_left_def fresh_fd_def)
  ultimately show thesis using u(3) by (intro that)
qed

section \<open>Errors of cat\<close>

text \<open>A string constant in the program page, apart from an array.\<close>

definition literal :: "(u8 list \<Rightarrow> addr) \<Rightarrow> addr \<Rightarrow> nat \<Rightarrow> u8 list \<Rightarrow> user \<Rightarrow> bool" where
  "literal lit buf n x s \<longleftrightarrow> is_cstr (vmem s) (lit x) x \<and> user_range (lit x) (Suc (length x)) \<and>
     (\<forall>i \<le> length x. n \<le> unat (lit x + of_nat i - buf))"

lemma literal_kept:
  assumes "literal lit buf n x s" "\<And>a. a \<in> main_region \<Longrightarrow> n \<le> unat (a - buf) \<Longrightarrow> vmem t a = vmem s a"
  shows "literal lit buf n x t"
proof -
  have e: "vmem t (lit x + of_nat i) = vmem s (lit x + of_nat i)" if "i \<le> length x" for i
    using assms(1) that by (intro assms(2)) (simp_all add: literal_def user_range_def main_region_def)
  then have "bytes_at (vmem t) (lit x) (length x) = bytes_at (vmem s) (lit x) (length x)" by (intro bytes_at_same) simp
  then show ?thesis using assms(1) e [of "length x"] by (simp add: literal_def is_cstr_def)
qed

lemma literal_puts:
  assumes "user_ok p s" "fd_flags (own_fd p s 1) \<noteq> - 1" "jump_ptr (own_fd p s 1) = stdout_table" "literal lit buf n x s"
  obtains t where "ece391_fdputs 1 (lit x) s = Some t" "user_ok p t" "outputs p x s t" "pcbs t = pcbs s"
    "\<And>a. a \<in> main_region \<Longrightarrow> vmem t a = vmem s a"
  using fdputs_call [OF assms(1) _ _ assms(2,3), of "lit x" x] assms(4) by (auto simp: literal_def)

lemma cat_no_args:
  assumes "user_ok p s" "fd_flags (own_fd p s 1) \<noteq> - 1" "jump_ptr (own_fd p s 1) = stdout_table"
    and "args (pcbs s (pcb_addr p)) = padded []" "literal lit buf 1024 (ascii ''could not read arguments\<newline>'') s"
  shows "\<exists>t. cat_main lit buf s = Some (3, t) \<and> outputs p (ascii ''could not read arguments\<newline>'') s t \<and> user_ok p t"
proof -
  note r = returned_ok [OF assms(1)]
  have "args (cur_pcb (entered s)) = padded []" using assms(4) by (simp add: entered_ok [OF assms(1)])
  then have "getargs buf (int 1024) (entered s) = (- 1, entered s)" by (rule getargs_refuses) simp_all
  then have g: "ece391_getargs buf 1024 s = Some (- 1, returned s)"
    by (simp add: ece391_getargs_def syscalls returned_def)
  have "literal lit buf 1024 (ascii ''could not read arguments\<newline>'') (returned s)"
    using assms(5) by (rule literal_kept) (simp add: r)
  then obtain t where t: "ece391_fdputs 1 (lit (ascii ''could not read arguments\<newline>'')) (returned s) = Some t" "user_ok p t"
    "outputs p (ascii ''could not read arguments\<newline>'') (returned s) t"
    using literal_puts [OF r(1), of lit buf 1024 "ascii ''could not read arguments\<newline>''"] assms(2,3) r(3) by auto
  then show ?thesis using outputs_trans [OF r(2) t(3)] by (intro exI [of _ t]) (simp add: cat_main_def g)
qed

lemma open_missing:
  assumes "user_ok p s" "names_file s filename name" "\<not> terminal_name name" "plain_name name"
    and "lookup_name (vmem s) (fs_start s) name = None"
  shows "ece391_open filename s = Some (- 1, returned s)"
proof -
  note e = entered_ok [OF assms(1)]
  have "names_file (entered s) filename name" using assms(2) by (simp add: names_file_def)
  moreover have "image_ok (entered s)" using e(4) by (simp add: files_ok_def)
  ultimately have "sys_open filename (entered s) = (- 1, entered s)"
    using sys_open_lookup(1) [OF e(1) _ assms(3,4)] assms(5) by simp
  then show ?thesis by (simp add: ece391_open_def syscalls returned_def)
qed

lemma cat_not_found:
  assumes "user_ok p s" "user_range buf 1024" "fd_flags (own_fd p s 1) \<noteq> - 1" "jump_ptr (own_fd p s 1) = stdout_table"
    and "args (pcbs s (pcb_addr p)) = padded name" "plain_name name" "\<not> terminal_name name" "length name \<le> 127"
    and "lookup_name (vmem s) (fs_start s) name = None" "literal lit buf 1024 (ascii ''file not found\<newline>'') s"
  shows "\<exists>t. cat_main lit buf s = Some (2, t) \<and> outputs p (ascii ''file not found\<newline>'') s t \<and> user_ok p t"
proof -
  obtain t where t: "ece391_getargs buf 1024 s = Some (0, t)" "user_ok p t" "outputs p [] s t" "pcbs t = pcbs s" "names_file t buf name"
    "\<And>a. a \<in> main_region \<Longrightarrow> 1024 \<le> unat (a - buf) \<Longrightarrow> vmem t a = vmem s a"
    by (rule args_name [OF assms(1,2,5-8)]) blast
  have o: "ece391_open buf t = Some (- 1, returned t)"
    using assms(9) outputs_files(5) [OF assms(1) t(3)] by (intro open_missing [OF t(2,5) assms(7,6)]) simp
  note r = returned_ok [OF t(2)]
  have l: "literal lit buf 1024 (ascii ''file not found\<newline>'') (returned t)"
    using assms(10) by (rule literal_kept) (simp add: r t(6))
  obtain u where u: "ece391_fdputs 1 (lit (ascii ''file not found\<newline>'')) (returned t) = Some u" "user_ok p u"
    "outputs p (ascii ''file not found\<newline>'') (returned t) u"
    using literal_puts [OF r(1) _ _ l] assms(3,4) r(3) t(4) by auto
  have "outputs p (ascii ''file not found\<newline>'') s u"
    using outputs_trans [OF t(3) outputs_trans [OF r(2) u(3)]] by simp
  then show ?thesis using t(1) o u(1,2) by (intro exI [of _ u]) (simp add: cat_main_def)
qed

section \<open>An example state\<close>

text \<open>Process 1 with the arguments \<open>shell\<close> and an image with the directory itself and the file \<open>shell\<close>; the constant
  of \<open>ls\<close> lies at 0x8049000.\<close>

definition dir_fs :: mem where
  "dir_fs = demo_fs(0x400040 := 0x2E, 0x400060 := 1, 0x849000 := 0x2E)"

definition env1 :: trap_env where
  "env1 = \<lparr>sp_depth = 0x40, fp_depth = 0x30, elf_locals = locals1, keystrokes = [], clock_irqs = 0\<rparr>"

definition user1 :: user where
  "user1 = kernel.extend (kernel1\<lparr>pmem := dir_fs, pcbs := (\<lambda>_. pcb1\<lparr>args := padded shell_name\<rparr>)\<rparr>) (user.fields (sconst env1))"

lemma dir_fs_disk: "disk_ok dir_fs 0x400000" "num_dentries dir_fs 0x400000 = 2" "num_inodes dir_fs 0x400000 = 1"
  "file_size dir_fs 0x400000 0 = 40"
proof -
  have c: "num_dentries dir_fs 0x400000 = 2" "num_inodes dir_fs 0x400000 = 1" "num_dblocks dir_fs 0x400000 = 2"
    by (simp_all add: num_dentries_def num_inodes_def num_dblocks_def load32_def dir_fs_def demo_fs_def)
  then show "num_dentries dir_fs 0x400000 = 2" "num_inodes dir_fs 0x400000 = 1" by simp_all
  have l: "fs_len dir_fs 0x400000 = 16384" by (simp add: fs_len_def c)
  then have "in_fs dir_fs 0x400000 = in_fs demo_fs 0x400000" by (simp add: in_fs_def fun_eq_iff demo_counts)
  then have i: "in_fs dir_fs 0x400000 a \<Longrightarrow> drop_bit 22 a = 1" for a using demo_in_kernel_page by simp
  have sz: "file_size dir_fs 0x400000 0 = 40" "load32 dir_fs (slot_addr 0x400000 0 0) = 1"
    by (simp_all add: file_size_def slot_addr_def inode_addr_def load32_def dir_fs_def demo_fs_def)
  then show "file_size dir_fs 0x400000 0 = 40" by simp
  have "b = 0" if "b * 4096 < 40" for b :: nat using that by (cases b) simp_all
  then have "load32 dir_fs (slot_addr 0x400000 0 b) < 2" if "b * 4096 < 40" for b :: nat
    using that sz(2) by fastforce
  then have fo: "file_ok dir_fs 0x400000 0" using sz(1) by (simp add: file_ok_def c l)
  have "load32 dir_fs 0x400060 = 1" "load32 dir_fs 0x4000A0 = 2" by (simp_all add: load32_def dir_fs_def demo_fs_def)
  moreover have "j = 0 \<or> j = 1" if "j < 2" for j :: u32 using that by unat_arith
  ultimately have "types_ok dir_fs 0x400000" by (fastforce simp: types_ok_def c file_type_def dentry_addr_def)
  moreover have "inode < 1 \<Longrightarrow> inode = 0" for inode :: u32 by unat_arith
  ultimately show "disk_ok dir_fs 0x400000" using fo i l by (auto simp: disk_ok_def c)
qed

lemma user1_fields [simp]:
  "pmem user1 = dir_fs" "fs_start user1 = 0x400000" "pcbs user1 = (\<lambda>_. pcb1\<lparr>args := padded shell_name\<rparr>)" "script user1 = sconst env1"
  "page_directory user1 = page_directory kb1" "tss_esp0 user1 = tss_esp0 kb1" "fault user1 = fault kb1"
  "terminals user1 = terminals kb1" "cur_terminal user1 = cur_terminal kb1" "print_terminal user1 = print_terminal kb1"
  "first_page_table user1 = first_page_table kb1" "second_page_table user1 = second_page_table kb1"
  "sched_arr user1 = sched_arr kb1" "cur_sched_term user1 = cur_sched_term kb1"
  "page_directory_addr user1 = page_directory_addr kb1" "first_page_table_addr user1 = first_page_table_addr kb1"
  "second_page_table_addr user1 = second_page_table_addr kb1"
  "cr0 user1 = cr0 kb1" "cr3 user1 = cr3 kb1" "cr4 user1 = cr4 kb1"
  by (simp_all add: user1_def kernel.defs user.defs kernel1_def rtc.defs rtc0_def kb.defs)

lemma kb1_stack: "tss_esp0 kb1 = kernel_stack_top 1"
  unfolding kb1_def by (subst pit_tick(8)) (simp_all add: term_no_def pit_init_slots)

lemma user1_ok: "user_ok 1 user1"
proof -
  have t: "translate u user1 = translate u kb1" for u by (simp add: fun_eq_iff translate_def table_at_def Let_def)
  have k: "kb_inv user1" "display_ok user1"
    using kb1_inv(1,2)
    by (auto simp: kb_inv_def sched_inv_def console_inv_def video_ok_def paging_wf_def paging_on_def buffers_ok_def
        slots_ok_def t display_ok_def screen_of_def vframe_def)
  then have wf: "paging_wf user1" by (simp add: kb_inv_def sched_inv_def console_inv_def video_ok_def)
  have "files_ok user1"
    unfolding files_ok_disk by (rule disk_ok_same) (use dir_fs_disk(1) kernel_view [OF wf] in auto)
  then show ?thesis
    using k kb1_inv(3) kb1_stack by (simp add: user_ok_def runs_process_def env1_def frame_ok_def)
qed

lemma user1_view: "drop_bit 22 a = 1 \<Longrightarrow> vmem user1 a = dir_fs a"
  using kernel_view [OF user_okD(5) [OF user1_ok]] by simp

lemma user1_image:
  "num_dentries (vmem user1) 0x400000 = 2" "num_inodes (vmem user1) 0x400000 = 1" "file_size (vmem user1) 0x400000 0 = 40"
proof -
  have s: "vmem user1 a = dir_fs a" if "in_fs dir_fs 0x400000 a" for a
    using dir_fs_disk(1) that by (intro user1_view) (simp add: disk_ok_def)
  have l: "fs_len dir_fs 0x400000 < 2 ^ 32" "file_ok dir_fs 0x400000 0"
    using dir_fs_disk(1,3) by (simp_all add: disk_ok_def)
  show "num_dentries (vmem user1) 0x400000 = 2" "num_inodes (vmem user1) 0x400000 = 1" "file_size (vmem user1) 0x400000 0 = 40"
    using header_same [OF s l(1)] image_same(2) [OF s l(2)] dir_fs_disk by simp_all
qed

lemma user1_entries:
  "dentry_name (vmem user1) 0x400040 = [0x2E]" "dentry_name (vmem user1) 0x400080 = shell_name"
  "file_type (vmem user1) 0x400040 = 1" "file_type (vmem user1) 0x400080 = 2" "inode_num (vmem user1) 0x400080 = 0"
proof -
  have "is_cstr (vmem user1) 0x400040 [0x2E]" "is_cstr (vmem user1) 0x400080 shell_name"
    by (simp_all add: is_cstr_def bytes_at_def shell_name_def user1_view dir_fs_def demo_fs_def upt_rec)
  from this [THEN cstr_bytes_of_cstr, of 32]
  show "dentry_name (vmem user1) 0x400040 = [0x2E]" "dentry_name (vmem user1) 0x400080 = shell_name"
    by (simp_all add: dentry_name_def shell_name_def)
  show "file_type (vmem user1) 0x400040 = 1" "file_type (vmem user1) 0x400080 = 2" "inode_num (vmem user1) 0x400080 = 0"
    by (simp_all add: file_type_def inode_num_def load32_def user1_view dir_fs_def demo_fs_def)
qed

lemma user1_lookup:
  "lookup_name (vmem user1) 0x400000 (ascii ''.'') = Some 0" "lookup_name (vmem user1) 0x400000 shell_name = Some 1"
  "lookup_name (vmem user1) 0x400000 [0x62] = None"
  by (simp_all add: lookup_name_def user1_image two_entries dentry_addr_def user1_entries ascii_def shell_name_def)

lemma shell_plain: "plain_name shell_name" "\<not> terminal_name shell_name" "length shell_name \<le> 127"
  by (simp_all add: shell_name_def plain_name_def terminal_name_def stdin_name_def stdout_name_def)

lemma user1_fds: "fdt_ok (fdt (pcbs user1 (pcb_addr 1)))" "free_fd (pcbs user1 (pcb_addr 1)) \<noteq> None"
  by (simp_all add: fdt_ok_def fd_ok_def pcb1_def fresh_fd_def free_fd_def upto.simps)

lemma user_ok_pcbs: "user_ok p (s\<lparr>pcbs := b\<rparr>) = user_ok p s"
proof -
  have t: "translate u (s\<lparr>pcbs := b\<rparr>) = translate u s" for u by (simp add: fun_eq_iff translate_def table_at_def Let_def)
  then have v: "vmem (s\<lparr>pcbs := b\<rparr>) = vmem s" by (simp add: fun_eq_iff vmem_def kload_def)
  have "kb_inv (s\<lparr>pcbs := b\<rparr>) = kb_inv s" "display_ok (s\<lparr>pcbs := b\<rparr>) = display_ok s"
    by (simp_all add: kb_inv_def sched_inv_def console_inv_def video_ok_def paging_wf_def paging_on_def buffers_ok_def
        slots_ok_def t display_ok_def screen_of_def vframe_def)
  then show ?thesis by (simp add: user_ok_def files_ok_disk v runs_process_def)
qed

text \<open>The same process with string constants in slots of 32 bytes at 0x8049000.\<close>

definition slot32 :: "u8 list \<Rightarrow> u8 list" where
  "slot32 x = x @ replicate (32 - length x) 0"

definition slots :: "u8 list list \<Rightarrow> u8 list" where
  "slots xs = concat (map slot32 xs)"

definition slot_lit :: "u8 list list \<Rightarrow> u8 list \<Rightarrow> addr" where
  "slot_lit xs x = 0x8049000 + of_nat (32 * length (takeWhile (\<lambda>y. y \<noteq> x) xs))"

definition user_with :: "u8 list list \<Rightarrow> user" where
  "user_with xs = user1\<lparr>pmem := put_bytes 0x849000 (slots xs) dir_fs\<rparr>"

definition short_strings :: "u8 list list \<Rightarrow> bool" where
  "short_strings xs \<longleftrightarrow> length xs \<le> 16 \<and> (\<forall>x \<in> set xs. length x < 32 \<and> 0 \<notin> set x)"

lemma drop_slots:
  assumes "\<And>x. x \<in> set xs \<Longrightarrow> length (f x) = 32"
  shows "drop (32 * k) (concat (map f xs)) = concat (map f (drop k xs))" "length (concat (map f xs)) = 32 * length xs"
proof -
  show "length (concat (map f xs)) = 32 * length xs" using assms by (induction xs) simp_all
  show "drop (32 * k) (concat (map f xs)) = concat (map f (drop k xs))"
    using assms
  proof (induction xs arbitrary: k)
    case (Cons x xs)
    then show ?case by (cases k) simp_all
  qed simp
qed

lemma slot_content:
  assumes "short_strings xs" "x \<in> set xs"
  defines "k \<equiv> length (takeWhile (\<lambda>y. y \<noteq> x) xs)"
  shows "k < length xs" "i < length x \<Longrightarrow> slots xs ! (32 * k + i) = x ! i" "slots xs ! (32 * k + length x) = 0"
    "length (slots xs) = 32 * length xs"
proof -
  have "takeWhile (\<lambda>y. y \<noteq> x) xs \<noteq> xs" using assms(2) by auto
  then show k: "k < length xs"
    unfolding k_def by (metis length_takeWhile_le le_neq_implies_less takeWhile_eq_take take_all order_refl)
  have x: "xs ! k = x" using nth_length_takeWhile k unfolding k_def by fastforce
  have s: "length (slot32 y) = 32" if "y \<in> set xs" for y using assms(1) that by (auto simp: slot32_def short_strings_def)
  show l: "length (slots xs) = 32 * length xs" unfolding slots_def by (rule drop_slots(2) [OF s])
  have "drop (32 * k) (slots xs) = slot32 x @ concat (map slot32 (drop (Suc k) xs))"
    unfolding slots_def using k x by (subst drop_slots) (simp_all add: s Cons_nth_drop_Suc [symmetric])
  then have d: "slots xs ! (32 * k + i) = slot32 x ! i" if "i < 32" for i
    using that s [OF assms(2)] k l nth_drop [of "32 * k" "slots xs" i] by (simp add: nth_append)
  have sh: "length x < 32" using assms(1,2) by (simp add: short_strings_def)
  show "slots xs ! (32 * k + i) = x ! i" if "i < length x" using d [of i] that sh by (simp add: slot32_def nth_append)
  show "slots xs ! (32 * k + length x) = 0" using d [of "length x"] sh by (simp add: slot32_def nth_append)
qed

lemma constants_page:
  assumes "i < 512"
  shows "drop_bit 22 (0x8049000 + of_nat i :: addr) = 32" "translate False user1 (0x8049000 + of_nat i) = Some (0x849000 + of_nat i)"
proof -
  have i: "take_bit 12 (of_nat i :: u32) = of_nat i" using assms by (intro take_bit_below) (simp add: unat_of_nat32)
  have "drop_bit 12 (0x8049000 + of_nat i :: addr) = drop_bit 12 0x8049000" by (intro page_offset i) simp
  from dir_of_page [OF this] show d: "drop_bit 22 (0x8049000 + of_nat i :: addr) = 32" by simp
  have "push_bit 22 (drop_bit 22 (0x8049000 + of_nat i :: addr)) + take_bit 22 (0x8049000 + of_nat i) = 0x8049000 + of_nat i"
    by (rule bits_ident)
  then have "0x8000000 + take_bit 22 (0x8049000 + of_nat i :: addr) = 0x8000000 + (0x49000 + of_nat i)" unfolding d by simp
  then have "take_bit 22 (0x8049000 + of_nat i :: addr) = 0x49000 + of_nat i" by (rule add_left_imp_eq)
  then show "translate False user1 (0x8049000 + of_nat i) = Some (0x849000 + of_nat i)"
    using main_translate(2) [OF user_okD(1) [OF user1_ok] d] by (simp add: prog_frame_def)
qed

lemma user_with_ok:
  assumes "short_strings xs"
  shows "user_ok 1 (user_with xs)" "outputs 1 [] user1 (user_with xs)"
    "x \<in> set xs \<Longrightarrow> literal (slot_lit xs) 0x8048000 1024 x (user_with xs)"
proof -
  let ?q = "put_bytes 0x849000 (slots xs) dir_fs"
  have sz: "length (slots xs) \<le> 512"
  proof (cases xs)
    case (Cons y ys)
    then show ?thesis using slot_content(4) [OF assms, of y] assms by (simp add: short_strings_def)
  qed (simp add: slots_def)
  have "drop_bit 22 a = 2" if "unat (a - 0x849000) < 512" for a :: addr
  proof -
    have "unat a = unat (0x849000 + (a - 0x849000))" by simp
    also have "\<dots> = 0x849000 + unat (a - 0x849000)" using that by (subst unat_add_lem [THEN iffD1]) simp_all
    finally have "unat a div 2 ^ 22 = 2" using that by simp
    then show ?thesis by (simp add: word_unat_eq_iff drop_bit_eq_div unat_div)
  qed
  then have fr: "own_frame 1 user1 ?q" using sz by (auto simp: own_frame_def put_bytes_def)
  have "vmem (user1\<lparr>pmem := ?q\<rparr>) a = vmem user1 a" if "drop_bit 22 a = 1" for a
    using main_translate(1) [OF user_okD(1) [OF user1_ok] that] fr that by (simp add: vmem_def kload_def own_frame_def)
  from own_store [OF user1_ok fr this] show "user_ok 1 (user_with xs)" "outputs 1 [] user1 (user_with xs)"
    by (simp_all add: user_with_def)
  have q: "vmem (user_with xs) (0x8049000 + of_nat j) = slots xs ! j" "drop_bit 22 (0x8049000 + of_nat j :: addr) = 32"
    "1024 \<le> unat (0x8049000 + of_nat j - 0x8048000 :: addr)" if "j < 512" "j < length (slots xs)" for j
  proof -
    have "?q (0x849000 + of_nat j) = slots xs ! j" using that by (simp add: put_bytes_def unat_of_nat32)
    then show "vmem (user_with xs) (0x8049000 + of_nat j) = slots xs ! j" "drop_bit 22 (0x8049000 + of_nat j :: addr) = 32"
      using constants_page [OF that(1)] by (simp_all add: user_with_def vmem_def kload_def)
    have "(0x8049000 + of_nat j - 0x8048000 :: addr) = of_nat (0x1000 + j)" by simp
    then show "1024 \<le> unat (0x8049000 + of_nat j - 0x8048000 :: addr)"
      using that(1) unat_of_nat32 [of "0x1000 + j"] by (simp only:) simp
  qed
  show "literal (slot_lit xs) 0x8048000 1024 x (user_with xs)" if x: "x \<in> set xs"
  proof -
    define k where "k = length (takeWhile (\<lambda>y. y \<noteq> x) xs)"
    note b = slot_content [OF assms x, folded k_def]
    have sh: "length x < 32" "0 \<notin> set x" "k < 16" using assms x b(1) by (simp_all add: short_strings_def)
    have a: "slot_lit xs x + of_nat i = 0x8049000 + of_nat (32 * k + i)" for i by (simp add: slot_lit_def k_def)
    have n: "32 * k + i < 512" "32 * k + i < length (slots xs)" if "i < 32" for i using that sh(3) b(1,4) by linarith+
    note m = q [OF n, folded a]
    have "bytes_at (vmem (user_with xs)) (slot_lit xs x) (length x) = x"
      by (rule nth_equalityI) (use m(1) b(2) sh in \<open>simp_all\<close>)
    moreover have "vmem (user_with xs) (slot_lit xs x + of_nat (length x)) = 0" using m(1) [of "length x"] b(3) sh by simp
    ultimately show ?thesis using sh m(2,3) by (simp add: literal_def is_cstr_def user_range_def)
  qed
qed

definition lit0 :: "u8 list \<Rightarrow> addr" where
  "lit0 = (\<lambda>_. 0x8049000)"

section \<open>Properties\<close>

text \<open>C14: \<open>cat\<close> prints the file. Run by any process on a sound file system, with the name of a regular file
  as its argument and a free descriptor, it returns 0 after it has printed exactly the bytes of the file on its
  terminal, whatever the size of the file; the other terminals, the kernel's page and the other processes are as before.\<close>

theorem cat_prints_file:
  assumes "user_ok p s" "user_range buf 1024" "fdt_ok (fdt (pcbs s (pcb_addr p)))" "free_fd (pcbs s (pcb_addr p)) \<noteq> None"
    and "args (pcbs s (pcb_addr p)) = padded name" "plain_name name" "\<not> terminal_name name" "length name \<le> 127"
    and "lookup_name (vmem s) (fs_start s) name = Some j"
  defines "d \<equiv> dentry_addr (fs_start s) (of_nat j)"
  assumes "file_type (vmem s) d = 2" "inode_num (vmem s) d < num_inodes (vmem s) (fs_start s)"
  shows "\<exists>t. cat_main lit buf s = Some (0, t) \<and> user_ok p t \<and>
    outputs p (file_bytes (vmem s) (fs_start s) (inode_num (vmem s) d)) s t"
proof -
  let ?F = "file_bytes (vmem s) (fs_start s) (inode_num (vmem s) d)"
  obtain fd where fd: "free_fd (pcbs s (pcb_addr p)) = Some fd" using assms(4) by blast
  have so: "fd_flags (own_fd p s 1) \<noteq> - 1" "jump_ptr (own_fd p s 1) = stdout_table" using assms(3) by (simp_all add: fdt_ok_def)
  obtain t where t: "cat_main lit buf s = cat_loop lit fd buf t" "outputs p [] s t"
    "cat_left p fd buf (inode_num (vmem s) d) ?F (chunks 1024 ?F) t"
    by (rule cat_opens [OF assms(1,2) so assms(5-9) d_def [THEN meta_eq_to_obj_eq] assms(11) refl assms(12) fd]) blast
  obtain u where u: "cat_loop lit fd buf t = Some (0, u)" "cat_left p fd buf (inode_num (vmem s) d) ?F [] u" "outputs p ?F t u"
    using cat.drains [OF t(3), of lit] by (auto simp: concat_chunks)
  then show ?thesis using t outputs_trans [OF t(2) u(3)] by (intro exI [of _ u]) (simp add: cat_left_def)
qed

theorem cat_prints_file_witness:
  "\<exists>t. cat_main lit0 0x8048000 user1 = Some (0, t) \<and> outputs 1 (file_bytes (vmem user1) 0x400000 0) user1 t \<and>
     length (file_bytes (vmem user1) 0x400000 0) = 40"
proof -
  have "\<exists>t. cat_main lit0 0x8048000 user1 = Some (0, t) \<and> user_ok 1 t \<and>
      outputs 1 (file_bytes (vmem user1) (fs_start user1) (inode_num (vmem user1) (dentry_addr (fs_start user1) (of_nat 1)))) user1 t"
    by (rule cat_prints_file [OF user1_ok demo_user_range user1_fds, of shell_name 1])
      (simp_all add: user1_lookup user1_image user1_entries dentry_addr_def shell_plain)
  then show ?thesis by (auto simp: user1_entries dentry_addr_def file_bytes_def user1_image)
qed

text \<open>C15: \<open>ls\<close> lists the directory. It returns 0 after it has printed one line for every entry of the directory, in
  order: the name, padded with zero bytes to 32, and a newline.\<close>

theorem ls_lists_directory:
  assumes "user_ok p s" "user_range buf 33" "fdt_ok (fdt (pcbs s (pcb_addr p)))" "free_fd (pcbs s (pcb_addr p)) \<noteq> None"
    and "names_file s (lit (ascii ''.'')) (ascii ''.'')" "lookup_name (vmem s) (fs_start s) (ascii ''.'') = Some j"
    and "file_type (vmem s) (dentry_addr (fs_start s) (of_nat j)) = 1"
  shows "\<exists>t. ls_main lit buf s = Some (0, t) \<and> user_ok p t \<and> outputs p (concat (map ls_line (names_of s))) s t"
proof -
  obtain fd where fd: "free_fd (pcbs s (pcb_addr p)) = Some fd" using assms(4) by blast
  have so: "fd_flags (own_fd p s 1) \<noteq> - 1" "jump_ptr (own_fd p s 1) = stdout_table" using assms(3) by (simp_all add: fdt_ok_def)
  obtain t where t: "ls_main lit buf s = ls_loop lit fd buf t" "outputs p [] s t" "ls_left p fd buf (names_of s) (map ls_line (names_of s)) t"
    by (rule ls_opens [where lit = lit, OF assms(1,2) so assms(5-7) fd])
  obtain u where u: "ls_loop lit fd buf t = Some (0, u)" "ls_left p fd buf (names_of s) [] u"
      "outputs p (concat (map ls_line (names_of s))) t u"
    using ls.drains [OF t(3), of lit] by blast
  then show ?thesis using t outputs_trans [OF t(2) u(3)] by (intro exI [of _ u]) (simp add: ls_left_def)
qed

theorem ls_lists_directory_witness:
  "\<exists>t. ls_main lit0 0x8048000 user1 = Some (0, t) \<and>
     outputs 1 (ls_line [0x2E] @ ls_line shell_name) user1 t"
proof -
  have n: "names_of user1 = [[0x2E], shell_name]"
    by (simp add: names_of_def user1_image two_entries dentry_addr_def user1_entries)
  have v: "vmem user1 0x8049000 = 0x2E" "vmem user1 0x8049001 = 0"
    using main_translate(2) [OF user_okD(1) [OF user1_ok], of "0x8049000"]
      main_translate(2) [OF user_okD(1) [OF user1_ok], of "0x8049001"]
    by (simp_all add: vmem_def kload_def prog_frame_def dir_fs_def demo_fs_def)
  have "i = 0 \<or> i = 1" if "i \<le> Suc 0" for i :: nat using that by auto
  then have "(0x8049000 :: addr) + of_nat i \<in> main_region" if "i \<le> Suc 0" for i
    using that by (fastforce simp: main_region_def)
  then have "names_file user1 (lit0 (ascii ''.'')) (ascii ''.'')"
    by (auto simp: names_file_def is_cstr_def bytes_at_def v ascii_def lit0_def)
  then show ?thesis
    using ls_lists_directory [OF user1_ok demo_user_range user1_fds, of lit0 0]
    by (auto simp: user1_lookup user1_entries dentry_addr_def n)
qed

end
