(* ===== verification/SysErr.thy ===== *)
theory SysErr
  imports Utilities
begin

text \<open>
  The test program \<open>syscalls/ece391syserr.c\<close>: eight tests of how the system calls refuse bad arguments. They are
  run against the kernel model, and pass.
\<close>

section \<open>The tests\<close>

abbreviation (input) NEG_FD :: int where "NEG_FD \<equiv> - 1073741823"
abbreviation (input) BIG_FD :: int where "BIG_FD \<equiv> 1073741823"
abbreviation (input) NEG_NUM :: int where "NEG_NUM \<equiv> - 1073741823"
abbreviation (input) BIG_NUM :: int where "BIG_NUM \<equiv> 1073741823"

text \<open>\<open>call_sys\<close> sets \<open>eax\<close> only; \<open>regs\<close> are the other registers at that point.\<close>

definition call_sys :: "u32 \<times> u32 \<times> u32 \<Rightarrow> int \<Rightarrow> user \<Rightarrow> (int \<times> user) option" where
  "call_sys regs num s = (let (ebx, ecx, edx) = regs in syscall (word_of_int num) ebx ecx edx s)"

text \<open>\<open>if (-1 != call) { fail = 2; ece391_fdputs (1, msg); }\<close>, and the report at the end of a test.\<close>

definition expect_fail :: "(user \<Rightarrow> (int \<times> user) option) \<Rightarrow> addr \<Rightarrow> int \<Rightarrow> user \<Rightarrow> (int \<times> user) option" where
  "expect_fail call msg fail s =
     do {
       (r, s) \<leftarrow> call s;
       if - 1 \<noteq> r then do {
         s \<leftarrow> ece391_fdputs 1 msg s;
         Some (2, s)
       }
       else Some (fail, s)
     }"

definition report :: "(u8 list \<Rightarrow> addr) \<Rightarrow> string \<Rightarrow> int \<Rightarrow> user \<Rightarrow> (int \<times> user) option" where
  "report lit name fail s =
     do {
       s \<leftarrow> ece391_fdputs 1 (lit (ascii (name @ (if fail \<noteq> 0 then '': FAIL\<newline>'' else '': PASS\<newline>'')))) s;
       Some (fail, s)
     }"

fun expect_each :: "(int \<Rightarrow> user \<Rightarrow> (int \<times> user) option) \<Rightarrow> addr \<Rightarrow> int list \<Rightarrow> int \<Rightarrow> user \<Rightarrow> (int \<times> user) option" where
  "expect_each call msg [] fail s = Some (fail, s)"
| "expect_each call msg (i # is) fail s =
     do {
       (fail, s) \<leftarrow> expect_fail (call i) msg fail s;
       expect_each call msg is fail s
     }"

definition err_neg_fd :: "(u8 list \<Rightarrow> addr) \<Rightarrow> addr \<Rightarrow> user \<Rightarrow> (int \<times> user) option" where
  "err_neg_fd lit buf s =
     do {
       (fail, s) \<leftarrow> expect_fail (ece391_read NEG_FD buf 31) (lit (ascii ''read fail\<newline>'')) 0 s;
       (fail, s) \<leftarrow> expect_fail (ece391_write NEG_FD buf 31) (lit (ascii ''write fail\<newline>'')) fail s;
       (fail, s) \<leftarrow> expect_fail (ece391_close NEG_FD) (lit (ascii ''close fail\<newline>'')) fail s;
       report lit ''err_neg_fd'' fail s
     }"

definition err_big_fd :: "(u8 list \<Rightarrow> addr) \<Rightarrow> addr \<Rightarrow> user \<Rightarrow> (int \<times> user) option" where
  "err_big_fd lit buf s =
     do {
       (fail, s) \<leftarrow> expect_fail (ece391_read BIG_FD buf 31) (lit (ascii ''read fail\<newline>'')) 0 s;
       (fail, s) \<leftarrow> expect_fail (ece391_write BIG_FD buf 31) (lit (ascii ''write fail\<newline>'')) fail s;
       (fail, s) \<leftarrow> expect_fail (ece391_close BIG_FD) (lit (ascii ''close fail\<newline>'')) fail s;
       report lit ''err_big_fd'' fail s
     }"

text \<open>The two loops of \<open>err_open_lots\<close>.\<close>

fun open_lots :: "(u8 list \<Rightarrow> addr) \<Rightarrow> nat \<Rightarrow> int \<Rightarrow> user \<Rightarrow> (int \<times> user) option" where
  "open_lots lit 0 cnt s = Some (cnt, s)"
| "open_lots lit (Suc n) cnt s =
     do {
       (r, s) \<leftarrow> ece391_open (lit (ascii ''.'')) s;
       open_lots lit n (if - 1 = r then cnt + 1 else cnt) s
     }"

fun close_lots :: "int list \<Rightarrow> user \<Rightarrow> user option" where
  "close_lots [] s = Some s"
| "close_lots (i # is) s =
     do {
       (r, s) \<leftarrow> ece391_close i s;
       close_lots is s
     }"

definition err_open_lots :: "(u8 list \<Rightarrow> addr) \<Rightarrow> user \<Rightarrow> (int \<times> user) option" where
  "err_open_lots lit s =
     do {
       (cnt, s) \<leftarrow> open_lots lit 7 0 s;
       s \<leftarrow> close_lots [2..7] s;
       report lit ''err_open_lots'' (if cnt = 1 then 0 else 2) s
     }"

definition err_open :: "(u8 list \<Rightarrow> addr) \<Rightarrow> user \<Rightarrow> (int \<times> user) option" where
  "err_open lit s =
     do {
       (fail, s) \<leftarrow> expect_fail (ece391_open (lit (ascii ''helloo''))) (lit (ascii (CHR 0x27 # ''helloo'' @ CHR 0x27 # '' fail\<newline>''))) 0 s;
       (fail, s) \<leftarrow> expect_fail (ece391_open (lit (ascii ''shel''))) (lit (ascii (CHR 0x27 # ''shel'' @ CHR 0x27 # '' fail\<newline>''))) fail s;
       (fail, s) \<leftarrow> expect_fail (ece391_open (lit (ascii ''''))) (lit (ascii ''empty string fail\<newline>'')) fail s;
       report lit ''err_open'' fail s
     }"

definition err_unopened :: "(u8 list \<Rightarrow> addr) \<Rightarrow> addr \<Rightarrow> user \<Rightarrow> (int \<times> user) option" where
  "err_unopened lit buf s =
     do {
       (fail, s) \<leftarrow> expect_each ece391_close (lit (ascii ''close unopened or invalid fd fail\<newline>'')) [0..7] 0 s;
       (fail, s) \<leftarrow> expect_each (\<lambda>i. ece391_read i buf 31) (lit (ascii ''read from unopened fd fail\<newline>'')) [2..7] fail s;
       (fail, s) \<leftarrow> expect_each (\<lambda>i. ece391_write i buf 31) (lit (ascii ''write to unopened fd fail\<newline>'')) [2..7] fail s;
       report lit ''err_unopened'' fail s
     }"

definition err_vidmap :: "(u8 list \<Rightarrow> addr) \<Rightarrow> user \<Rightarrow> (int \<times> user) option" where
  "err_vidmap lit s =
     do {
       (fail, s) \<leftarrow> expect_fail (ece391_vidmap 0) (lit (ascii ''Null pointer fail\<newline>'')) 0 s;
       (fail, s) \<leftarrow> expect_fail (ece391_vidmap 0x400000) (lit (ascii ''Kernel pointer fail fail\<newline>'')) fail s;
       report lit ''err_vidmap'' fail s
     }"

definition err_stdin_out :: "(u8 list \<Rightarrow> addr) \<Rightarrow> addr \<Rightarrow> user \<Rightarrow> (int \<times> user) option" where
  "err_stdin_out lit buf s =
     do {
       (fail, s) \<leftarrow> expect_fail (ece391_write 0 buf 31) (lit (ascii ''write to stdin fail\<newline>'')) 0 s;
       (fail, s) \<leftarrow> expect_fail (ece391_read 1 buf 31) (lit (ascii ''read from stdout fail\<newline>'')) fail s;
       report lit ''err_stdin_out'' fail s
     }"

definition err_syscall_num :: "(u8 list \<Rightarrow> addr) \<Rightarrow> u32 \<times> u32 \<times> u32 \<Rightarrow> user \<Rightarrow> (int \<times> user) option" where
  "err_syscall_num lit regs s =
     do {
       (fail, s) \<leftarrow> expect_fail (call_sys regs BIG_NUM) (lit (ascii ''syscall 0 fail\<newline>'')) 0 s;
       (fail, s) \<leftarrow> expect_fail (call_sys regs NEG_NUM) (lit (ascii ''big num syscall fail\<newline>'')) fail s;
       (fail, s) \<leftarrow> expect_fail (call_sys regs 0) (lit (ascii ''neg num syscall fail\<newline>'')) fail s;
       report lit ''err_syscall_num'' fail s
     }"

text \<open>The case 0 of \<open>main\<close>; \<open>buf\<close> is the array of the tests.\<close>

definition syserr_all :: "(u8 list \<Rightarrow> addr) \<Rightarrow> addr \<Rightarrow> u32 \<times> u32 \<times> u32 \<Rightarrow> user \<Rightarrow> (int \<times> user) option" where
  "syserr_all lit buf regs s =
     do {
       (f1, s) \<leftarrow> err_neg_fd lit buf s;
       (f2, s) \<leftarrow> err_big_fd lit buf s;
       (f3, s) \<leftarrow> err_open_lots lit s;
       (f4, s) \<leftarrow> err_open lit s;
       (f5, s) \<leftarrow> err_unopened lit buf s;
       (f6, s) \<leftarrow> err_vidmap lit s;
       (f7, s) \<leftarrow> err_stdin_out lit buf s;
       (f8, s) \<leftarrow> err_syscall_num lit regs s;
       let fail = f1 + f2 + f3 + f4 + f5 + f6 + f7 + f8;
       s \<leftarrow> ece391_fdputs 1 (lit (ascii (if fail \<noteq> 0 then ''\<newline>Overall Tests: FAIL\<newline>'' else ''\<newline>Overall Tests: PASS\<newline>''))) s;
       Some (fail, s)
     }"

definition syserr_main :: "(u8 list \<Rightarrow> addr) \<Rightarrow> addr \<Rightarrow> addr \<Rightarrow> u32 \<times> u32 \<times> u32 \<Rightarrow> user \<Rightarrow> (int \<times> user) option" where
  "syserr_main lit mbuf buf regs s =
     do {
       s \<leftarrow> ece391_fdputs 1 (lit (ascii ''Choose from tests 1-8. 0 to run all: '')) s;
       (cnt, s) \<leftarrow> ece391_read 0 mbuf 127 s;
       if - 1 = cnt then do {
         s \<leftarrow> ece391_fdputs 1 (lit (ascii ''Can't read test #\<newline>'')) s;
         Some (2, s)
       }
       else (let select = uint (umem s mbuf) - 48 in
         if select = 0 then syserr_all lit buf regs s
         else if select = 1 then err_neg_fd lit buf s
         else if select = 2 then err_big_fd lit buf s
         else if select = 3 then err_open_lots lit s
         else if select = 4 then err_open lit s
         else if select = 5 then err_unopened lit buf s
         else if select = 6 then err_vidmap lit s
         else if select = 7 then err_stdin_out lit buf s
         else if select = 8 then err_syscall_num lit regs s
         else do {
           s \<leftarrow> ece391_fdputs 1 (lit (ascii ''Invalid test number. Choose from tests 1-8 or 0'')) s;
           Some (0, s)
         })
     }"

section \<open>The state the tests run in\<close>

definition suite_strings :: "u8 list list" where
  "suite_strings = map ascii [''.'', ''helloo'', ''shel'', '''', ''err_neg_fd: PASS\<newline>'', ''err_big_fd: PASS\<newline>'',
     ''err_open_lots: PASS\<newline>'', ''err_open: PASS\<newline>'', ''err_unopened: PASS\<newline>'', ''err_vidmap: PASS\<newline>'',
     ''err_stdin_out: PASS\<newline>'', ''err_syscall_num: PASS\<newline>'', ''\<newline>Overall Tests: PASS\<newline>'']"

text \<open>\<open>A\<close> is the set of the descriptors above 1 that are open, all on the directory.\<close>

definition suite :: "int \<Rightarrow> (u8 list \<Rightarrow> addr) \<Rightarrow> int set \<Rightarrow> user \<Rightarrow> bool" where
  "suite p lit A s \<longleftrightarrow> user_ok p s \<and> (\<forall>x \<in> set suite_strings. literal lit 0 0 x s) \<and>
     fd_flags (own_fd p s 0) = 1 \<and> jump_ptr (own_fd p s 0) = stdin_table \<and>
     fd_flags (own_fd p s 1) = 1 \<and> jump_ptr (own_fd p s 1) = stdout_table \<and>
     (\<forall>i. 2 \<le> i \<and> i \<le> 7 \<longrightarrow> (if i \<in> A then fd_flags (own_fd p s i) = 1 \<and> jump_ptr (own_fd p s i) = dir_table
        else fd_flags (own_fd p s i) = - 1)) \<and>
     (\<exists>j. lookup_name (vmem s) (fs_start s) (ascii ''.'') = Some j \<and>
        file_type (vmem s) (dentry_addr (fs_start s) (of_nat j)) = 1) \<and>
     lookup_name (vmem s) (fs_start s) (ascii ''helloo'') = None \<and> lookup_name (vmem s) (fs_start s) (ascii ''shel'') = None"

lemma suite_files:
  assumes "suite p lit A s" "outputs p bs s t" "user_ok p t" "\<And>a. a \<in> main_region \<Longrightarrow> vmem t a = vmem s a"
  shows "(\<forall>x \<in> set suite_strings. literal lit 0 0 x t) \<and>
     (\<exists>j. lookup_name (vmem t) (fs_start t) (ascii ''.'') = Some j \<and>
        file_type (vmem t) (dentry_addr (fs_start t) (of_nat j)) = 1) \<and>
     lookup_name (vmem t) (fs_start t) (ascii ''helloo'') = None \<and> lookup_name (vmem t) (fs_start t) (ascii ''shel'') = None"
proof -
  have u: "user_ok p s" using assms(1) by (simp add: suite_def)
  note f = outputs_files [OF u assms(2)]
  obtain j where j: "lookup_name (vmem s) (fs_start s) (ascii ''.'') = Some j"
    "file_type (vmem s) (dentry_addr (fs_start s) (of_nat j)) = 1" using assms(1) by (auto simp: suite_def)
  have "literal lit 0 0 x t" if "x \<in> set suite_strings" for x
    using assms(1,4) that by (simp add: suite_def) (rule literal_kept [where s = s]; simp)
  moreover have "lookup_name (vmem t) (fs_start t) (ascii ''.'') = Some j" using f(5) j(1) by (rule trans)
  moreover have "file_type (vmem t) (dentry_addr (fs_start t) (of_nat j)) = 1"
    using f(4) [OF lookup_bound(2) [OF j(1)]] j(2) by simp
  moreover have "lookup_name (vmem s) (fs_start s) (ascii ''helloo'') = None" "lookup_name (vmem s) (fs_start s) (ascii ''shel'') = None"
    using assms(1) unfolding suite_def by blast+
  then have "lookup_name (vmem t) (fs_start t) (ascii ''helloo'') = None" "lookup_name (vmem t) (fs_start t) (ascii ''shel'') = None"
    using f(5) by metis+
  ultimately show ?thesis by blast
qed

lemma suite_same:
  assumes "suite p lit A s" "outputs p bs s t" "user_ok p t" "\<And>a. a \<in> main_region \<Longrightarrow> vmem t a = vmem s a" "pcbs t = pcbs s"
  shows "suite p lit A t"
  using assms(1,3,5) suite_files [OF assms(1-4)] by (simp add: suite_def)

lemma suite_returned:
  assumes "suite p lit A s"
  shows "suite p lit A (returned s)" "outputs p [] s (returned s)"
proof -
  have u: "user_ok p s" using assms by (simp add: suite_def)
  note r = returned_ok [OF u]
  show "outputs p [] s (returned s)" by (rule r)
  show "suite p lit A (returned s)" by (rule suite_same [OF assms r(2,1)]) (simp_all add: r)
qed

lemma suite_puts:
  assumes "suite p lit A s" "x \<in> set suite_strings"
  shows "\<exists>t. ece391_fdputs 1 (lit x) s = Some t \<and> suite p lit A t \<and> outputs p x s t"
proof -
  have u: "user_ok p s" "fd_flags (own_fd p s 1) \<noteq> - 1" "jump_ptr (own_fd p s 1) = stdout_table" "literal lit 0 0 x s"
    using assms by (simp_all add: suite_def)
  show ?thesis
    by (rule literal_puts [OF u]) (use suite_same [OF assms(1)] in blast)
qed

lemma expect_fail_returned:
  "call s = Some (- 1, returned s) \<Longrightarrow> expect_fail call msg fail s = Some (fail, returned s)"
  by (simp add: expect_fail_def)

lemma bad_fd:
  assumes "fd < 0 \<or> fd > 7" "- (2 ^ 31) \<le> fd" "fd < 2 ^ 31"
  shows "ece391_read fd buf n s = Some (- 1, returned s)" "ece391_write fd buf n s = Some (- 1, returned s)"
    "ece391_close fd s = Some (- 1, returned s)"
  using assms
  by (auto simp: ece391_read_def ece391_write_def ece391_close_def syscalls sys_read_def sys_write_def sys_close_def returned_def)

lemma closed_fd:
  assumes "suite p lit {} s" "2 \<le> fd" "fd \<le> 7"
  shows "ece391_read fd buf n s = Some (- 1, returned s)" "ece391_write fd buf n s = Some (- 1, returned s)"
    "ece391_close fd s = Some (- 1, returned s)"
proof -
  have u: "user_ok p s" "fd_flags (own_fd p s fd) = - 1" using assms by (simp_all add: suite_def)
  then show "ece391_read fd buf n s = Some (- 1, returned s)" "ece391_write fd buf n s = Some (- 1, returned s)"
    "ece391_close fd s = Some (- 1, returned s)"
    using assms(2,3)
    by (simp_all add: ece391_read_def ece391_write_def ece391_close_def syscalls sys_read_def sys_write_def sys_close_def
        returned_def entered_ok Let_def)
qed

lemma expect_each_fails:
  assumes "suite p lit {} s" "\<And>i s. i \<in> set is \<Longrightarrow> suite p lit {} s \<Longrightarrow> call i s = Some (- 1, returned s)"
  shows "\<exists>t. expect_each call msg is fail s = Some (fail, t) \<and> suite p lit {} t \<and> outputs p [] s t"
  using assms
proof (induction "is" arbitrary: s)
  case (Cons i "is")
  note r = suite_returned [OF Cons.prems(1)]
  have "expect_fail (call i) msg fail s = Some (fail, returned s)"
    using Cons.prems by (intro expect_fail_returned) simp
  moreover obtain t where "expect_each call msg is fail (returned s) = Some (fail, t)" "suite p lit {} t" "outputs p [] (returned s) t"
    using Cons.IH [OF r(1)] Cons.prems(2) by auto
  ultimately show ?case using outputs_trans [OF r(2)] by fastforce
qed simp

section \<open>Opening and closing\<close>

lemma literal_name: "literal lit buf n x s \<Longrightarrow> names_file s (lit x) x"
  by (simp add: literal_def names_file_def user_range_def main_region_def)

lemma suite_open:
  assumes "suite p lit A s" "A = {2..<2 + int k}"
  shows "k < 6 \<Longrightarrow> \<exists>t. ece391_open (lit (ascii ''.'')) s = Some (2 + int k, t) \<and> suite p lit {2..<2 + int (Suc k)} t \<and> outputs p [] s t"
    "k = 6 \<Longrightarrow> ece391_open (lit (ascii ''.'')) s = Some (- 1, returned s)"
proof -
  have u: "user_ok p s" using assms(1) by (simp add: suite_def)
  have nf: "names_file s (lit (ascii ''.'')) (ascii ''.'')"
    by (rule literal_name [of _ 0 0]) (use assms(1) in \<open>simp add: suite_def suite_strings_def\<close>)
  have nm: "\<not> terminal_name (ascii ''.'')" "plain_name (ascii ''.'')"
    by (simp_all add: terminal_name_def ascii_def stdin_name_def stdout_name_def plain_name_def)
  obtain j where j: "lookup_name (vmem s) (fs_start s) (ascii ''.'') = Some j"
    "file_type (vmem s) (dentry_addr (fs_start s) (of_nat j)) = 1" using assms(1) by (auto simp: suite_def)
  have fl: "fd_flags (own_fd p s i) = (if i < 2 + int k then 1 else - 1)" if "2 \<le> i" "i \<le> 7" for i
    using assms that by (auto simp: suite_def split: if_splits)
  show "\<exists>t. ece391_open (lit (ascii ''.'')) s = Some (2 + int k, t) \<and> suite p lit {2..<2 + int (Suc k)} t \<and> outputs p [] s t"
    if k: "k < 6"
  proof -
    have fr: "free_fd (pcbs s (pcb_addr p)) = Some (2 + int k)"
    proof -
      have "k = 0 \<or> k = 1 \<or> k = 2 \<or> k = 3 \<or> k = 4 \<or> k = 5" using k by auto
      then show ?thesis by (elim disjE) (simp_all add: free_fd_def upto.simps fl)
    qed
    obtain t where t: "ece391_open (lit (ascii ''.'')) s = Some (2 + int k, t)" "user_ok p t" "outputs p [] s t" "vmem t = vmem s"
      "pcbs t = (pcbs s)(pcb_addr p := (pcbs s (pcb_addr p))\<lparr>fdt := (fdt (pcbs s (pcb_addr p)))
         (2 + int k := fresh_fd 1 (inode_num (vmem s) (dentry_addr (fs_start s) (of_nat j))))\<rparr>)"
      by (rule open_call [OF u nf nm j(1) refl _ fr]) (use j(2) in auto)
    have own: "own_fd p t i = (if i = 2 + int k then fresh_fd 1 (inode_num (vmem s) (dentry_addr (fs_start s) (of_nat j))) else own_fd p s i)" for i
      using t(5) by simp
    have "suite p lit {2..<2 + int (Suc k)} t"
      using assms t(2) suite_files [OF assms(1) t(3,2)] t(4) k unfolding suite_def own by (auto simp: fresh_fd_def split: if_splits)
    then show ?thesis using t by blast
  qed
  show "ece391_open (lit (ascii ''.'')) s = Some (- 1, returned s)" if k: "k = 6"
  proof -
    have fr: "free_fd (pcbs s (pcb_addr p)) = None" by (simp add: free_fd_def upto.simps fl k)
    note e = entered_ok [OF u]
    have "names_file (entered s) (lit (ascii ''.'')) (ascii ''.'')" using nf by (simp add: names_file_def)
    moreover have "image_ok (entered s)" using e(4) by (simp add: files_ok_def)
    ultimately have "sys_open (lit (ascii ''.'')) (entered s) = (- 1, entered s)"
      using sys_open_lookup(1) [OF e(1) _ nm] j(1) fr by (simp add: e(6))
    then show ?thesis by (simp add: ece391_open_def syscalls returned_def)
  qed
qed

lemma suite_close:
  assumes "suite p lit A s" "i \<in> A" "2 \<le> i" "i \<le> 7"
  shows "\<exists>t. ece391_close i s = Some (0, t) \<and> suite p lit (A - {i}) t \<and> outputs p [] s t"
proof -
  have u: "user_ok p s" "fd_flags (own_fd p s i) = 1" "jump_ptr (own_fd p s i) = dir_table"
    using assms by (auto simp: suite_def split: if_splits)
  note e = entered_ok [OF u(1)]
  let ?t = "upd_fd i (\<lambda>d. d\<lparr>fd_flags := - 1\<rparr>) (entered s)"
  have c: "ece391_close i s = Some (0, ?t\<lparr>script := stl (script s)\<rparr>)"
    using assms(3,4) u by (simp add: ece391_close_def syscalls sys_close_def e dir_close_def)
  have id: "(entered s)\<lparr>pmem := pmem s\<rparr> = entered s" by (simp add: entered_def trap_def sti_def)
  have f: "own_frame p (entered s) (pmem s)" by (simp add: own_frame_def)
  have t: "?t = upd_fd i (\<lambda>d. d\<lparr>fd_flags := - 1\<rparr>) ((entered s)\<lparr>pmem := pmem s\<rparr>)" by (simp only: id)
  note st = store_call [OF u(1) f _ disjI2 [OF t]]
  have o: "outputs p [] s ?t" "user_ok p (?t\<lparr>script := stl (script s)\<rparr>)" using st(1,2) by (simp_all add: id)
  have own: "own_fd p (?t\<lparr>script := x\<rparr>) k = (if k = i then (own_fd p s i)\<lparr>fd_flags := - 1\<rparr> else own_fd p s k)" for k x
    using e(5,6) by (simp add: upd_fd_def upd_pcb_def)
  have v: "vmem (?t\<lparr>script := stl (script s)\<rparr>) = vmem s" by simp
  have "suite p lit (A - {i}) (?t\<lparr>script := stl (script s)\<rparr>)"
    using assms suite_files [OF assms(1), of "[]" "?t\<lparr>script := stl (script s)\<rparr>"] o v unfolding suite_def own by auto
  then show ?thesis using c o by auto
qed

lemma close_lots_all:
  assumes "suite p lit A s" "A = set is" "distinct is" "\<forall>i \<in> set is. 2 \<le> i \<and> i \<le> 7"
  shows "\<exists>t. close_lots is s = Some t \<and> suite p lit {} t \<and> outputs p [] s t"
  using assms
proof (induction "is" arbitrary: s A)
  case (Cons i "is")
  obtain t where t: "ece391_close i s = Some (0, t)" "suite p lit (A - {i}) t" "outputs p [] s t"
    using suite_close [OF Cons.prems(1), of i] Cons.prems by auto
  have "A - {i} = set is" using Cons.prems(2,3) by auto
  then obtain u where u: "close_lots is t = Some u" "suite p lit {} u" "outputs p [] t u"
    using Cons.IH [OF t(2)] Cons.prems by auto
  then show ?case using t(1) outputs_trans [OF t(3) u(3)] by simp
qed auto

lemma open_lots_seven:
  assumes "suite p lit {} s"
  shows "\<exists>t. open_lots lit 7 0 s = Some (1, t) \<and> suite p lit {2..7} t \<and> outputs p [] s t"
proof -
  have lots: "\<exists>t. open_lots lit (7 - k) 0 s = Some (1, t) \<and> suite p lit {2..<8} t \<and> outputs p [] s t"
    if "suite p lit {2..<2 + int k} s" "k \<le> 6" for k s
    using that
  proof (induction "6 - k" arbitrary: k s)
    case 0
    then have k: "k = 6" by simp
    from suite_open(2) [OF 0(2) refl k] suite_returned [OF 0(2)] show ?case by (auto simp: k numeral_eq_Suc)
  next
    case (Suc m)
    then have k: "k < 6" by simp
    obtain t where t: "ece391_open (lit (ascii ''.'')) s = Some (2 + int k, t)" "suite p lit {2..<2 + int (Suc k)} t" "outputs p [] s t"
      using suite_open(1) [OF Suc.prems(1) refl k] by blast
    have n: "7 - k = Suc (7 - Suc k)" using k by simp
    obtain u where u: "open_lots lit (7 - Suc k) 0 t = Some (1, u)" "suite p lit {2..<8} u" "outputs p [] t u"
      using Suc.hyps(1) [OF _ t(2)] Suc.hyps(2) k by fastforce
    then show ?case using t(1) outputs_trans [OF t(3) u(3)] by (simp add: n)
  qed
  have "{2..<8} = {2..7 :: int}" by auto
  then show ?thesis using lots [of 0 s] assms by simp
qed

section \<open>The tests pass\<close>

text \<open>One test: it returns 0, prints its line and leaves the state the next one runs in.\<close>

definition passes :: "int \<Rightarrow> (u8 list \<Rightarrow> addr) \<Rightarrow> string \<Rightarrow> (user \<Rightarrow> (int \<times> user) option) \<Rightarrow> bool" where
  "passes p lit name test \<longleftrightarrow>
     (\<forall>s. suite p lit {} s \<longrightarrow>
        (\<exists>t. test s = Some (0, t) \<and> suite p lit {} t \<and> outputs p (ascii (name @ '': PASS\<newline>'')) s t))"

lemma passesD:
  assumes "passes p lit name test" "suite p lit {} s"
  obtains t where "test s = Some (0, t)" "suite p lit {} t" "outputs p (ascii (name @ '': PASS\<newline>'')) s t"
  using assms by (auto simp: passes_def)

lemma report_pass:
  assumes "suite p lit {} s" "outputs p [] s0 s" "ascii (name @ '': PASS\<newline>'') \<in> set suite_strings"
  shows "\<exists>t. report lit name 0 s = Some (0, t) \<and> suite p lit {} t \<and> outputs p (ascii (name @ '': PASS\<newline>'')) s0 t"
proof -
  obtain t where t: "ece391_fdputs 1 (lit (ascii (name @ '': PASS\<newline>''))) s = Some t" "suite p lit {} t"
    "outputs p (ascii (name @ '': PASS\<newline>'')) s t" using suite_puts [OF assms(1,3)] by blast
  then show ?thesis using outputs_trans [OF assms(2) t(3)] by (intro exI [of _ t]) (simp add: report_def)
qed

lemma three_calls:
  assumes "suite p lit {} s"
    and "\<And>s. suite p lit {} s \<Longrightarrow> c1 s = Some (- 1, returned s)" "\<And>s. suite p lit {} s \<Longrightarrow> c2 s = Some (- 1, returned s)"
    and "\<And>s. suite p lit {} s \<Longrightarrow> c3 s = Some (- 1, returned s)"
  shows "expect_fail c1 m1 0 s = Some (0, returned s)" "expect_fail c2 m2 0 (returned s) = Some (0, returned (returned s))"
    "expect_fail c3 m3 0 (returned (returned s)) = Some (0, returned (returned (returned s)))"
    "suite p lit {} (returned (returned s))" "outputs p [] s (returned (returned s))"
    "suite p lit {} (returned (returned (returned s)))" "outputs p [] s (returned (returned (returned s)))"
proof -
  note r1 = suite_returned [OF assms(1)]
  note r2 = suite_returned [OF r1(1)]
  note r3 = suite_returned [OF r2(1)]
  show "expect_fail c1 m1 0 s = Some (0, returned s)" "expect_fail c2 m2 0 (returned s) = Some (0, returned (returned s))"
    "expect_fail c3 m3 0 (returned (returned s)) = Some (0, returned (returned (returned s)))"
    using assms(2) [OF assms(1)] assms(3) [OF r1(1)] assms(4) [OF r2(1)] by (simp_all add: expect_fail_returned)
  show "suite p lit {} (returned (returned s))" "suite p lit {} (returned (returned (returned s)))" by (rule r2 r3)+
  show "outputs p [] s (returned (returned s))" "outputs p [] s (returned (returned (returned s)))"
    using outputs_trans [OF r1(2) r2(2)] outputs_trans [OF r1(2) outputs_trans [OF r2(2) r3(2)]] by simp_all
qed

lemma passes_three:
  assumes "\<And>s. suite p lit {} s \<Longrightarrow> c1 s = Some (- 1, returned s)" "\<And>s. suite p lit {} s \<Longrightarrow> c2 s = Some (- 1, returned s)"
    and "\<And>s. suite p lit {} s \<Longrightarrow> c3 s = Some (- 1, returned s)" "ascii (name @ '': PASS\<newline>'') \<in> set suite_strings"
  shows "passes p lit name (\<lambda>s. do {
      (fail, s) \<leftarrow> expect_fail c1 m1 0 s; (fail, s) \<leftarrow> expect_fail c2 m2 fail s;
      (fail, s) \<leftarrow> expect_fail c3 m3 fail s; report lit name fail s })"
  unfolding passes_def
proof (intro allI impI)
  fix s assume "suite p lit {} s"
  note c = three_calls [OF this assms(1-3)]
  from report_pass [OF c(6,7) assms(4)]
  show "\<exists>t. do { (fail, s) \<leftarrow> expect_fail c1 m1 0 s; (fail, s) \<leftarrow> expect_fail c2 m2 fail s;
      (fail, s) \<leftarrow> expect_fail c3 m3 fail s; report lit name fail s } = Some (0, t) \<and> suite p lit {} t \<and>
      outputs p (ascii (name @ '': PASS\<newline>'')) s t"
    by (simp add: c)
qed

lemma passes_two:
  assumes "\<And>s. suite p lit {} s \<Longrightarrow> c1 s = Some (- 1, returned s)" "\<And>s. suite p lit {} s \<Longrightarrow> c2 s = Some (- 1, returned s)"
    and "ascii (name @ '': PASS\<newline>'') \<in> set suite_strings"
  shows "passes p lit name (\<lambda>s. do {
      (fail, s) \<leftarrow> expect_fail c1 m1 0 s; (fail, s) \<leftarrow> expect_fail c2 m2 fail s; report lit name fail s })"
  unfolding passes_def
proof (intro allI impI)
  fix s assume "suite p lit {} s"
  note c = three_calls [OF this assms(1,2,2)]
  from report_pass [OF c(4,5) assms(3)]
  show "\<exists>t. do { (fail, s) \<leftarrow> expect_fail c1 m1 0 s; (fail, s) \<leftarrow> expect_fail c2 m2 fail s;
      report lit name fail s } = Some (0, t) \<and> suite p lit {} t \<and> outputs p (ascii (name @ '': PASS\<newline>'')) s t"
    by (simp add: c)
qed

lemma fd_tests_pass:
  "passes p lit ''err_neg_fd'' (err_neg_fd lit buf)" "passes p lit ''err_big_fd'' (err_big_fd lit buf)"
proof -
  have "passes p lit ''err_neg_fd'' (\<lambda>s. err_neg_fd lit buf s)"
    unfolding err_neg_fd_def by (rule passes_three) (simp_all add: bad_fd suite_strings_def)
  then show "passes p lit ''err_neg_fd'' (err_neg_fd lit buf)" by simp
  have "passes p lit ''err_big_fd'' (\<lambda>s. err_big_fd lit buf s)"
    unfolding err_big_fd_def by (rule passes_three) (simp_all add: bad_fd suite_strings_def)
  then show "passes p lit ''err_big_fd'' (err_big_fd lit buf)" by simp
qed

lemma err_open_lots_passes: "passes p lit ''err_open_lots'' (err_open_lots lit)"
  unfolding passes_def
proof (intro allI impI)
  fix s assume s: "suite p lit {} s"
  obtain t where t: "open_lots lit 7 0 s = Some (1, t)" "suite p lit {2..7} t" "outputs p [] s t"
    using open_lots_seven [OF s] by blast
  obtain u where u: "close_lots [2..7] t = Some u" "suite p lit {} u" "outputs p [] t u"
    using close_lots_all [OF t(2) set_upto [symmetric]] by (auto simp del: close_lots.simps)
  have o: "outputs p [] s u" using outputs_trans [OF t(3) u(3)] by simp
  have "ascii (''err_open_lots'' @ '': PASS\<newline>'') \<in> set suite_strings" by (simp add: suite_strings_def)
  from report_pass [OF u(2) o this]
  show "\<exists>t. err_open_lots lit s = Some (0, t) \<and> suite p lit {} t \<and> outputs p (ascii (''err_open_lots'' @ '': PASS\<newline>'')) s t"
    by (simp only: err_open_lots_def t(1) u(1) Option.bind.simps prod.case simp_thms if_True)
qed

lemma suite_open_fails:
  assumes "suite p lit {} s" "x \<in> {ascii ''helloo'', ascii ''shel'', ascii ''''}"
  shows "ece391_open (lit x) s = Some (- 1, returned s)"
proof -
  have u: "user_ok p s" and l: "literal lit 0 0 x s"
    and lk: "lookup_name (vmem s) (fs_start s) (ascii ''helloo'') = None" "lookup_name (vmem s) (fs_start s) (ascii ''shel'') = None"
    using assms unfolding suite_def by (auto simp: suite_strings_def)
  note nf = literal_name [OF l]
  show ?thesis
  proof (cases "x = []")
    case True
    note e = entered_ok [OF u]
    have "names_file (entered s) (lit x) x" using nf by (simp add: names_file_def)
    from sys_open_cases(1) [OF e(1) this True] show ?thesis by (simp add: ece391_open_def syscalls returned_def)
  next
    case False
    have "\<not> terminal_name x" "plain_name x" "lookup_name (vmem s) (fs_start s) x = None"
      using False assms(2) lk by (auto simp: terminal_name_def ascii_def stdin_name_def stdout_name_def plain_name_def)
    then show ?thesis by (intro open_missing [OF u nf])
  qed
qed

lemma err_open_passes: "passes p lit ''err_open'' (err_open lit)"
proof -
  have "passes p lit ''err_open'' (\<lambda>s. err_open lit s)"
    unfolding err_open_def by (rule passes_three) (simp_all add: suite_open_fails suite_strings_def)
  then show ?thesis by simp
qed

lemma err_unopened_passes: "passes p lit ''err_unopened'' (err_unopened lit buf)"
  unfolding passes_def
proof (intro allI impI)
  fix s assume s: "suite p lit {} s"
  let ?m = "\<lambda>x. lit (ascii x)"
  have cl: "ece391_close i s = Some (- 1, returned s)" if "i \<in> set [0..7]" "suite p lit {} s" for i s
    using that closed_fd(3) [OF that(2), of i]
    by (cases "2 \<le> i") (auto simp: ece391_close_def syscalls sys_close_def returned_def)
  obtain t where t: "expect_each ece391_close (?m ''close unopened or invalid fd fail\<newline>'') [0..7] 0 s = Some (0, t)"
    "suite p lit {} t" "outputs p [] s t" using expect_each_fails [OF s, of "[0..7]" ece391_close] cl by blast
  obtain u where u: "expect_each (\<lambda>i. ece391_read i buf 31) (?m ''read from unopened fd fail\<newline>'') [2..7] 0 t = Some (0, u)"
    "suite p lit {} u" "outputs p [] t u"
    using expect_each_fails [OF t(2), of "[2..7]" "\<lambda>i. ece391_read i buf 31"] closed_fd(1) by fastforce
  obtain v where v: "expect_each (\<lambda>i. ece391_write i buf 31) (?m ''write to unopened fd fail\<newline>'') [2..7] 0 u = Some (0, v)"
    "suite p lit {} v" "outputs p [] u v"
    using expect_each_fails [OF u(2), of "[2..7]" "\<lambda>i. ece391_write i buf 31"] closed_fd(2) by fastforce
  have o: "outputs p [] s v" using outputs_trans [OF t(3) outputs_trans [OF u(3) v(3)]] by simp
  have "ascii (''err_unopened'' @ '': PASS\<newline>'') \<in> set suite_strings" by (simp add: suite_strings_def)
  from report_pass [OF v(2) o this]
  show "\<exists>t. err_unopened lit buf s = Some (0, t) \<and> suite p lit {} t \<and> outputs p (ascii (''err_unopened'' @ '': PASS\<newline>'')) s t"
    by (simp only: err_unopened_def t(1) u(1) v(1) Option.bind.simps prod.case)
qed

lemma err_vidmap_passes: "passes p lit ''err_vidmap'' (err_vidmap lit)"
proof -
  have "passes p lit ''err_vidmap'' (\<lambda>s. err_vidmap lit s)"
    unfolding err_vidmap_def
    by (rule passes_two) (simp_all add: ece391_vidmap_def syscalls vidmap_def returned_def suite_strings_def)
  then show ?thesis by simp
qed

lemma err_stdin_out_passes: "passes p lit ''err_stdin_out'' (err_stdin_out lit buf)"
proof -
  have w: "ece391_write 0 buf 31 s = Some (- 1, returned s)" "ece391_read 1 buf 31 s = Some (- 1, returned s)"
    if "suite p lit {} s" for s
  proof -
    have u: "user_ok p s" "fd_flags (own_fd p s 0) = 1" "jump_ptr (own_fd p s 0) = stdin_table"
      "fd_flags (own_fd p s 1) = 1" "jump_ptr (own_fd p s 1) = stdout_table" using that by (simp_all add: suite_def)
    show "ece391_write 0 buf 31 s = Some (- 1, returned s)" "ece391_read 1 buf 31 s = Some (- 1, returned s)"
      by (simp_all add: ece391_write_def ece391_read_def syscalls sys_write_def sys_read_def entered_ok [OF u(1)] u
          invalid_write_def invalid_read_def returned_def Let_def)
  qed
  have "passes p lit ''err_stdin_out'' (\<lambda>s. err_stdin_out lit buf s)"
    unfolding err_stdin_out_def by (rule passes_two) (simp_all add: w suite_strings_def)
  then show ?thesis by simp
qed

lemma err_syscall_num_passes: "passes p lit ''err_syscall_num'' (err_syscall_num lit regs)"
proof -
  have c: "call_sys regs n s = Some (- 1, returned s)" if "word_of_int n - 1 > (9 :: u32)" for n s
    using that by (simp add: call_sys_def split_beta syscall_def system_call_handler_def entered_def [symmetric] Let_def returned_def)
  have "passes p lit ''err_syscall_num'' (\<lambda>s. err_syscall_num lit regs s)"
    unfolding err_syscall_num_def by (rule passes_three) (simp_all add: c suite_strings_def)
  then show ?thesis by simp
qed

section \<open>An example state\<close>

text \<open>Process 1 with all descriptors closed and the constants in its page.\<close>

definition suite_lit :: "u8 list \<Rightarrow> addr" where
  "suite_lit = slot_lit suite_strings"

definition user2 :: user where
  "user2 = (user_with suite_strings)\<lparr>pcbs :=
     (\<lambda>_. pcb1\<lparr>fdt := (fdt pcb1)(2 := (fdt pcb1 2)\<lparr>fd_flags := - 1\<rparr>, 3 := (fdt pcb1 3)\<lparr>fd_flags := - 1\<rparr>)\<rparr>)\<rparr>"

lemma user2_suite: "suite 1 suite_lit {} user2"
proof -
  have sh: "short_strings suite_strings" by (auto simp: short_strings_def suite_strings_def ascii_def)
  note w = user_with_ok [OF sh]
  have ok: "user_ok 1 user2" using w(1) by (simp add: user2_def user_ok_pcbs)
  have vm: "vmem user2 = vmem (user_with suite_strings)" "fs_start user2 = fs_start (user_with suite_strings)" by (simp_all add: user2_def)
  note f = outputs_files [OF user1_ok w(2), folded vm]
  have ty: "file_type (vmem user2) (dentry_addr (fs_start user2) (of_nat 0)) = 1"
    using f(4) [of 0] user1_image user1_entries by (simp add: dentry_addr_def)
  have "literal suite_lit 0 0 x user2" if "x \<in> set suite_strings" for x
    using w(3) [OF that] by (simp add: literal_def suite_lit_def vm)
  moreover have "own_fd 1 user2 0 = fdt pcb1 0" "own_fd 1 user2 1 = fdt pcb1 1" by (simp_all add: user2_def)
  moreover have "fd_flags (own_fd 1 user2 i) = - 1" if "2 \<le> i" "i \<le> 7" for i
    using that by (auto simp: user2_def pcb1_def)
  moreover have "lookup_name (vmem user1) (fs_start user1) (ascii ''helloo'') = None"
    "lookup_name (vmem user1) (fs_start user1) (ascii ''shel'') = None" "lookup_name (vmem user1) (fs_start user1) (ascii ''.'') = Some 0"
    by (simp_all add: lookup_name_def user1_image two_entries dentry_addr_def user1_entries ascii_def shell_name_def)
  ultimately show ?thesis
    using ok ty by (simp add: suite_def f(5) pcb1_def)
qed

section \<open>Properties\<close>

text \<open>C16: The test program passes. Run by a process with no open files, with a directory that has an entry for itself and
  none of the misspelt names, all eight tests of \<open>ece391syserr\<close> report success: calls with a negative, too large or
  unopened descriptor, with a wrong file name, a bad pointer, the wrong direction of the terminal or an unknown number
  fail with -1 and leave everything as it was, and exactly six files can be opened.\<close>

theorem syserr_tests_pass:
  assumes "suite p lit {} s"
  shows "\<exists>t. syserr_all lit buf regs s = Some (0, t) \<and> user_ok p t \<and>
    outputs p (concat (map (\<lambda>x. ascii (x @ '': PASS\<newline>'')) [''err_neg_fd'', ''err_big_fd'', ''err_open_lots'', ''err_open'',
      ''err_unopened'', ''err_vidmap'', ''err_stdin_out'', ''err_syscall_num'']) @ ascii ''\<newline>Overall Tests: PASS\<newline>'') s t"
proof -
  obtain t1 where t1: "err_neg_fd lit buf s = Some (0, t1)" "suite p lit {} t1" "outputs p (ascii (''err_neg_fd'' @ '': PASS\<newline>'')) s t1"
    by (rule passesD [OF fd_tests_pass(1) assms])
  obtain t2 where t2: "err_big_fd lit buf t1 = Some (0, t2)" "suite p lit {} t2" "outputs p (ascii (''err_big_fd'' @ '': PASS\<newline>'')) t1 t2"
    by (rule passesD [OF fd_tests_pass(2) t1(2)])
  obtain t3 where t3: "err_open_lots lit t2 = Some (0, t3)" "suite p lit {} t3" "outputs p (ascii (''err_open_lots'' @ '': PASS\<newline>'')) t2 t3"
    by (rule passesD [OF err_open_lots_passes t2(2)])
  obtain t4 where t4: "err_open lit t3 = Some (0, t4)" "suite p lit {} t4" "outputs p (ascii (''err_open'' @ '': PASS\<newline>'')) t3 t4"
    by (rule passesD [OF err_open_passes t3(2)])
  obtain t5 where t5: "err_unopened lit buf t4 = Some (0, t5)" "suite p lit {} t5" "outputs p (ascii (''err_unopened'' @ '': PASS\<newline>'')) t4 t5"
    by (rule passesD [OF err_unopened_passes t4(2)])
  obtain t6 where t6: "err_vidmap lit t5 = Some (0, t6)" "suite p lit {} t6" "outputs p (ascii (''err_vidmap'' @ '': PASS\<newline>'')) t5 t6"
    by (rule passesD [OF err_vidmap_passes t5(2)])
  obtain t7 where t7: "err_stdin_out lit buf t6 = Some (0, t7)" "suite p lit {} t7" "outputs p (ascii (''err_stdin_out'' @ '': PASS\<newline>'')) t6 t7"
    by (rule passesD [OF err_stdin_out_passes t6(2)])
  obtain t8 where t8: "err_syscall_num lit regs t7 = Some (0, t8)" "suite p lit {} t8" "outputs p (ascii (''err_syscall_num'' @ '': PASS\<newline>'')) t7 t8"
    by (rule passesD [OF err_syscall_num_passes t7(2)])
  have "ascii ''\<newline>Overall Tests: PASS\<newline>'' \<in> set suite_strings" by (simp add: suite_strings_def)
  from suite_puts [OF t8(2) this] obtain u where u: "ece391_fdputs 1 (lit (ascii ''\<newline>Overall Tests: PASS\<newline>'')) t8 = Some u"
    "suite p lit {} u" "outputs p (ascii ''\<newline>Overall Tests: PASS\<newline>'') t8 u" by blast
  have "syserr_all lit buf regs s = Some (0, u)"
    unfolding syserr_all_def using t1(1) t2(1) t3(1) t4(1) t5(1) t6(1) t7(1) t8(1) u(1) by simp
  moreover note outputs_trans [OF t1(3) outputs_trans [OF t2(3) outputs_trans [OF t3(3) outputs_trans [OF t4(3)
    outputs_trans [OF t5(3) outputs_trans [OF t6(3) outputs_trans [OF t7(3) outputs_trans [OF t8(3) u(3)]]]]]]]]
  ultimately show ?thesis using u(2) by (intro exI [of _ u]) (simp add: suite_def)
qed

theorem syserr_tests_pass_witness: "\<exists>t. syserr_all suite_lit 0x8048000 (0, 0, 0) user2 = Some (0, t)"
  using syserr_tests_pass [OF user2_suite] by blast

end
