(* ===== verification/Segments.thy ===== *)
theory Segments
  imports Devices
begin

text \<open>
  The segment descriptors of \<open>student-distrib/x86_desc.h\<close> and \<open>x86_desc.S\<close>, and the two of them that \<open>entry\<close> in
  \<open>kernel.c\<close> fills in: the local descriptor table and the task state segment.
\<close>

section \<open>Descriptors\<close>

abbreviation (input) KERNEL_CS :: u16 where "KERNEL_CS \<equiv> 0x0010"
abbreviation (input) USER_CS :: u16 where "USER_CS \<equiv> 0x0023"
abbreviation (input) USER_DS :: u16 where "USER_DS \<equiv> 0x002B"
abbreviation (input) KERNEL_TSS :: u16 where "KERNEL_TSS \<equiv> 0x0030"
abbreviation (input) KERNEL_LDT :: u16 where "KERNEL_LDT \<equiv> 0x0038"
abbreviation (input) TSS_SIZE :: u32 where "TSS_SIZE \<equiv> 104"

record seg_desc =
  seg_lim_15_00 :: u16
  base_15_00 :: u16
  base_23_16 :: u8
  seg_type :: "4 word"
  seg_sys :: "1 word"
  seg_dpl :: "2 word"
  seg_present :: "1 word"
  seg_lim_19_16 :: "4 word"
  seg_avail :: "1 word"
  seg_reserved :: "1 word"
  opsize :: "1 word"
  granularity :: "1 word"
  base_31_24 :: u8

text \<open>The eight bytes of a descriptor, the fields packed from the lowest bit up.\<close>

definition seg_val :: "seg_desc \<Rightarrow> 64 word" where
  "seg_val d =
     ucast (seg_lim_15_00 d) OR push_bit 16 (ucast (base_15_00 d)) OR push_bit 32 (ucast (base_23_16 d)) OR
     push_bit 40 (ucast (seg_type d)) OR push_bit 44 (ucast (seg_sys d)) OR push_bit 45 (ucast (seg_dpl d)) OR
     push_bit 47 (ucast (seg_present d)) OR push_bit 48 (ucast (seg_lim_19_16 d)) OR push_bit 52 (ucast (seg_avail d)) OR
     push_bit 53 (ucast (seg_reserved d)) OR push_bit 54 (ucast (opsize d)) OR push_bit 55 (ucast (granularity d)) OR
     push_bit 56 (ucast (base_31_24 d))"

definition SET_LDT_PARAMS :: "u32 \<Rightarrow> u32 \<Rightarrow> seg_desc \<Rightarrow> seg_desc" where
  "SET_LDT_PARAMS addr lim str =
     str\<lparr>base_31_24 := ucast (drop_bit 24 (addr AND 0xFF000000)),
         base_23_16 := ucast (drop_bit 16 (addr AND 0x00FF0000)),
         base_15_00 := ucast (addr AND 0x0000FFFF),
         seg_lim_19_16 := ucast (drop_bit 16 (lim AND 0x000F0000)),
         seg_lim_15_00 := ucast (lim AND 0x0000FFFF)\<rparr>"

definition SET_TSS_PARAMS :: "u32 \<Rightarrow> u32 \<Rightarrow> seg_desc \<Rightarrow> seg_desc" where
  "SET_TSS_PARAMS addr lim str =
     str\<lparr>base_31_24 := ucast (drop_bit 24 (addr AND 0xFF000000)),
         base_23_16 := ucast (drop_bit 16 (addr AND 0x00FF0000)),
         base_15_00 := ucast (addr AND 0x0000FFFF),
         seg_lim_19_16 := ucast (drop_bit 16 (lim AND 0x000F0000)),
         seg_lim_15_00 := ucast (lim AND 0x0000FFFF)\<rparr>"

section \<open>The table\<close>

text \<open>The global descriptor table, the registers \<open>ldtr\<close> and \<open>tr\<close>, and the selector in the TSS.\<close>

record segments = kernel +
  gdt :: "nat \<Rightarrow> 64 word"
  ldtr :: u16
  tr :: u16
  tss_ldt_selector :: u16

text \<open>The table as it is assembled.\<close>

definition gdt_static :: "nat \<Rightarrow> 64 word" where
  "gdt_static i =
     (if i = 2 then 0x00CF9A000000FFFF else if i = 3 then 0x00CF92000000FFFF
      else if i = 4 then 0x00CFFA000000FFFF else if i = 5 then 0x00CFF2000000FFFF else 0)"

definition lldt :: "u16 \<Rightarrow> 'a segments_scheme \<Rightarrow> 'a segments_scheme" where
  "lldt sel s = s\<lparr>ldtr := sel\<rparr>"

definition ltr :: "u16 \<Rightarrow> 'a segments_scheme \<Rightarrow> 'a segments_scheme" where
  "ltr sel s = s\<lparr>tr := sel\<rparr>"

text \<open>The two blocks of \<open>entry\<close>. \<open>ldt\<close> and \<open>tss\<close> are the addresses of the two structures, \<open>d\<close> the
  uninitialised local.\<close>

definition entry_ldt :: "u32 \<Rightarrow> u32 \<Rightarrow> seg_desc \<Rightarrow> 'a segments_scheme \<Rightarrow> 'a segments_scheme" where
  "entry_ldt ldt ldt_size d s =
     (let d = d\<lparr>granularity := 0, opsize := 1, seg_reserved := 0, seg_avail := 0, seg_present := 1,
                seg_dpl := 0, seg_sys := 0, seg_type := 2\<rparr>;
          d = SET_LDT_PARAMS ldt ldt_size d;
          s = s\<lparr>gdt := (gdt s)(7 := seg_val d)\<rparr>
      in lldt KERNEL_LDT s)"

definition entry_tss :: "u32 \<Rightarrow> u32 \<Rightarrow> seg_desc \<Rightarrow> 'a segments_scheme \<Rightarrow> 'a segments_scheme" where
  "entry_tss tss tss_size d s =
     (let d = d\<lparr>granularity := 0, opsize := 0, seg_reserved := 0, seg_avail := 0,
                seg_lim_19_16 := ucast (TSS_SIZE AND 0x000F0000), seg_present := 1, seg_dpl := 0, seg_sys := 0,
                seg_type := 9, seg_lim_15_00 := ucast (TSS_SIZE AND 0x0000FFFF)\<rparr>;
          d = SET_TSS_PARAMS tss tss_size d;
          s = s\<lparr>gdt := (gdt s)(6 := seg_val d)\<rparr>;
          s = s\<lparr>tss_ldt_selector := KERNEL_LDT, tss_ss0 := KERNEL_DS, tss_esp0 := 0x800000\<rparr>
      in ltr KERNEL_TSS s)"

section \<open>What the processor reads\<close>

definition quad_base :: "64 word \<Rightarrow> u32" where
  "quad_base q = ucast (take_bit 24 (drop_bit 16 q)) OR push_bit 24 (ucast (drop_bit 56 q))"

definition quad_limit :: "64 word \<Rightarrow> u32" where
  "quad_limit q =
     (let l = ucast (take_bit 16 q) OR push_bit 16 (ucast (take_bit 4 (drop_bit 48 q)))
      in if bit q 55 then push_bit 12 l OR 0xFFF else l)"

text \<open>The access byte: present, privilege level, kind and type.\<close>

definition quad_access :: "64 word \<Rightarrow> u8" where
  "quad_access q = ucast (drop_bit 40 q)"

text \<open>The segment a selector names: base, limit and access byte.\<close>

definition segment :: "'a segments_scheme \<Rightarrow> u16 \<Rightarrow> u32 \<times> u32 \<times> u8" where
  "segment s sel = (let q = gdt s (unat (drop_bit 3 sel)) in (quad_base q, quad_limit q, quad_access q))"

definition privilege :: "u8 \<Rightarrow> u8" where
  "privilege access = take_bit 2 (drop_bit 5 access)"

lemma bit_out: "LENGTH('a) \<le> n \<Longrightarrow> \<not> bit (w :: 'a :: len word) n"
  using bit_imp_le_length not_less by blast

lemma field_bit:
  fixes w :: "'a :: len word"
  assumes "k + LENGTH('a) \<le> LENGTH('b)"
  shows "bit (push_bit k (ucast w) :: 'b :: len word) n \<longleftrightarrow> k \<le> n \<and> n < k + LENGTH('a) \<and> bit w (n - k)"
  using assms bit_imp_le_length [of w "n - k"] by (auto simp: bit_push_bit_iff bit_unsigned_iff)

lemma seg_val_bit:
  "bit (seg_val d) n \<longleftrightarrow>
     (if n < 16 then bit (seg_lim_15_00 d) n else if n < 32 then bit (base_15_00 d) (n - 16)
      else if n < 40 then bit (base_23_16 d) (n - 32) else if n < 44 then bit (seg_type d) (n - 40)
      else if n < 45 then bit (seg_sys d) (n - 44) else if n < 47 then bit (seg_dpl d) (n - 45)
      else if n < 48 then bit (seg_present d) (n - 47) else if n < 52 then bit (seg_lim_19_16 d) (n - 48)
      else if n < 53 then bit (seg_avail d) (n - 52) else if n < 54 then bit (seg_reserved d) (n - 53)
      else if n < 55 then bit (opsize d) (n - 54) else if n < 56 then bit (granularity d) (n - 55)
      else bit (base_31_24 d) (n - 56))"
proof -
  note f = seg_val_def bit_or_iff field_bit field_bit [of 0, simplified] bit_out
  show ?thesis
    by (cases "n < 16", simp add: f,
      cases "n < 32", simp add: f,
      cases "n < 40", simp add: f,
      cases "n < 44", simp add: f,
      cases "n < 45", simp add: f,
      cases "n < 47", simp add: f,
      cases "n < 48", simp add: f,
      cases "n < 52", simp add: f,
      cases "n < 53", simp add: f,
      cases "n < 54", simp add: f,
      cases "n < 55", simp add: f,
      cases "n < 56", simp add: f,
      cases "n < 64", simp add: f, simp add: f)
qed

lemma quad_base_val:
  "quad_base (seg_val d) = ucast (base_15_00 d) OR push_bit 16 (ucast (base_23_16 d)) OR push_bit 24 (ucast (base_31_24 d))"
proof (rule bit_eqI)
  fix n :: nat
  assume "possible_bit TYPE(u32) n"
  then have "n < 32" by simp
  then consider "n < 16" | "16 \<le> n" "n < 24" | "24 \<le> n" "n < 32" by linarith
  then show "bit (quad_base (seg_val d)) n =
      bit (ucast (base_15_00 d) OR push_bit 16 (ucast (base_23_16 d)) OR push_bit 24 (ucast (base_31_24 d)) :: u32) n"
    by cases (simp_all add: quad_base_def bit_simps seg_val_bit bit_out less_diff_conv2)
qed

lemma quad_limit_val:
  assumes "granularity d = 0"
  shows "quad_limit (seg_val d) = ucast (seg_lim_15_00 d) OR push_bit 16 (ucast (seg_lim_19_16 d))"
proof (rule bit_eqI)
  fix n :: nat
  assume "possible_bit TYPE(u32) n"
  then have "n < 32" by simp
  then consider "n < 16" | "16 \<le> n" "n < 20" | "20 \<le> n" "n < 32" by linarith
  moreover have "\<not> bit (seg_val d) 55" using assms by (simp add: seg_val_bit)
  ultimately show "bit (quad_limit (seg_val d)) n = bit (ucast (seg_lim_15_00 d) OR push_bit 16 (ucast (seg_lim_19_16 d)) :: u32) n"
    by cases (simp_all add: quad_limit_def bit_simps seg_val_bit bit_out less_diff_conv2 Let_def)
qed

lemma quad_access_val:
  "quad_access (seg_val d) =
     ucast (seg_type d) OR push_bit 4 (ucast (seg_sys d)) OR push_bit 5 (ucast (seg_dpl d)) OR push_bit 7 (ucast (seg_present d))"
proof (rule bit_eqI)
  fix n :: nat
  assume "possible_bit TYPE(u8) n"
  then have "n < 8" by simp
  then consider "n < 4" | "n = 4" | "5 \<le> n" "n < 7" | "n = 7" by linarith
  then show "bit (quad_access (seg_val d)) n =
    bit (ucast (seg_type d) OR push_bit 4 (ucast (seg_sys d)) OR push_bit 5 (ucast (seg_dpl d)) OR push_bit 7 (ucast (seg_present d)) :: u8) n"
    by cases (simp_all add: quad_access_def bit_simps seg_val_bit bit_out less_diff_conv2)
qed

lemma masks:
  fixes w :: u32
  shows "w AND 0xFFFF = take_bit 16 w" "drop_bit 16 (w AND 0x00FF0000) = take_bit 8 (drop_bit 16 w)"
    "drop_bit 24 (w AND 0xFF000000) = take_bit 8 (drop_bit 24 w)" "drop_bit 16 (w AND 0x000F0000) = take_bit 4 (drop_bit 16 w)"
  by (simp_all add: take_bit_eq_mask mask_eq_exp_minus_1)

text \<open>The parameters of a descriptor, read back.\<close>

lemma base_parts:
  fixes addr :: u32
  shows "ucast (ucast (take_bit 16 addr) :: u16) OR push_bit 16 (ucast (ucast (take_bit 8 (drop_bit 16 addr)) :: u8)) OR
      push_bit 24 (ucast (ucast (take_bit 8 (drop_bit 24 addr)) :: u8)) = addr" (is "?w = addr")
proof (rule bit_eqI)
  fix n :: nat
  assume "possible_bit TYPE(u32) n"
  then have "n < 32" by simp
  then consider "n < 16" | "16 \<le> n" "n < 24" | "24 \<le> n" "n < 32" by linarith
  then show "bit ?w n = bit addr n" by cases (simp_all add: bit_simps less_diff_conv2)
qed

lemma limit_parts:
  fixes lim :: u32
  assumes "lim < 2 ^ 20"
  shows "ucast (ucast (take_bit 16 lim) :: u16) OR push_bit 16 (ucast (ucast (take_bit 4 (drop_bit 16 lim)) :: 4 word)) = lim" (is "?w = lim")
proof (rule bit_eqI)
  fix n :: nat
  assume "possible_bit TYPE(u32) n"
  then have "n < 32" by simp
  then consider "n < 16" | "16 \<le> n" "n < 20" | "20 \<le> n" "n < 32" by linarith
  moreover have "take_bit 20 lim = lim" using assms by (intro take_bit_below) (simp add: word_less_nat_alt)
  then have "\<not> bit lim n" if "20 \<le> n" using that by (metis bit_take_bit_iff not_less)
  ultimately show "bit ?w n = bit lim n" by cases (simp_all add: bit_simps less_diff_conv2)
qed

lemma params_read_back:
  assumes "granularity d = 0" "lim < 2 ^ 20"
  shows "quad_base (seg_val (SET_LDT_PARAMS addr lim d)) = addr" "quad_limit (seg_val (SET_LDT_PARAMS addr lim d)) = lim"
    "SET_TSS_PARAMS addr lim d = SET_LDT_PARAMS addr lim d"
    "quad_access (seg_val (SET_LDT_PARAMS addr lim d)) = quad_access (seg_val d)"
proof -
  have g: "granularity (SET_LDT_PARAMS addr lim d) = 0" using assms(1) by (simp add: SET_LDT_PARAMS_def)
  show "quad_base (seg_val (SET_LDT_PARAMS addr lim d)) = addr"
    unfolding quad_base_val SET_LDT_PARAMS_def masks by (simp add: base_parts)
  show "quad_limit (seg_val (SET_LDT_PARAMS addr lim d)) = lim"
    unfolding quad_limit_val [OF g] unfolding SET_LDT_PARAMS_def masks using limit_parts [OF assms(2)] by simp
  show "SET_TSS_PARAMS addr lim d = SET_LDT_PARAMS addr lim d" by (simp add: SET_LDT_PARAMS_def SET_TSS_PARAMS_def)
  show "quad_access (seg_val (SET_LDT_PARAMS addr lim d)) = quad_access (seg_val d)"
    by (simp add: quad_access_val SET_LDT_PARAMS_def)
qed

section \<open>Properties\<close>

text \<open>C36: The selectors of the kernel name the right segments. After the two blocks of \<open>entry\<close>, on the table as it is assembled, the
  code and data selectors name segments of the whole address space whose privilege is that of the selector (0 for the kernel,
  3 for the user); the task register's selector names the task state segment at its address with its size, and the local
  table's selector the local table; the stack the processor loads on a trap from user mode is the one at 8 MB in the
  kernel's data segment.\<close>

theorem selectors_name_segments:
  fixes s :: "'a segments_scheme" and tss ldt :: u32 and d d' :: seg_desc
  defines "t \<equiv> entry_tss tss (TSS_SIZE - 1) d' (entry_ldt ldt 31 d (s\<lparr>gdt := gdt_static\<rparr>))"
  shows "map (segment t) [KERNEL_CS, KERNEL_DS, USER_CS, USER_DS] =
      [(0, 0xFFFFFFFF, 0x9A), (0, 0xFFFFFFFF, 0x92), (0, 0xFFFFFFFF, 0xFA), (0, 0xFFFFFFFF, 0xF2)] \<and>
    map (\<lambda>sel. privilege (snd (snd (segment t sel)))) [KERNEL_CS, KERNEL_DS, USER_CS, USER_DS] =
      map (\<lambda>sel. take_bit 2 (ucast sel)) [KERNEL_CS, KERNEL_DS, USER_CS, USER_DS] \<and>
    segment t (tr t) = (tss, TSS_SIZE - 1, 0x89) \<and> segment t (ldtr t) = (ldt, 31, 0x82) \<and>
    tss_ldt_selector t = ldtr t \<and> tss_esp0 t = EIGHT_MB \<and> tss_ss0 t = KERNEL_DS"
proof -
  define d1 where "d1 = d\<lparr>granularity := 0, opsize := 1, seg_reserved := 0, seg_avail := 0, seg_present := 1,
    seg_dpl := 0, seg_sys := 0, seg_type := 2\<rparr>"
  define d2 where "d2 = d'\<lparr>granularity := 0, opsize := 0, seg_reserved := 0, seg_avail := 0,
    seg_lim_19_16 := ucast (TSS_SIZE AND 0x000F0000), seg_present := 1, seg_dpl := 0, seg_sys := 0,
    seg_type := 9, seg_lim_15_00 := ucast (TSS_SIZE AND 0x0000FFFF)\<rparr>"
  have g: "granularity d1 = 0" "granularity d2 = 0" by (simp_all add: d1_def d2_def)
  have a: "quad_access (seg_val d1) = 0x82" "quad_access (seg_val d2) = 0x89" by (simp_all add: quad_access_val d1_def d2_def)
  note p = params_read_back [OF g(1), of 31 ldt] params_read_back [OF g(2), of "TSS_SIZE - 1" tss]
  have t: "t = s\<lparr>gdt := gdt_static(7 := seg_val (SET_LDT_PARAMS ldt 31 d1), 6 := seg_val (SET_TSS_PARAMS tss (TSS_SIZE - 1) d2)),
      ldtr := KERNEL_LDT, tr := KERNEL_TSS, tss_ldt_selector := KERNEL_LDT, tss_ss0 := KERNEL_DS, tss_esp0 := 0x800000\<rparr>"
    by (simp add: t_def entry_tss_def entry_ldt_def lldt_def ltr_def d1_def d2_def Let_def)
  have "segment t (tr t) = (tss, TSS_SIZE - 1, 0x89)" "segment t (ldtr t) = (ldt, 31, 0x82)"
    using p a by (simp_all add: t segment_def)
  moreover have "map (segment t) [KERNEL_CS, KERNEL_DS, USER_CS, USER_DS] =
      [(0, 0xFFFFFFFF, 0x9A), (0, 0xFFFFFFFF, 0x92), (0, 0xFFFFFFFF, 0xFA), (0, 0xFFFFFFFF, 0xF2)]"
    by (simp add: t segment_def gdt_static_def quad_base_def quad_limit_def quad_access_def Let_def)
  ultimately show ?thesis by (simp add: t privilege_def)
qed

end
