(* ===== verification/Entry.thy ===== *)
theory Entry
  imports Segments "HOL-Library.Monad_Syntax"
begin

text \<open>
  \<open>entry\<close> of \<open>student-distrib/kernel.c\<close> from its start: the information of the boot loader (\<open>multiboot.h\<close>), which is printed
  and from which the file system is taken, the descriptors, and then the initialisations of theory \<open>Boot\<close>. This
  part runs before paging is switched on.
\<close>

section \<open>The boot loader's structures\<close>

abbreviation (input) MULTIBOOT_BOOTLOADER_MAGIC :: u32 where "MULTIBOOT_BOOTLOADER_MAGIC \<equiv> 0x2BADB002"

record elf_section_header_table =
  elf_num :: u32
  elf_size :: u32
  elf_addr :: u32
  elf_shndx :: u32

record multiboot_info =
  mbi_flags :: u32
  mem_lower :: u32
  mem_upper :: u32
  boot_device :: u32
  cmdline :: u32
  mods_count :: u32
  mods_addr :: u32
  elf_sec :: elf_section_header_table
  mmap_length :: u32
  mmap_addr :: u32

record module =
  mod_start :: u32
  mod_end :: u32
  mod_string :: u32
  mod_reserved :: u32

record memory_map =
  map_size :: u32
  base_addr_low :: u32
  base_addr_high :: u32
  length_low :: u32
  length_high :: u32
  map_type :: u32

definition mbi_at :: "mem \<Rightarrow> addr \<Rightarrow> multiboot_info" where
  "mbi_at m a =
     \<lparr>mbi_flags = load32 m a, mem_lower = load32 m (a + 4), mem_upper = load32 m (a + 8), boot_device = load32 m (a + 12),
      cmdline = load32 m (a + 16), mods_count = load32 m (a + 20), mods_addr = load32 m (a + 24),
      elf_sec = \<lparr>elf_num = load32 m (a + 28), elf_size = load32 m (a + 32), elf_addr = load32 m (a + 36), elf_shndx = load32 m (a + 40)\<rparr>,
      mmap_length = load32 m (a + 44), mmap_addr = load32 m (a + 48)\<rparr>"

definition module_at :: "mem \<Rightarrow> addr \<Rightarrow> module" where
  "module_at m a =
     \<lparr>mod_start = load32 m a, mod_end = load32 m (a + 4), mod_string = load32 m (a + 8), mod_reserved = load32 m (a + 12)\<rparr>"

definition memory_map_at :: "mem \<Rightarrow> addr \<Rightarrow> memory_map" where
  "memory_map_at m a =
     \<lparr>map_size = load32 m a, base_addr_low = load32 m (a + 4), base_addr_high = load32 m (a + 8),
      length_low = load32 m (a + 12), length_high = load32 m (a + 16), map_type = load32 m (a + 20)\<rparr>"

definition CHECK_FLAG :: "u32 \<Rightarrow> nat \<Rightarrow> bool" where
  "CHECK_FLAG flags b \<longleftrightarrow> flags AND push_bit b 1 \<noteq> 0"

section \<open>Operations\<close>

text \<open>\<open>printf\<close> with a format and numbers; \<open>m\<close> is the memory with its locals.\<close>

definition print :: "mem \<Rightarrow> string \<Rightarrow> u32 list \<Rightarrow> 'a console_scheme \<Rightarrow> 'a console_scheme option" where
  "print m format vs s = map_option snd (printf m (\<lambda>_. [0]) (ascii format @ [0]) vs s)"

text \<open>\<open>printf("cmdline = %s\n", p)\<close>; \<open>None\<close> when the string has no end.\<close>

definition print_cmdline :: "mem \<Rightarrow> addr \<Rightarrow> 'a console_scheme \<Rightarrow> 'a console_scheme option" where
  "print_cmdline m p s =
     (case strlen (pmem s) p of
        None \<Rightarrow> None
      | Some n \<Rightarrow> map_option snd (printf m (\<lambda>_. bytes_at (pmem s) p (Suc (unat n))) (ascii ''cmdline = %s\<newline>'' @ [0]) [p] s))"

text \<open>The bytes are signed characters.\<close>

fun print_bytes :: "mem \<Rightarrow> addr \<Rightarrow> nat list \<Rightarrow> 'a console_scheme \<Rightarrow> 'a console_scheme option" where
  "print_bytes m md [] s = Some s"
| "print_bytes m md (i # is) s =
     do {
       s \<leftarrow> print m ''0x%x '' [scast (pmem s (mod_start (module_at (pmem s) md) + of_nat i))] s;
       print_bytes m md is s
     }"

partial_function (option) print_modules :: "mem \<Rightarrow> addr \<Rightarrow> addr \<Rightarrow> u32 \<Rightarrow> 'a console_scheme \<Rightarrow> 'a console_scheme option" where
  "print_modules m mbi md mod_count s =
     (if mod_count < mods_count (mbi_at (pmem s) mbi) then do {
        s \<leftarrow> print m ''Module %d loaded at address: 0x%#x\<newline>'' [mod_count, mod_start (module_at (pmem s) md)] s;
        s \<leftarrow> print m ''Module %d ends at address: 0x%#x\<newline>'' [mod_count, mod_end (module_at (pmem s) md)] s;
        s \<leftarrow> print m ''First few bytes of module:\<newline>'' [] s;
        s \<leftarrow> print_bytes m md [0..<16] s;
        s \<leftarrow> print m ''\<newline>'' [] s;
        print_modules m mbi (md + 16) (mod_count + 1) s
      }
      else Some s)"

partial_function (option) print_map :: "mem \<Rightarrow> addr \<Rightarrow> addr \<Rightarrow> 'a console_scheme \<Rightarrow> 'a console_scheme option" where
  "print_map m mbi mmap s =
     (if mmap < mmap_addr (mbi_at (pmem s) mbi) + mmap_length (mbi_at (pmem s) mbi) then
        let e = memory_map_at (pmem s) mmap in do {
          s \<leftarrow> print m ''    size = 0x%x, base_addr = 0x%#x%#x\<newline>    type = 0x%x,  length    = 0x%#x%#x\<newline>''
                 [map_size e, base_addr_high e, base_addr_low e, map_type e, length_high e, length_low e] s;
          print_map m mbi (mmap + map_size (memory_map_at (pmem s) mmap) + 4) s
        }
      else Some s)"

text \<open>\<open>entry\<close> up to the descriptors: \<open>Inl\<close> the state in which it returns early, \<open>Inr\<close> the one in which it goes on.\<close>

definition boot_info :: "mem \<Rightarrow> u32 \<Rightarrow> addr \<Rightarrow> 'a kernel_scheme \<Rightarrow> ('a kernel_scheme + 'a kernel_scheme) option" where
  "boot_info m magic addr s =
     (let s = clear s in
      if magic \<noteq> MULTIBOOT_BOOTLOADER_MAGIC then map_option Inl (print m ''Invalid magic number: 0x%#x\<newline>'' [magic] s)
      else do {
        s \<leftarrow> print m ''flags = 0x%#x\<newline>'' [mbi_flags (mbi_at (pmem s) addr)] s;
        s \<leftarrow> (let i = mbi_at (pmem s) addr in if CHECK_FLAG (mbi_flags i) 0
              then print m ''mem_lower = %uKB, mem_upper = %uKB\<newline>'' [mem_lower i, mem_upper i] s else Some s);
        s \<leftarrow> (let i = mbi_at (pmem s) addr in if CHECK_FLAG (mbi_flags i) 1
              then print m ''boot_device = 0x%#x\<newline>'' [boot_device i] s else Some s);
        s \<leftarrow> (let i = mbi_at (pmem s) addr in if CHECK_FLAG (mbi_flags i) 2 then print_cmdline m (cmdline i) s else Some s);
        s \<leftarrow> (let i = mbi_at (pmem s) addr in if CHECK_FLAG (mbi_flags i) 3
              then print_modules m addr (mods_addr i) 0 (file_system_init (mod_start (module_at (pmem s) (mods_addr i))) s)
              else Some s);
        if CHECK_FLAG (mbi_flags (mbi_at (pmem s) addr)) 4 \<and> CHECK_FLAG (mbi_flags (mbi_at (pmem s) addr)) 5
        then map_option Inl (print m ''Both bits 4 and 5 are set.\<newline>'' [] s)
        else do {
          s \<leftarrow> (let i = mbi_at (pmem s) addr; e = elf_sec i in if CHECK_FLAG (mbi_flags i) 5
                then print m ''elf_sec: num = %u, size = 0x%#x, addr = 0x%#x, shndx = 0x%#x\<newline>''
                       [elf_num e, elf_size e, elf_addr e, elf_shndx e] s
                else Some s);
          s \<leftarrow> (let i = mbi_at (pmem s) addr in if CHECK_FLAG (mbi_flags i) 6
                then do {
                  s \<leftarrow> print m ''mmap_addr = 0x%#x, mmap_length = 0x%x\<newline>'' [mmap_addr i, mmap_length i] s;
                  print_map m addr (mmap_addr (mbi_at (pmem s) addr)) s
                }
                else Some s);
          Some (Inr s)
        }
      })"

text \<open>\<open>ldt\<close> and \<open>tss\<close> are the addresses of the two structures, \<open>d\<close> and \<open>d'\<close> the uninitialised locals.\<close>

definition entry :: "mem \<Rightarrow> u32 \<Rightarrow> addr \<Rightarrow> u32 \<Rightarrow> u32 \<Rightarrow> seg_desc \<Rightarrow> seg_desc \<Rightarrow> u8 \<Rightarrow> u8 \<Rightarrow> locals \<Rightarrow> 'a segments_scheme \<Rightarrow>
    ('a segments_scheme + 'a segments_scheme outcome) option" where
  "entry m magic addr ldt tss d d' prevB prevA l s =
     do {
       r \<leftarrow> boot_info m magic addr s;
       case r of
         Inl s \<Rightarrow> Some (Inl s)
       | Inr s \<Rightarrow>
           let s = entry_ldt ldt 31 d s;
               s = entry_tss tss (TSS_SIZE - 1) d' s;
               s = clear s
           in Some (Inr (entry_paged prevB prevA l s))
     }"

section \<open>What the messages leave alone\<close>

text \<open>Before paging is on, with the cursor on the screen.\<close>

definition boot_ok :: "'a console_scheme \<Rightarrow> bool" where
  "boot_ok s \<longleftrightarrow> \<not> bit (cr0 s) 31 \<and> on_screen (terminals s (print_terminal s))"

lemma boot_ok_prints: "boot_ok s \<Longrightarrow> prints_at VIDEO s t \<Longrightarrow> on_screen (terminals t (print_terminal s)) \<Longrightarrow> boot_ok t"
  by (auto simp: boot_ok_def prints_at_def)

interpretation boot: char_device putc tty_put "tty_at VIDEO" boot_ok "prints_at VIDEO"
proof
  fix s :: "'a console_scheme" and c t u
  assume b: "boot_ok s"
  then have "screen_at VIDEO s" "on_screen (terminals s (print_terminal s))" by (simp_all add: boot_ok_def boot_screen)
  note p = putc_at [OF this, of c]
  show "tty_at VIDEO (putc c s) = tty_put c (tty_at VIDEO s)" "prints_at VIDEO s (putc c s)" by (rule p)+
  show "boot_ok (putc c s)" by (rule boot_ok_prints [OF b p(2,3)])
next
  show "prints_at VIDEO s u" if "prints_at VIDEO s t" "prints_at VIDEO t u" for s t u :: "'a console_scheme"
    using that by (rule prints_at_trans)
qed simp

text \<open>\<open>t\<close> differs from \<open>s\<close> by what was printed; a step from such a state to another.\<close>

definition after :: "'a console_scheme \<Rightarrow> 'a console_scheme \<Rightarrow> bool" where
  "after s t \<longleftrightarrow> boot_ok t \<and> prints_at VIDEO s t"

definition says :: "'a console_scheme \<Rightarrow> ('a console_scheme \<Rightarrow> 'a console_scheme option) \<Rightarrow> 'a console_scheme \<Rightarrow> bool" where
  "says s f t \<longleftrightarrow> (\<exists>u. f t = Some u \<and> after s u)"

lemma says_bind: "says s f t \<Longrightarrow> (\<And>u. after s u \<Longrightarrow> says s g u) \<Longrightarrow> says s (\<lambda>t. f t \<bind> g) t"
  by (auto simp: says_def)

lemma says_if: "after s t \<Longrightarrow> (P t \<Longrightarrow> says s f t) \<Longrightarrow> says s (\<lambda>t. if P t then f t else Some t) t"
  by (auto simp: says_def)

text \<open>The directives of a format, read the way \<open>printf\<close> reads it, and the condition under which all of it is directives.\<close>

fun directives :: "bool option \<Rightarrow> u8 list \<Rightarrow> directive list" where
  "directives mode [] = []"
| "directives None (c # cs) = (if c = 0x25 then directives (Some False) cs else Lit c # directives None cs)"
| "directives (Some alternate) (c # cs) =
     (if c = 0x25 then Percent # directives None cs
      else if c = 0x23 then directives (Some True) cs
      else if c = 0x78 then (if alternate then Hex8 else Hex) # directives None cs
      else if c = 0x75 then Unsigned # directives None cs
      else if c = 0x64 then Signed # directives None cs
      else if c = 0x73 then Str # directives None cs
      else directives None cs)"

definition well_formed :: "string \<Rightarrow> nat \<Rightarrow> bool" where
  "well_formed format n \<longleftrightarrow>
     (let ds = directives None (ascii format)
      in ascii format = concat (map written ds) \<and> Lit 0 \<notin> set ds \<and> Lit 0x25 \<notin> set ds \<and> length (filter takes_arg ds) = n)"

lemma printf_well_formed:
  assumes "well_formed format (length vs)" "\<And>v. 0 \<in> set (str v)"
  shows "\<exists>bs i. printf m str (ascii format @ [0]) vs s = Some (i, fold putc bs s)"
proof -
  let ?ds = "directives None (ascii format)"
  have "plain_lits ?ds" "length vs = length (filter takes_arg ?ds)" "ascii format = concat (map written ?ds)"
    using assms(1) by (auto simp: well_formed_def plain_lits_def Let_def)
  then show ?thesis using printf_directives [of ?ds vs str m "[]" 0 s] assms(2) by (auto simp: printf_def)
qed

lemma putc_says: "after s t \<Longrightarrow> \<exists>bs. f t = Some (fold putc bs t) \<Longrightarrow> says s f t"
  using boot.inv_puts [of t] boot.frame_puts [of t] prints_at_trans [of VIDEO s t] by (auto simp: says_def after_def)

lemma print_says:
  assumes "after s t" "well_formed format (length (vs t))"
  shows "says s (\<lambda>t. print m format (vs t) t) t"
  using printf_well_formed [OF assms(2), of "\<lambda>_. [0]" m t] by (intro putc_says [OF assms(1)]) (auto simp: print_def)

lemma boot_formats [simp]:
  "well_formed ''Invalid magic number: 0x%#x\<newline>'' (Suc 0)"
  "well_formed ''flags = 0x%#x\<newline>'' (Suc 0)"
  "well_formed ''mem_lower = %uKB, mem_upper = %uKB\<newline>'' (Suc (Suc 0))"
  "well_formed ''boot_device = 0x%#x\<newline>'' (Suc 0)"
  "well_formed ''cmdline = %s\<newline>'' (Suc 0)"
  "well_formed ''0x%x '' (Suc 0)"
  "well_formed ''Module %d loaded at address: 0x%#x\<newline>'' (Suc (Suc 0))"
  "well_formed ''Module %d ends at address: 0x%#x\<newline>'' (Suc (Suc 0))"
  "well_formed ''First few bytes of module:\<newline>'' 0"
  "well_formed ''\<newline>'' 0"
  "well_formed ''Both bits 4 and 5 are set.\<newline>'' 0"
  "well_formed ''elf_sec: num = %u, size = 0x%#x, addr = 0x%#x, shndx = 0x%#x\<newline>'' (Suc (Suc (Suc (Suc 0))))"
  "well_formed ''mmap_addr = 0x%#x, mmap_length = 0x%x\<newline>'' (Suc (Suc 0))"
  "well_formed ''    size = 0x%x, base_addr = 0x%#x%#x\<newline>    type = 0x%x,  length    = 0x%#x%#x\<newline>'' (Suc (Suc (Suc (Suc (Suc (Suc 0))))))"
  by (simp_all add: well_formed_def ascii_def)

text \<open>Structures that do not lie on the screen are still there afterwards.\<close>

definition off_screen :: "addr \<Rightarrow> nat \<Rightarrow> bool" where
  "off_screen a n \<longleftrightarrow> (\<forall>i < n. drop_bit 12 (a + of_nat i) \<noteq> 0xB8)"

lemma same_outside_page:
  assumes "same_outside VIDEO m m'" "drop_bit 12 a \<noteq> 0xB8"
  shows "m' a = m a"
proof -
  have "4000 \<le> a - VIDEO"
  proof (rule ccontr)
    assume "\<not> 4000 \<le> a - VIDEO"
    then have "uint (a - VIDEO) < 4000" by (simp add: word_le_def)
    then have "drop_bit 12 (VIDEO + word_of_int (uint (a - VIDEO))) = 0xB8" by (intro video_offset(2)) simp_all
    then show False using assms(2) by simp
  qed
  then show ?thesis using assms(1) by (simp add: same_outside_def)
qed

lemma prints_mem: "prints_at VIDEO s t \<Longrightarrow> drop_bit 12 a \<noteq> 0xB8 \<Longrightarrow> pmem t a = pmem s a"
  using same_outside_page by (fastforce simp: prints_at_def)

lemma load32_kept:
  assumes "prints_at VIDEO s t" "off_screen a n" "j + 3 < n"
  shows "load32 (pmem t) (a + of_nat j) = load32 (pmem s) (a + of_nat j)"
proof -
  have "pmem t (a + of_nat i) = pmem s (a + of_nat i)" if "i < n" for i
    using prints_mem [OF assms(1)] assms(2) that by (simp add: off_screen_def)
  from this [of j] this [of "j + 1"] this [of "j + 2"] this [of "j + 3"] assms(3)
  show ?thesis by (intro load32_cong) (simp_all add: ac_simps)
qed

lemma mbi_kept:
  assumes "prints_at VIDEO s t" "off_screen a 52"
  shows "mbi_at (pmem t) a = mbi_at (pmem s) a"
  using load32_kept [OF assms, of 0] load32_kept [OF assms, of 4] load32_kept [OF assms, of 8] load32_kept [OF assms, of 12]
    load32_kept [OF assms, of 16] load32_kept [OF assms, of 20] load32_kept [OF assms, of 24] load32_kept [OF assms, of 28]
    load32_kept [OF assms, of 32] load32_kept [OF assms, of 36] load32_kept [OF assms, of 40] load32_kept [OF assms, of 44]
    load32_kept [OF assms, of 48]
  by (simp add: mbi_at_def)

lemma mbi_after: "after s t \<Longrightarrow> off_screen a 52 \<Longrightarrow> mbi_at (pmem t) a = mbi_at (pmem s) a"
  by (simp add: after_def mbi_kept)

lemma print_bytes_says: "after s t \<Longrightarrow> says s (print_bytes m md is) t"
proof (induction "is" arbitrary: t)
  case Nil
  then show ?case by (simp add: says_def)
next
  case (Cons i "is")
  have "says s (\<lambda>t. print m ''0x%x '' [scast (pmem t (mod_start (module_at (pmem t) md) + of_nat i))] t \<bind> print_bytes m md is) t"
    by (rule says_bind [OF print_says [OF Cons.prems] Cons.IH]) simp_all
  then show ?case by (simp add: says_def)
qed

lemma print_modules_says:
  assumes "after s t" "off_screen mbi 52" "mod_count \<le> mods_count (mbi_at (pmem s) mbi)"
  shows "says s (print_modules m mbi md mod_count) t"
  using assms(1,3)
proof (induction "unat (mods_count (mbi_at (pmem s) mbi) - mod_count)" arbitrary: t md mod_count)
  case 0
  then have "\<not> mod_count < mods_count (mbi_at (pmem t) mbi)" by (auto simp: unat_eq_0 mbi_after [OF 0(2) assms(2)])
  then show ?case using 0(2) by (simp add: says_def print_modules.simps)
next
  case (Suc n)
  have lt: "mod_count < mods_count (mbi_at (pmem s) mbi)" using Suc(2,4) by (auto simp: order_less_le)
  have "n = unat (mods_count (mbi_at (pmem s) mbi) - (mod_count + 1))"
    using Suc(2) lt unat_minus_one [of "mods_count (mbi_at (pmem s) mbi) - mod_count"] by (simp add: algebra_simps)
  then have IH: "says s (print_modules m mbi (md + 16) (mod_count + 1)) u" if "after s u" for u
    using Suc(1) that inc_le lt by blast
  have "says s (\<lambda>s. print m ''Module %d loaded at address: 0x%#x\<newline>'' [mod_count, mod_start (module_at (pmem s) md)] s \<bind>
     (\<lambda>s. print m ''Module %d ends at address: 0x%#x\<newline>'' [mod_count, mod_end (module_at (pmem s) md)] s \<bind>
     (\<lambda>s. print m ''First few bytes of module:\<newline>'' [] s \<bind>
     (\<lambda>s. print_bytes m md [0..<16] s \<bind>
     (\<lambda>s. print m ''\<newline>'' [] s \<bind> print_modules m mbi (md + 16) (mod_count + 1)))))) t"
    by (intro says_bind print_says print_bytes_says IH) (simp_all add: Suc)
  then show ?case using lt by (simp add: says_def print_modules.simps [of m mbi md mod_count t] mbi_after [OF Suc(3) assms(2)])
qed

text \<open>The memory map ends after \<open>n\<close> entries.\<close>

fun map_ends :: "mem \<Rightarrow> u32 \<Rightarrow> nat \<Rightarrow> u32 \<Rightarrow> bool" where
  "map_ends m lim 0 a = (lim \<le> a)"
| "map_ends m lim (Suc n) a = (lim \<le> a \<or> off_screen a 4 \<and> map_ends m lim n (a + load32 m a + 4))"

lemma print_map_says:
  assumes "after s t" "off_screen mbi 52"
    and "map_ends (pmem s) (mmap_addr (mbi_at (pmem s) mbi) + mmap_length (mbi_at (pmem s) mbi)) n mmap"
  shows "says s (print_map m mbi mmap) t"
  using assms(1,3)
proof (induction n arbitrary: t mmap)
  case 0
  then show ?case by (simp add: says_def print_map.simps [of m mbi mmap t] mbi_after [OF 0(1) assms(2)] not_less [symmetric])
next
  case (Suc n)
  let ?lim = "mmap_addr (mbi_at (pmem s) mbi) + mmap_length (mbi_at (pmem s) mbi)"
  show ?case
  proof (cases "?lim \<le> mmap")
    case True
    then show ?thesis using Suc(2) by (simp add: says_def print_map.simps [of m mbi mmap t] mbi_after [OF Suc(2) assms(2)] not_less [symmetric])
  next
    case False
    then have e: "off_screen mmap 4" "map_ends (pmem s) ?lim n (mmap + load32 (pmem s) mmap + 4)" using Suc(3) by auto
    have "map_size (memory_map_at (pmem u) mmap) = load32 (pmem s) mmap" if "after s u" for u
      using load32_kept [OF _ e(1), of s u 0] that by (simp add: memory_map_at_def after_def)
    then have IH: "says s (\<lambda>s. print_map m mbi (mmap + map_size (memory_map_at (pmem s) mmap) + 4) s) u" if "after s u" for u
      using Suc(1) [OF that e(2)] that by (simp add: says_def)
    have "says s (\<lambda>s. print m ''    size = 0x%x, base_addr = 0x%#x%#x\<newline>    type = 0x%x,  length    = 0x%#x%#x\<newline>''
       [map_size (memory_map_at (pmem s) mmap), base_addr_high (memory_map_at (pmem s) mmap), base_addr_low (memory_map_at (pmem s) mmap),
        map_type (memory_map_at (pmem s) mmap), length_high (memory_map_at (pmem s) mmap), length_low (memory_map_at (pmem s) mmap)] s \<bind>
       (\<lambda>s. print_map m mbi (mmap + map_size (memory_map_at (pmem s) mmap) + 4) s)) t"
      by (intro says_bind print_says IH) (simp_all add: Suc)
    moreover have "mmap < ?lim" using False by simp
    ultimately show ?thesis
      by (simp add: says_def print_map.simps [of m mbi mmap t] mbi_after [OF Suc(2) assms(2)] Let_def)
  qed
qed

section \<open>From the loader to the kernel\<close>

text \<open>What the loader must leave in memory: the information apart from the screen, with a module, not both symbol tables,
  a command line with an end and a memory map with an end.\<close>

definition loaded :: "mem \<Rightarrow> addr \<Rightarrow> bool" where
  "loaded m addr \<longleftrightarrow>
     (let i = mbi_at m addr in
      off_screen addr 52 \<and> off_screen (mods_addr i) 4 \<and> CHECK_FLAG (mbi_flags i) 3 \<and>
      \<not> (CHECK_FLAG (mbi_flags i) 4 \<and> CHECK_FLAG (mbi_flags i) 5) \<and>
      (CHECK_FLAG (mbi_flags i) 2 \<longrightarrow>
        (\<exists>cs. is_cstr m (cmdline i) cs \<and> length cs < 2 ^ 32 \<and> off_screen (cmdline i) (Suc (length cs)))) \<and>
      (CHECK_FLAG (mbi_flags i) 6 \<longrightarrow> (\<exists>n. map_ends m (mmap_addr i + mmap_length i) n (mmap_addr i))))"

lemma print_cmdline_says:
  assumes "after s t" "is_cstr (pmem s) p cs" "length cs < 2 ^ 32" "off_screen p (Suc (length cs))"
  shows "says s (print_cmdline m p) t"
proof (rule putc_says [OF assms(1)])
  have e: "pmem t (p + of_nat i) = pmem s (p + of_nat i)" if "i \<le> length cs" for i
    using assms(1,4) that by (intro prints_mem) (auto simp: after_def off_screen_def)
  then have "bytes_at (pmem t) p (length cs) = bytes_at (pmem s) p (length cs)" by (intro bytes_at_cong) simp
  then have c: "is_cstr (pmem t) p cs" using assms(2) e [of "length cs"] by (simp add: is_cstr_def)
  let ?str = "bytes_at (pmem t) p (Suc (length cs))"
  have "0 \<in> set ?str" using bytes_at_cstr [OF c, of "Suc (length cs)"] by auto
  from printf_well_formed [of "''cmdline = %s\<newline>''" "[p]" "\<lambda>_. ?str" m t, OF _ this]
  show "\<exists>bs. print_cmdline m p t = Some (fold putc bs t)"
    using strlen_cstr [OF c] assms(3) by (auto simp: print_cmdline_def unat_of_nat32)
qed

lemma after_refl: "boot_ok s \<Longrightarrow> after s s"
  by (simp add: after_def)

lemma after_pmem:
  assumes "boot_ok s" "same_outside VIDEO (pmem s) q"
  shows "after s (s\<lparr>pmem := q\<rparr>)"
proof -
  have "s\<lparr>pmem := q\<rparr> = s\<lparr>pmem := q, ports := ports s, current_line := current_line s, terminals := (terminals s)
      (print_terminal s := (terminals s (print_terminal s))\<lparr>scr_x := scr_x (terminals s (print_terminal s)),
         scr_y := scr_y (terminals s (print_terminal s))\<rparr>)\<rparr>"
    by simp
  then have "prints_at VIDEO s (s\<lparr>pmem := q\<rparr>)" using assms(2) unfolding prints_at_def by blast
  then show ?thesis using assms(1) by (simp add: after_def boot_ok_def)
qed

lemma after_clear:
  assumes "after s t"
  shows "after s (clear t)"
proof -
  have b: "boot_ok t" "prints_at VIDEO s t" using assms by (simp_all add: after_def)
  have "clear t = t\<lparr>pmem := fold (set_cell VIDEO 0x20) [0..1999] (pmem t)\<rparr>"
    using b(1) by (intro clear_screen boot_screen) (simp add: boot_ok_def)
  moreover have "same_outside VIDEO (pmem t) (fold (set_cell VIDEO 0x20) [0..1999] (pmem t))"
    by (rule fold_outside) (auto intro: same_outside_cell)
  ultimately have "after t (clear t)" using after_pmem [OF b(1)] by simp
  then show ?thesis using prints_at_trans [OF b(2)] by (simp add: after_def)
qed

lemma after_fs:
  fixes s :: "'a kernel_scheme"
  assumes "after s t"
  shows "after (s\<lparr>fs_start := x\<rparr>) (t\<lparr>fs_start := x\<rparr>)"
proof -
  obtain q p l a b where "same_outside VIDEO (pmem s) q" and t: "t = s\<lparr>pmem := q, ports := p, current_line := l, terminals := (terminals s)
      (print_terminal s := (terminals s (print_terminal s))\<lparr>scr_x := a, scr_y := b\<rparr>)\<rparr>"
    using assms by (auto simp: after_def prints_at_def)
  then show ?thesis
    using assms unfolding after_def prints_at_def boot_ok_def
    by (intro conjI exI [of _ q] exI [of _ p] exI [of _ l] exI [of _ a] exI [of _ b]) simp_all
qed

lemma print_when:
  assumes "after s t" "well_formed format (length vs)"
  obtains u where "(if b then print m format vs t else Some t) = Some u" "after s u"
  using print_says [of s t format "\<lambda>_. vs" m] assms by (cases b) (auto simp: says_def)

lemma cmdline_when:
  assumes "after s t" "loaded (pmem s) addr"
  defines "i \<equiv> mbi_at (pmem s) addr"
  obtains u where "(if CHECK_FLAG (mbi_flags i) 2 then print_cmdline m (cmdline i) t else Some t) = Some u" "after s u"
proof (cases "CHECK_FLAG (mbi_flags i) 2")
  case True
  then obtain cs where "is_cstr (pmem s) (cmdline i) cs" "length cs < 2 ^ 32" "off_screen (cmdline i) (Suc (length cs))"
    using assms(2) by (auto simp: loaded_def Let_def i_def)
  from print_cmdline_says [OF assms(1) this, of m] show thesis using True that by (auto simp: says_def)
qed (use assms(1) that in auto)

lemma map_when:
  assumes "after s t" "loaded (pmem s) addr"
  defines "i \<equiv> mbi_at (pmem s) addr"
  obtains u where "(if CHECK_FLAG (mbi_flags i) 6 then print m ''mmap_addr = 0x%#x, mmap_length = 0x%x\<newline>'' [mmap_addr i, mmap_length i] t \<bind>
      (\<lambda>s. print_map m addr (mmap_addr (mbi_at (pmem s) addr)) s) else Some t) = Some u" "after s u"
proof (cases "CHECK_FLAG (mbi_flags i) 6")
  case True
  then obtain n where n: "map_ends (pmem s) (mmap_addr i + mmap_length i) n (mmap_addr i)" and off: "off_screen addr 52"
    using assms(2) by (auto simp: loaded_def Let_def i_def)
  have "says s (\<lambda>t. print m ''mmap_addr = 0x%#x, mmap_length = 0x%x\<newline>'' [mmap_addr i, mmap_length i] t \<bind>
      (\<lambda>t. print_map m addr (mmap_addr (mbi_at (pmem t) addr)) t)) t"
  proof (intro says_bind print_says [OF assms(1)])
    fix u assume u: "after s u"
    then show "says s (\<lambda>t. print_map m addr (mmap_addr (mbi_at (pmem t) addr)) t) u"
      using print_map_says [OF u off n [unfolded i_def], of m] mbi_after [OF u off] by (simp add: says_def)
  qed simp
  then show thesis using True that by (auto simp: says_def)
qed (use assms(1) that in auto)

lemma boot_info_loaded:
  fixes s :: "'a kernel_scheme"
  assumes "boot_ok s" "loaded (pmem s) addr"
  defines "i \<equiv> mbi_at (pmem s) addr"
  defines "fs \<equiv> mod_start (module_at (pmem s) (mods_addr i))"
  shows "\<exists>t. boot_info m MULTIBOOT_BOOTLOADER_MAGIC addr s = Some (Inr t) \<and> after (s\<lparr>fs_start := fs\<rparr>) t"
proof -
  define s' where "s' = s\<lparr>fs_start := fs\<rparr>"
  have off: "off_screen addr 52" "off_screen (mods_addr i) 4" and fl: "CHECK_FLAG (mbi_flags i) 3"
      "\<not> (CHECK_FLAG (mbi_flags i) 4 \<and> CHECK_FLAG (mbi_flags i) 5)" and ld: "loaded (pmem s') addr"
    using assms(2) by (simp_all add: loaded_def i_def s'_def Let_def)
  have i': "mbi_at (pmem s') addr = i" by (simp add: s'_def i_def)
  note k = mbi_after [OF _ off(1), where s = s, folded i_def] mbi_after [OF _ off(1), where s = s', unfolded i']
  have c: "after s (clear s)" by (rule after_clear [OF after_refl [OF assms(1)]])
  obtain s1 where s1: "print m ''flags = 0x%#x\<newline>'' [mbi_flags i] (clear s) = Some s1" "after s s1"
    using print_when [OF c, of "''flags = 0x%#x\<newline>''" "[mbi_flags i]" True m] by auto
  obtain s2 where s2: "(if CHECK_FLAG (mbi_flags i) 0 then print m ''mem_lower = %uKB, mem_upper = %uKB\<newline>'' [mem_lower i, mem_upper i] s1
      else Some s1) = Some s2" "after s s2" by (rule print_when [OF s1(2), rotated], erule (1) that, simp)
  obtain s3 where s3: "(if CHECK_FLAG (mbi_flags i) 1 then print m ''boot_device = 0x%#x\<newline>'' [boot_device i] s2 else Some s2) = Some s3"
      "after s s3" by (rule print_when [OF s2(2), rotated], erule (1) that, simp)
  obtain s4 where s4: "(if CHECK_FLAG (mbi_flags i) 2 then print_cmdline m (cmdline i) s3 else Some s3) = Some s4" "after s s4"
    by (rule cmdline_when [OF s3(2) assms(2), folded i_def])
  have md: "mod_start (module_at (pmem s4) (mods_addr i)) = fs"
    using load32_kept [OF _ off(2), of s s4 0] s4(2) by (simp add: fs_def module_at_def after_def)
  have f: "after s' (file_system_init fs s4)" unfolding s'_def file_system_init_def by (rule after_fs [OF s4(2)])
  obtain s5 where s5: "print_modules m addr (mods_addr i) 0 (file_system_init fs s4) = Some s5" "after s' s5"
    using print_modules_says [OF f off(1), of 0] by (auto simp: says_def)
  obtain s6 where s6: "(if CHECK_FLAG (mbi_flags i) 5 then print m ''elf_sec: num = %u, size = 0x%#x, addr = 0x%#x, shndx = 0x%#x\<newline>''
      [elf_num (elf_sec i), elf_size (elf_sec i), elf_addr (elf_sec i), elf_shndx (elf_sec i)] s5 else Some s5) = Some s6" "after s' s6"
    by (rule print_when [OF s5(2), rotated], erule (1) that, simp)
  obtain t where t: "(if CHECK_FLAG (mbi_flags i) 6 then print m ''mmap_addr = 0x%#x, mmap_length = 0x%x\<newline>'' [mmap_addr i, mmap_length i] s6 \<bind>
      (\<lambda>s. print_map m addr (mmap_addr (mbi_at (pmem s) addr)) s) else Some s6) = Some t" "after s' t"
    by (rule map_when [OF s6(2) ld, unfolded i'])
  have "boot_info m MULTIBOOT_BOOTLOADER_MAGIC addr s = Some (Inr t)"
    unfolding boot_info_def Let_def
    by (simp only: bind.bind_lunit simp_thms if_False if_True fl md s1(1) s2(1) s3(1) s4(1) s5(1) s6(1) t(1) k(1) [OF c] k(1) [OF s1(2)] k(1) [OF s2(2)] k(1) [OF s3(2)] k(1) [OF s4(2)] k(2) [OF s5(2)] k(2) [OF s6(2)]
        cong: if_cong)
  then show ?thesis using t(2) by (auto simp: s'_def)
qed

lemma static_after: "static_data s \<Longrightarrow> after s t \<Longrightarrow> static_data t"
  by (auto simp: static_data_def after_def prints_at_def tables_placed_def)

lemma boot_ok_static: "static_data s \<Longrightarrow> \<not> bit (cr0 s) 31 \<Longrightarrow> on_screen (terminals s 0) \<Longrightarrow> boot_ok s"
  by (simp add: boot_ok_def static_data_def)

lemma entry_reaches_paging:
  fixes s :: "'a segments_scheme"
  assumes "static_data s" "boot_ok s" "loaded (pmem s) addr"
  defines "fs \<equiv> mod_start (module_at (pmem s) (mods_addr (mbi_at (pmem s) addr)))"
  obtains t where "entry m MULTIBOOT_BOOTLOADER_MAGIC addr ldt tss d d' b a l s = Some (Inr (entry_paged b a l t))"
    "static_data t" "fs_start t = fs" "\<And>x. drop_bit 12 x \<noteq> 0xB8 \<Longrightarrow> pmem t x = pmem s x"
proof -
  obtain u where u: "boot_info m MULTIBOOT_BOOTLOADER_MAGIC addr s = Some (Inr u)" "after (s\<lparr>fs_start := fs\<rparr>) u"
    using boot_info_loaded [OF assms(2,3), of m] by (auto simp: fs_def)
  define v where "v = entry_tss tss (TSS_SIZE - 1) d' (entry_ldt ldt 31 d u)"
  have su: "static_data u" using static_after [OF _ u(2)] assms(1) by (simp add: static_data_def tables_placed_def)
  have v: "static_data v" "boot_ok v" "fs_start v = fs_start u" "pmem v = pmem u"
    using su u(2) by (simp_all add: v_def entry_tss_def entry_ldt_def lldt_def ltr_def Let_def static_data_def tables_placed_def after_def boot_ok_def)
  have c: "after v (clear v)" by (rule after_clear [OF after_refl [OF v(2)]])
  have "fs_start u = fs" "fs_start (clear v) = fs_start v" using u(2) c by (auto simp: after_def prints_at_def)
  moreover have "pmem (clear v) x = pmem s x" if "drop_bit 12 x \<noteq> 0xB8" for x
    using prints_mem [OF _ that, of v "clear v"] prints_mem [OF _ that, of "s\<lparr>fs_start := fs\<rparr>" u] c u(2) v(4) by (simp add: after_def)
  moreover have "entry m MULTIBOOT_BOOTLOADER_MAGIC addr ldt tss d d' b a l s = Some (Inr (entry_paged b a l (clear v)))"
    by (simp add: entry_def u(1) v_def Let_def)
  ultimately show thesis using static_after [OF v(1) c] v(3) by (intro that [of "clear v"]) simp_all
qed

lemma entry_bad_magic:
  fixes s :: "'a segments_scheme"
  assumes "boot_ok s" "magic \<noteq> MULTIBOOT_BOOTLOADER_MAGIC"
  shows "\<exists>t. entry m magic addr ldt tss d d' b a l s = Some (Inl t) \<and> after s t"
  using print_says [OF after_clear [OF after_refl [OF assms(1)]], of "''Invalid magic number: 0x%#x\<newline>''" "\<lambda>_. [magic]" m] assms(2)
  by (auto simp: entry_def boot_info_def says_def Let_def)

lemma kernel_page_off: "drop_bit 22 (x :: addr) = 1 \<Longrightarrow> drop_bit 12 x \<noteq> 0xB8"
  using dir_of_page [of x "0xB8"] by auto

lemma executable_same:
  assumes "disk_ok q fs" "\<forall>x. drop_bit 22 x = 1 \<longrightarrow> q' x = q x"
  shows "executable q' fs name inode \<longleftrightarrow> executable q fs name inode"
    "executable q fs name inode \<Longrightarrow> entry_point q' fs inode = entry_point q fs inode"
proof -
  define k where "k = kernel1\<lparr>cr0 := 0, pmem := q, fs_start := fs\<rparr>"
  have k: "vmem k = q" "fs_start k = fs" by (simp_all add: k_def fun_eq_iff vmem_def kload_def translate_def Let_def)
  then have f: "files_ok k" using assms(1) by (simp add: files_ok_disk)
  have "local_view k q'" using assms(2) by (simp add: local_view_def k)
  from executable_local [OF f this] show "executable q' fs name inode \<longleftrightarrow> executable q fs name inode"
    "executable q fs name inode \<Longrightarrow> entry_point q' fs inode = entry_point q fs inode" by (simp_all add: k)
qed

section \<open>Properties\<close>


text \<open>The example: the image of theory \<open>FileSystem\<close> as the only module, described at 0x10000.\<close>

definition boot_mem :: mem where
  "boot_mem = demo_fs(0x10000 := 8, 0x10014 := 1, 0x10019 := 1, 0x1001A := 1, 0x10102 := 0x40)"

definition boot1 :: segments where
  "boot1 = kernel.extend (kernel5\<lparr>pmem := boot_mem, cr0 := 0\<rparr>) (segments.fields gdt_static 0 0 0)"

lemma off_screen_low:
  assumes "unat a + n \<le> 0xB8000"
  shows "off_screen a n"
proof -
  have "drop_bit 12 (a + of_nat i) \<noteq> 0xB8" if "i < n" for i
  proof
    assume "drop_bit 12 (a + of_nat i) = 0xB8"
    then have "unat (drop_bit 12 (a + of_nat i)) = 184" by simp
    moreover have "unat (a + of_nat i) = unat a + i" using assms that by (subst unat_word_ariths) (simp add: unat_of_nat32)
    ultimately have "(unat a + i) div 4096 = 184" by (simp add: drop_bit_eq_div unat_div)
    then show False using assms that by simp
  qed
  then show ?thesis by (simp add: off_screen_def)
qed

lemma boot1_loaded:
  "loaded boot_mem 0x10000" "mod_start (module_at boot_mem (mods_addr (mbi_at boot_mem 0x10000))) = 0x400000"
proof -
  have i: "mbi_flags (mbi_at boot_mem 0x10000) = 8" "mods_addr (mbi_at boot_mem 0x10000) = 0x10100"
    by (simp_all add: mbi_at_def load32_def boot_mem_def demo_fs_def)
  have "off_screen 0x10000 52" "off_screen 0x10100 4" by (simp_all add: off_screen_low)
  then show "loaded boot_mem 0x10000" by (simp add: loaded_def i Let_def CHECK_FLAG_def)
  have "load32 boot_mem 0x10100 = 0x400000" by (simp add: load32_def boot_mem_def demo_fs_def)
  then show "mod_start (module_at boot_mem (mods_addr (mbi_at boot_mem 0x10000))) = 0x400000"
    by (simp add: i module_at_def)
qed


end
