(* ===== verification/Shell.thy ===== *)
theory Shell
  imports Utilities
begin

text \<open>
  The shell of \<open>syscalls/ece391shell.c\<close> and the programs \<open>hello\<close> and \<open>testprint\<close>: reading from the keyboard with
  the line shown while it is typed, and the commands the shell starts.
\<close>

section \<open>The programs\<close>

definition testprint_main :: "(u8 list \<Rightarrow> addr) \<Rightarrow> user \<Rightarrow> (int \<times> user) option" where
  "testprint_main lit s =
     do {
       s \<leftarrow> ece391_fdputs 1 (lit (ascii ''Hello, if this ran, the program was correct. Yay!\<newline>'')) s;
       Some (0, s)
     }"

definition hello_main :: "(u8 list \<Rightarrow> addr) \<Rightarrow> addr \<Rightarrow> user \<Rightarrow> (int \<times> user) option" where
  "hello_main lit buf s =
     do {
       s \<leftarrow> ece391_fdputs 1 (lit (ascii ''Hi, what's your name? '')) s;
       (cnt, s) \<leftarrow> ece391_read 0 buf 1023 s;
       if cnt = - 1 then do {
         s \<leftarrow> ece391_fdputs 1 (lit (ascii ''Can't read name from keyboard.\<newline>'')) s;
         Some (3, s)
       }
       else do {
         s \<leftarrow> ustore (buf + word_of_int cnt) 0 s;
         s \<leftarrow> ece391_fdputs 1 (lit (ascii ''Hello, '')) s;
         s \<leftarrow> ece391_fdputs 1 buf s;
         Some (0, s)
       }
     }"

subsection \<open>The shell\<close>

text \<open>The program a command starts runs until its process halts. \<open>child\<close> stands for that run: from the entry point and the state
  in which user mode is entered to the status and the state in which \<open>execute\<close> returns in the shell.\<close>

definition ece391_execute :: "(u32 \<Rightarrow> user \<Rightarrow> (int \<times> user) option) \<Rightarrow> addr \<Rightarrow> user \<Rightarrow> (int \<times> user) option" where
  "ece391_execute child command s =
     (let e = shd (script s) in
      case system_call_handler 2 command 0 0 (elf_locals e) (keystrokes e) (clock_irqs e)
             (trap (sp_depth e) (fp_depth e) s) of
        Returns r t \<Rightarrow> Some (r, t\<lparr>script := stl (script s)\<rparr>)
      | Enters a t \<Rightarrow> child a (t\<lparr>script := stl (script s)\<rparr>)
      | Waits \<Rightarrow> None)"

definition uload :: "addr \<Rightarrow> 'a paging_scheme \<Rightarrow> u8 option" where
  "uload a s = map_option (pmem s) (translate True s a)"

definition shell_report :: "(u8 list \<Rightarrow> addr) \<Rightarrow> int \<Rightarrow> user \<Rightarrow> user option" where
  "shell_report lit rval s =
     (if rval = - 1 then ece391_fdputs 1 (lit (ascii ''no such command\<newline>'')) s
      else if rval = 256 then ece391_fdputs 1 (lit (ascii ''program terminated by exception\<newline>'')) s
      else if rval \<noteq> 0 then ece391_fdputs 1 (lit (ascii ''program terminated abnormally\<newline>'')) s
      else Some s)"

definition strip_newline :: "addr \<Rightarrow> int \<Rightarrow> user \<Rightarrow> int option" where
  "strip_newline buf cnt s =
     (if cnt > 0
      then do {
        c \<leftarrow> uload (buf + word_of_int (cnt - 1)) s;
        Some (if c = 0x0A then cnt - 1 else cnt)
      }
      else Some cnt)"

partial_function (option) shell_loop ::
    "(u8 list \<Rightarrow> addr) \<Rightarrow> (u32 \<Rightarrow> user \<Rightarrow> (int \<times> user) option) \<Rightarrow> addr \<Rightarrow> user \<Rightarrow> (int \<times> user) option" where
  "shell_loop lit child buf s =
     do {
       s \<leftarrow> ece391_fdputs 1 (lit (ascii ''391OS> '')) s;
       (cnt, s) \<leftarrow> ece391_read 0 buf 1023 s;
       if cnt = - 1 then do {
         s \<leftarrow> ece391_fdputs 1 (lit (ascii ''read from keyboard failed\<newline>'')) s;
         Some (3, s)
       }
       else do {
         cnt \<leftarrow> strip_newline buf cnt s;
         s \<leftarrow> ustore (buf + word_of_int cnt) 0 s;
         r \<leftarrow> ece391_strcmp (umem s) buf (lit (ascii ''exit''));
         if r = 0 then Some (0, s)
         else do {
           c \<leftarrow> uload buf s;
           if c = 0 then shell_loop lit child buf s
           else do {
             (rval, s) \<leftarrow> ece391_execute child buf s;
             s \<leftarrow> shell_report lit rval s;
             shell_loop lit child buf s
           }
         }
       }
     }"

definition shell_main ::
    "(u8 list \<Rightarrow> addr) \<Rightarrow> (u32 \<Rightarrow> user \<Rightarrow> (int \<times> user) option) \<Rightarrow> addr \<Rightarrow> user \<Rightarrow> (int \<times> user) option" where
  "shell_main lit child buf s =
     do {
       s \<leftarrow> ece391_fdputs 1 (lit (ascii ''Starting 391 Shell\<newline>'')) s;
       shell_loop lit child buf s
     }"

section \<open>Keys are echoed\<close>

text \<open>What typing the characters \<open>bs\<close> does while the terminal that is viewed is also the one that runs.\<close>

definition echoes :: "u8 list \<Rightarrow> 'a kb_scheme \<Rightarrow> 'a kb_scheme \<Rightarrow> bool" where
  "echoes bs s t \<longleftrightarrow>
     tty_of t = fold tty_put bs (tty_of s) \<and> same_outside VIDEO (pmem s) (pmem t) \<and> cur_terminal t = cur_terminal s \<and>
     cur_sched_term t = cur_sched_term s \<and>
     (\<forall>k. vid_mem (terminals t k) = vid_mem (terminals s k))"

lemma echoes_refl [simp]: "echoes [] s s"
  by (simp add: echoes_def)

lemma echoes_trans: "echoes xs s t \<Longrightarrow> echoes ys t u \<Longrightarrow> echoes (xs @ ys) s u"
  by (auto simp: echoes_def intro: same_outside_trans)

lemma tty_of_same:
  assumes "vframe t = vframe s" "pmem t = pmem s"
    and "scr_x (terminals t (print_terminal t)) = scr_x (terminals s (print_terminal s))"
    and "scr_y (terminals t (print_terminal t)) = scr_y (terminals s (print_terminal s))"
  shows "tty_of t = tty_of s"
  by (simp only: tty_of_def Let_def assms)

lemma print_scancode_echo:
  assumes "console_inv u" "vframe u = VIDEO" "print_terminal u = cur_terminal u" "accepts c (the_term u)"
  defines "v \<equiv> print_scancode c u"
  shows "tty_of v = tty_put (kbdus c) (tty_of u)" "same_outside VIDEO (pmem u) (pmem v)"
proof -
  note p = putc_step [OF assms(1), of "kbdus c"]
  obtain m q l x y where e: "same_outside (vframe u) (pmem u) m" "putc (kbdus c) u = u\<lparr>pmem := m, ports := q, current_line := l,
      terminals := (terminals u)(print_terminal u := (terminals u (print_terminal u))\<lparr>scr_x := x, scr_y := y\<rparr>)\<rparr>"
    using p(3) by (auto simp: prints_only_def)
  have v: "v = upd_term (cur_terminal u) (\<lambda>t. t\<lparr>buf_index := buf_index t + 1\<rparr>)
      (kb_store (buf_index (the_term u)) (kbdus c) (putc (kbdus c) u))"
    using assms(3,4) by (auto simp: v_def print_scancode_def accepts_def Let_def e(2) the_term_def kb_store_def upd_term_def raise_fault_def)
  have m: "pmem v = m" by (simp add: v kb_store_def upd_term_def raise_fault_def e(2))
  have "tty_of v = tty_of (putc (kbdus c) u)"
    by (rule tty_of_same) (simp_all add: v kb_store_def upd_term_def raise_fault_def vframe_def e(2))
  then show "tty_of v = tty_put (kbdus c) (tty_of u)" "same_outside VIDEO (pmem u) (pmem v)" using p(1) e(1) assms(2) m by simp_all
qed

lemma kb_enter_tty:
  assumes "display_ok s" "cur_sched_term s = cur_terminal s"
  shows "tty_of (kb_enter s) = tty_of s" "pmem (kb_enter s) = pmem s" "cur_terminal (kb_enter s) = cur_terminal s"
    "print_terminal (kb_enter s) = cur_terminal s"
proof -
  have "vframe s = VIDEO" using assms by (simp add: display_ok_def screen_of_def)
  moreover have "vframe (kb_enter s) = VIDEO" by (simp add: vframe_def kb_enter_def)
  ultimately show "tty_of (kb_enter s) = tty_of s"
    using assms by (intro tty_of_same) (simp_all add: kb_enter_def display_ok_def)
qed (simp_all add: kb_enter_def)

lemma kb_leave_tty:
  assumes "cur_sched_term s = cur_terminal s" "edit_frame (kb_enter s) v" "cur_terminal v = cur_terminal s"
  shows "tty_of (kb_leave v) = tty_of v" "pmem (kb_leave v) = pmem v"
proof -
  have m: "console.more v = console.more (kb_enter s)" using assms(2) by (simp add: edit_frame_def)
  have "cur_sched_term v = cur_terminal v" using sched_of_more(2) [OF m] assms(1,3) by (simp add: kb_enter_def)
  moreover have "print_terminal v = cur_terminal v" using assms(2,3) by (simp add: edit_frame_def kb_enter_def)
  ultimately show "tty_of (kb_leave v) = tty_of v" by (intro tty_of_same) (simp_all add: kb_leave_def vframe_def)
  show "pmem (kb_leave v) = pmem v" by (simp add: kb_leave_def)
qed

text \<open>A key whose handler prints \<open>c\<close>, possibly followed by a change of the flags of the line.\<close>

lemma handler_echo:
  assumes "kb_inv s" "display_ok s" "cur_sched_term s = cur_terminal s" "accepts c (the_term s)" "buf_index (the_term s) < 128"
    and "keyboard_interrupt_handler k s = kb_leave (upd_term (cur_terminal s) f (print_scancode c (kb_enter s)))"
    and "\<And>t. scr_x (f t) = scr_x t \<and> scr_y (f t) = scr_y t \<and> vid_mem (f t) = vid_mem t \<and> mods (f t) = mods t"
  shows "echoes [kbdus c] s (keyboard_interrupt_handler k s)" "mods (the_term (keyboard_interrupt_handler k s)) = mods (the_term s)"
proof -
  note en = kb_enter_editing [OF assms(1)] and kt = kb_enter_tty [OF assms(2,3)]
  define u where "u = print_scancode c (kb_enter s)"
  define v where "v = upd_term (cur_terminal s) f u"
  have ac: "accepts c (the_term (kb_enter s))" using assms(4) en(4) by simp
  have i: "buf_index (the_term (kb_enter s)) < 128 \<or> \<not> accepts c (the_term (kb_enter s))" using assms(5) en(4) by simp
  note p = print_scancode_step [OF en(1) i, folded u_def]
  have "console_inv (kb_enter s)" using editing_term [OF en(1)] by simp
  note e = print_scancode_echo [OF this en(3) _ ac, folded u_def]
  have pt: "print_terminal (kb_enter s) = cur_terminal (kb_enter s)" using kt by simp
  have fr: "edit_frame (kb_enter s) v" unfolding v_def using assms(7) by (intro edit_frame_trans [OF p(2)] edit_frame_upd_term) simp
  have cv: "cur_terminal v = cur_terminal s" using p(3) kt(3) by (simp add: v_def upd_term_def)
  have "tty_of v = tty_of u" using assms(7) by (intro tty_of_same) (simp_all add: v_def upd_term_def vframe_def)
  then have "tty_of (kb_leave v) = tty_put (kbdus c) (tty_of s)" "same_outside VIDEO (pmem s) (pmem (kb_leave v))"
    using e [OF pt] kt kb_leave_tty [OF assms(3) fr cv] by (simp_all add: v_def upd_term_def)
  moreover have m: "console.more v = console.more (kb_enter s)" using fr by (simp add: edit_frame_def)
  have l: "cur_sched_term (kb_leave v) = cur_sched_term s" "terminals (kb_leave v) = terminals v"
    "cur_terminal (kb_leave v) = cur_terminal v"
    using sched_of_more(2) [OF m] by (simp_all add: kb_leave_def) (simp add: kb_enter_def)
  have "vid_mem (terminals (kb_leave v) k) = vid_mem (terminals s k)" for k
    using fr by (simp add: l(2) edit_frame_def) (simp add: kb_enter_def)
  ultimately show "echoes [kbdus c] s (keyboard_interrupt_handler k s)"
    using l cv by (simp add: assms(6) echoes_def u_def [symmetric] v_def [symmetric])
  have "mods (the_term v) = mods (the_term u)" using p(3) kt(3) assms(7) by (simp add: the_term_def v_def upd_term_def)
  then show "mods (the_term (keyboard_interrupt_handler k s)) = mods (the_term s)"
    using l(2,3) p(7) en(4) by (simp add: assms(6) u_def [symmetric] v_def [symmetric] the_term_def)
qed

lemma plain_key_echo:
  assumes "kb_inv s" "display_ok s" "cur_sched_term s = cur_terminal s" "line_buffer_flag (the_term s) = 0"
    and "buf_index (the_term s) < 127" "plain_key k (the_term s)"
  shows "echoes [key_char k (the_term s)] s (keyboard_interrupt_handler k s)"
proof -
  note en = kb_enter_editing [OF assms(1)]
  have pk: "plain_key k (the_term (kb_enter s))" using assms(6) en(4) by simp
  obtain c where c: "c \<noteq> NEW_LINE" "kbdus c = key_char k (the_term s)"
    "recent_release_exec k (kb_enter s) = print_scancode c (kb_enter s)"
    using plain_key_prints [OF pk] en(4) by metis
  have "k < 0x80" "\<not> ignored k" using assms(6) unfolding plain_key_def ignored_def by unat_arith+
  then have h: "keyboard_interrupt_handler k s = kb_leave (upd_term (cur_terminal s) (\<lambda>t. t) (print_scancode c (kb_enter s)))"
    by (simp add: keyboard_handler_eq c(3) upd_term_def)
  have "accepts c (the_term s)" using assms(4,5) by (simp add: accepts_def)
  from handler_echo(1) [OF assms(1-3) this _ h] show ?thesis using assms(5) by (simp add: c(2))
qed

lemma enter_echo:
  assumes "kb_inv s" "display_ok s" "cur_sched_term s = cur_terminal s" "line_buffer_flag (the_term s) = 0"
    and "buf_index (the_term s) < 128"
  shows "echoes [0x0A] s (keyboard_interrupt_handler NEW_LINE s)"
    "mods (the_term (keyboard_interrupt_handler NEW_LINE s)) = mods (the_term s)"
proof -
  have h: "keyboard_interrupt_handler NEW_LINE s =
      kb_leave (upd_term (cur_terminal s) (\<lambda>t. t\<lparr>line_buffer_flag := 1\<rparr>) (print_scancode NEW_LINE (kb_enter s)))"
    by (simp add: keyboard_handler_eq ignored_def recent_release_exec_def Let_def word_le_def) (simp add: kb_enter_def)
  have "accepts NEW_LINE (the_term s)" using assms(4) by (simp add: accepts_def)
  note e = handler_echo [OF assms(1-3) this assms(5) h]
  have "kbdus NEW_LINE = 0x0A" by (simp add: kbdus_def kbdus_init_def)
  then show "echoes [0x0A] s (keyboard_interrupt_handler NEW_LINE s)" using e(1) by (simp add: mods_def)
  show "mods (the_term (keyboard_interrupt_handler NEW_LINE s)) = mods (the_term s)" using e(2) by (simp add: mods_def)
qed

text \<open>A whole line: what \<open>Keyboard.wait_typed\<close> says of the line buffer, with the screen.\<close>

lemma wait_echo:
  assumes "kb_inv s" "display_ok s" "cur_sched_term s = cur_terminal s"
    and "line_buffer_flag (the_term s) = 0" "\<forall>k \<in> set ks. plain_key k (the_term s)"
    and "length (line_of (the_term s)) + length ks \<le> 127"
    and "wait_line (ks @ NEW_LINE # rest) s = Some (r, s')"
  shows "echoes (map (\<lambda>k. key_char k (the_term s)) ks @ [0x0A]) s s' \<and> mods (the_term s') = mods (the_term s)"
  using assms
proof (induction ks arbitrary: s)
  case Nil
  define s1 where "s1 = keyboard_interrupt_handler NEW_LINE s"
  have idx: "buf_index (the_term s) < 128"
    using Nil.prems(6) line_ok_term [OF Nil.prems(1)] by (auto simp: length_line_of line_ok_def)
  then have no: "\<not> overflowing NEW_LINE (the_term s)" by (simp add: overflowing_def)
  note k = keyboard_step [OF Nil.prems(1,2) no, folded s1_def]
  note e = enter_key_step [OF Nil.prems(1) no, folded s1_def] and ec = enter_echo [OF Nil.prems(1-4) idx, folded s1_def]
  have "\<not> line_ready s" using Nil.prems(3,4) by (simp add: line_ready_def the_term_def)
  then have "wait_line (NEW_LINE # rest) s = wait_line rest s1"
    by (subst wait_line.simps) (simp add: s1_def)
  moreover have "line_ready s1" using e k(4) Nil.prems(3) by (simp add: line_ready_def the_term_def)
  then have "wait_line rest s1 = Some (rest, s1)" by (subst wait_line.simps) simp
  ultimately show ?case using Nil.prems(7) ec by simp
next
  case (Cons c ks)
  define s1 where "s1 = keyboard_interrupt_handler c s"
  have pl: "plain_key c (the_term s)" using Cons.prems(5) by simp
  have idx: "0 \<le> buf_index (the_term s)" "buf_index (the_term s) < 127"
    using Cons.prems(6) line_ok_term [OF Cons.prems(1)] by (auto simp: length_line_of line_ok_def)
  have no: "\<not> overflowing c (the_term s)" using pl by (auto simp: overflowing_def plain_key_def)
  note k = keyboard_step [OF Cons.prems(1,2) no, folded s1_def]
  note p = plain_key_step [OF Cons.prems(1) pl, folded s1_def]
  note ec = plain_key_echo [OF Cons.prems(1-4) idx(2) pl, folded s1_def]
  have l: "line_of (the_term s1) = line_of (the_term s) @ [key_char c (the_term s)]"
    using k(7) p(1) pl Cons.prems(4) idx
    by (simp add: the_term_def plain_key_def typed_line_def accepts_def)
  have "\<not> line_ready s" using Cons.prems(3,4) by (simp add: line_ready_def the_term_def)
  then have "wait_line ((c # ks) @ NEW_LINE # rest) s = wait_line (ks @ NEW_LINE # rest) s1"
    by (subst wait_line.simps) (simp add: s1_def)
  then have "echoes (map (\<lambda>k. key_char k (the_term s1)) ks @ [0x0A]) s1 s' \<and> mods (the_term s') = mods (the_term s1)"
    using k p l Cons.prems by (intro Cons.IH) (simp_all add: mods_cong(2) [OF p(2)])
  then show ?case using echoes_trans [OF ec, of "map (\<lambda>k. key_char k (the_term s1)) ks @ [0x0A]" s'] p(2) by (simp add: mods_cong(1) [OF p(2)])
qed

section \<open>Reading a line\<close>

lemma kstore_screens [simp]: "terminals (kstore a b s) = terminals s" "cur_terminal (kstore a b s) = cur_terminal s"
  by (simp_all add: kstore_def raise_fault_def split: option.split)

lemma store_range_screens [simp]:
  fixes s :: "'a console_scheme"
  shows "terminals (store_range a n m s) = terminals s" "cur_terminal (store_range a n m s) = cur_terminal s"
proof -
  have "terminals (fold (\<lambda>i. kstore (a + of_nat i) (m (a + of_nat i))) xs u) = terminals u \<and>
      cur_terminal (fold (\<lambda>i. kstore (a + of_nat i) (m (a + of_nat i))) xs u) = cur_terminal u" for xs and u :: "'a console_scheme"
    by (induction xs arbitrary: u) simp_all
  then show "terminals (store_range a n m s) = terminals s" "cur_terminal (store_range a n m s) = cur_terminal s"
    by (simp_all add: store_range_def)
qed

lemma copy_store:
  "n \<le> 128 \<Longrightarrow> fold (copy_key buf) [0..int n - 1] s = store_range buf n (\<lambda>x. kb_buf (the_term s) (uint (x - buf))) s"
proof (induction n)
  case 0
  then show ?case by simp
next
  case (Suc n)
  have "[0..int (Suc n) - 1] = [0..int n - 1] @ [int n]" using upto_rec2 [of 0 "int n"] by simp
  moreover have "uint (of_nat n :: u32) = int n" using Suc.prems by (simp add: uint_nat unat_of_nat32)
  ultimately show ?case using Suc by (simp add: store_range_Suc copy_key_def [of _ "int n"] the_term_def)
qed

lemma read_finish_store:
  assumes "line_ok (the_term s)" "b = min n (nat (buf_index (the_term s)))"
  shows "terminal_read_finish buf (int n) s =
    (int b, sti (upd_term (cur_terminal s) (\<lambda>t. t\<lparr>buf_index := 0\<rparr>)
       (store_range buf b (\<lambda>x. kb_buf (the_term s) (uint (x - buf))) (cli s))))"
proof -
  have i: "0 \<le> buf_index (the_term s)" "b \<le> 128" using assms by (auto simp: line_ok_def)
  then have b: "(if int n < buf_index (the_term s) then int n else buf_index (the_term s)) = int b" using assms(2) by auto
  have c: "the_term (cli s) = the_term s" by (simp add: the_term_def cli_def)
  have ck: "(\<lambda>i s. if i < BUF_LENGTH then kstore (buf + word_of_int i) (kb_buf (the_term s) i) s
      else raise_fault s) = copy_key buf"
    by (simp add: copy_key_def fun_eq_iff)
  show ?thesis
    unfolding terminal_read_finish_def Let_def ck c b using copy_store [OF i(2), of buf "cli s"] by (simp add: c) (simp add: cli_def)
qed

lemma echoes_view:
  assumes "echoes bs s t" "runs_program s p" "runs_program t p" "1 \<le> p" "p \<le> 6" "a \<in> main_region"
  shows "vmem t a = vmem s a"
proof -
  have v: "(VIDEO :: addr) \<in> screen_pages" by (simp add: screen_pages_def)
  obtain pa where pa: "translate False s a = Some pa" "translate False t a = Some pa" "4000 \<le> pa - VIDEO"
    using main_translate [OF assms(2), of a] main_translate [OF assms(3), of a] assms(6)
      kernel_page_far [OF _ v, of a] prog_addr_far [OF assms(4,5) v, of a] by (auto simp: main_region_def prog_addr_def)
  then show ?thesis using assms(1) by (simp add: vmem_def kload_def echoes_def same_outside_def)
qed

lemma echoes_shown:
  assumes "echoes bs s t" "kb_inv s" "term_no k" "k \<noteq> cur_terminal s" "i < PAGE_SIZE"
  shows "shown t k i = shown s k i"
proof -
  have b: "buffers_ok s" and c: "term_no (cur_terminal s)" using assms(2) by (simp_all add: kb_inv_def sched_inv_def console_inv_def)
  have "4000 \<le> screen_of s k + i - VIDEO"
    using screens_apart [OF screen_of_page [OF b assms(3)] screen_of_page [OF b c] assms(5)] screens_distinct [OF b assms(3) c] assms(4)
    by (simp add: screen_of_def)
  moreover have "screen_of t k = screen_of s k" using assms(1) by (simp add: screen_of_def echoes_def)
  ultimately show ?thesis using assms(1) by (simp add: shown_def echoes_def same_outside_def)
qed

lemma read_finish_echo:
  fixes s :: "'a kb_scheme"
  assumes "kb_inv s" "display_ok s" "runs_program s p" "1 \<le> p" "p \<le> 6" "user_range buf n" "line_of (the_term s) = line"
  obtains t where "terminal_read_finish buf (int n) s = (int (length (take n line)), t)"
    "tty_of t = tty_of s" "cur_terminal t = cur_terminal s" "line_of (the_term t) = []" "mods (the_term t) = mods (the_term s)" "fault t = fault s"
    "\<And>k i. term_no k \<Longrightarrow> i < PAGE_SIZE \<Longrightarrow> shown t k i = shown s k i"
    "\<And>x. x \<in> main_region \<Longrightarrow> vmem t x = (if unat (x - buf) < length (take n line) then line ! unat (x - buf) else vmem s x)"
proof -
  let ?b = "min n (nat (buf_index (the_term s)))" let ?m = "\<lambda>x :: addr. kb_buf (the_term s) (uint (x - buf))"
  have lo: "line_ok (the_term s)" by (rule line_ok_term [OF assms(1)])
  have b: "?b = length (take n line)" using assms(7) length_line_of [of "the_term s"] by auto
  have rc: "runs_program (cli s) p" using assms(3) by (auto simp: runs_program_def cli_def paging_wf_def paging_on_def)
  have ur: "?b \<le> 2 ^ 32" "\<And>i. i < ?b \<Longrightarrow> buf + of_nat i \<in> main_region" "\<forall>i < ?b. drop_bit 22 (buf + of_nat i) = 32"
    using assms(6) by (auto simp: user_range_def main_region_def)
  obtain q where q: "store_range buf ?b ?m (cli s) = (cli s)\<lparr>pmem := q\<rparr>"
    "\<And>x. x \<in> main_region \<Longrightarrow> vmem ((cli s)\<lparr>pmem := q\<rparr>) x = (if unat (x - buf) < ?b then ?m x else vmem (cli s) x)"
    by (rule store_range_view [OF main_region_plain [OF rc] ur(1,2), where m = ?m], assumption, rule that)
  have "own_frame p s q" using store_range_frame [OF rc ur(3), of ?m] by (simp add: q(1) own_frame_def) (simp add: cli_def)
  note sc = own_frame_screens [OF assms(1,2,4,5) this]
  define t where "t = sti (upd_term (cur_terminal s) (\<lambda>t. t\<lparr>buf_index := 0\<rparr>) ((cli s)\<lparr>pmem := q\<rparr>))"
  have fs: "vmem t = vmem ((cli s)\<lparr>pmem := q\<rparr>)" "vmem (cli s) = vmem s"
    by (simp_all add: t_def sti_def cli_def upd_term_def vmem_def kload_def fun_eq_iff translate_def table_at_def Let_def)
  have at: "?m x = line ! unat (x - buf)" if "unat (x - buf) < ?b" for x
    unfolding assms(7) [symmetric] line_of_def using that by (simp add: zless_nat_eq_int_zless)
  show thesis
  proof (rule that)
    show "terminal_read_finish buf (int n) s = (int (length (take n line)), t)"
      using read_finish_store [OF lo refl, of buf n] by (simp only: t_def q(1) [unfolded b] b)
    show "tty_of t = tty_of s" unfolding sc(1) [symmetric]
      by (rule tty_of_same) (simp_all add: t_def sti_def cli_def upd_term_def vframe_def)
    show "cur_terminal t = cur_terminal s" "mods (the_term t) = mods (the_term s)" "line_of (the_term t) = []" "fault t = fault s"
      by (simp_all add: t_def sti_def cli_def upd_term_def the_term_def mods_def line_of_def)
    show "shown t k i = shown s k i" if "term_no k" "i < PAGE_SIZE" for k i
      unfolding sc(2) [OF that, symmetric] by (simp add: t_def sti_def cli_def upd_term_def shown_def screen_of_def)
    show "vmem t x = (if unat (x - buf) < length (take n line) then line ! unat (x - buf) else vmem s x)" if "x \<in> main_region" for x
      using q(2) [OF that] at [of x] by (simp only: fs b [symmetric] if_split) simp
  qed
qed

lemma terminal_read_echo:
  fixes s :: "'a kb_scheme"
  assumes "kb_inv s" "display_ok s" "runs_program s p" "1 \<le> p" "p \<le> 6" "cur_sched_term s = cur_terminal s"
    and "line_of (the_term s) = []" "\<forall>k \<in> set ks. plain_key k (the_term s)" "length ks \<le> 127"
    and "user_range buf n" "buf \<noteq> 0"
  defines "line \<equiv> map (\<lambda>k. key_char k (the_term s)) ks @ [0x0A]"
  obtains t where "terminal_read buf (int n) (ks @ NEW_LINE # rest) s = Some (int (length (take n line)), rest, t)"
    "tty_of t = fold tty_put line (tty_of s)" "cur_terminal t = cur_terminal s"
    "line_of (the_term t) = []" "mods (the_term t) = mods (the_term s)" "\<not> fault t"
    "\<And>k i. term_no k \<Longrightarrow> k \<noteq> cur_sched_term s \<Longrightarrow> i < PAGE_SIZE \<Longrightarrow> shown t k i = shown s k i"
    "\<And>x. x \<in> main_region \<Longrightarrow> vmem t x = (if unat (x - buf) < length (take n line) then line ! unat (x - buf) else vmem s x)"
proof -
  define u where "u = upd_term (cur_sched_term s) (\<lambda>t. t\<lparr>line_buffer_flag := 0\<rparr>) s"
  have ut: "the_term u = (the_term s)\<lparr>line_buffer_flag := 0\<rparr>" "cur_terminal u = cur_terminal s" "page_directory u = page_directory s"
    "cur_sched_term u = cur_sched_term s" "vmem u = vmem s" "shown u = shown s" "tty_of u = tty_of s"
    using assms(6) by (simp_all add: u_def upd_term_def the_term_def vmem_def kload_def fun_eq_iff translate_def table_at_def Let_def
        shown_def screen_of_def tty_of_def vframe_def)
  have mt: "mods (the_term u) = mods (the_term s)" and lt: "line_of (the_term u) = []" and fl: "line_buffer_flag (the_term u) = 0"
    using assms(7) by (simp_all add: ut mods_def line_of_def)
  have pk: "\<forall>k \<in> set ks. plain_key k (the_term u)" using assms(8) mods_cong(2) [OF mt] by simp
  have ln: "map (\<lambda>k. key_char k (the_term u)) ks @ [0x0A] = line" by (simp add: line_def mods_cong(1) [OF mt])
  note ui = read_start_inv [OF assms(1,2), folded u_def]
  have cu: "cur_sched_term u = cur_terminal u" and ll: "length (line_of (the_term u)) + length ks \<le> 127" using ut assms(6,9) lt by simp_all
  obtain w where w: "wait_line (ks @ NEW_LINE # rest) u = Some (rest, w)" "kb_inv w" "display_ok w"
    "cur_terminal w = cur_terminal u" "cur_sched_term w = cur_sched_term u" "page_directory w = page_directory u" "line_of (the_term w) = line"
    using wait_typed [OF ui cu fl pk ll, of rest] lt ln by auto
  have ec: "echoes line u w" "mods (the_term w) = mods (the_term u)" using wait_echo [OF ui cu fl pk ll w(1)] ln by auto
  have wf: "paging_wf w" "paging_wf u" "\<not> fault w" using w(2) ui(1) by (simp_all add: kb_inv_def sched_inv_def console_inv_def video_ok_def)
  then have ru: "runs_program u p" and rw: "runs_program w p" using assms(3) w(6) ut(3) by (simp_all add: runs_program_def)
  note ev = echoes_view [OF ec(1) ru rw assms(4,5)] and es = echoes_shown [OF ec(1) ui(1)]
  obtain t where t: "terminal_read_finish buf (int n) w = (int (length (take n line)), t)"
    "tty_of t = tty_of w" "cur_terminal t = cur_terminal w" "line_of (the_term t) = []" "mods (the_term t) = mods (the_term w)" "fault t = fault w"
    "\<And>k i. term_no k \<Longrightarrow> i < PAGE_SIZE \<Longrightarrow> shown t k i = shown w k i"
    "\<And>x. x \<in> main_region \<Longrightarrow> vmem t x = (if unat (x - buf) < length (take n line) then line ! unat (x - buf) else vmem w x)"
    by (rule read_finish_echo [OF w(2,3) rw assms(4,5,10) w(7)]) (rule that)
  have "terminal_read buf (int n) (ks @ NEW_LINE # rest) s = Some (int (length (take n line)), rest, t)"
    using assms(11) w(1) t(1) by (simp add: terminal_read_def terminal_read_start_def u_def [symmetric])
  moreover have "tty_of w = fold tty_put line (tty_of s)" using ec(1) ut(7) by (simp add: echoes_def)
  ultimately show thesis using t w(4) ut ec(2) mt ev es assms(6) wf(3) by (intro that [of t]) simp_all
qed

text \<open>What has been typed: unchanged by all output.\<close>

definition typing :: "'a console_scheme \<Rightarrow> int \<times> (int \<Rightarrow> u8 list \<times> u8 list)" where
  "typing s = (cur_terminal s, \<lambda>k. (line_of (terminals s k), mods (terminals s k)))"

lemma typing_upd_term: "(\<And>t. line_of (f t) = line_of t \<and> mods (f t) = mods t) \<Longrightarrow> typing (upd_term i f s) = typing s"
  by (auto simp: typing_def upd_term_def fun_eq_iff)

lemma typing_cursor [simp]:
  "typing (upd_term i (\<lambda>t. t\<lparr>scr_x := x t\<rparr>) s) = typing s" "typing (upd_term i (\<lambda>t. t\<lparr>scr_y := y t\<rparr>) s) = typing s"
  "typing (upd_term i (\<lambda>t. t\<lparr>scr_y := y t, scr_x := x t\<rparr>) s) = typing s"
  by (rule typing_upd_term; simp add: line_of_def mods_def)+

lemma typing_machine [simp]:
  "typing (kstore a b s) = typing s" "typing (raise_fault s) = typing s" "typing (outb b p s) = typing s"
  "typing (s\<lparr>current_line := l\<rparr>) = typing s" "typing (s\<lparr>iflag := g\<rparr>) = typing s" "typing (s\<lparr>pmem := q\<rparr>) = typing s"
  by (simp_all add: typing_def raise_fault_def outb_def)

lemma typing_flags [simp]: "typing (s\<lparr>kb_flags := g\<rparr>) = typing s" "typing (u\<lparr>script := sc\<rparr>) = typing u"
  by (simp_all add: typing_def)

lemma fold_typing: "(\<And>x s. typing (f x s) = typing s) \<Longrightarrow> typing (fold f xs s) = typing s"
  by (induction xs arbitrary: s) simp_all

lemma typing_screen [simp]:
  "typing (put_cell c j s) = typing s" "typing (copy_cell j s) = typing s" "typing (show_cursor s) = typing s"
  by (simp_all add: put_cell_def copy_cell_def show_cursor_def move_cursor_def Let_def split: option.split)

lemma typing_putc [simp]: "typing (putc c s) = typing s"
proof -
  have "typing (scroll_up t) = typing t" for t :: "'a console_scheme" by (simp add: scroll_up_def fold_typing)
  then have "typing (new_line t) = typing t" for t :: "'a console_scheme" by (simp add: new_line_def Let_def)
  then show ?thesis by (simp add: putc_def Let_def)
qed

lemma typing_terminal_write: "typing (snd (terminal_write buf n s)) = typing s"
proof -
  have "typing (write_byte buf i t) = typing t" for i and t :: "'a kb_scheme" by (simp add: write_byte_def split: option.split)
  then show ?thesis by (simp add: terminal_write_def cli_and_save_def cli_def restore_flags_def Let_def fold_typing)
qed

section \<open>A program at the keyboard\<close>

text \<open>Process \<open>p\<close> between its calls while its terminal is in view, with nothing typed yet, the modifier keys as in \<open>ms\<close> and its
  first two descriptors the terminal's.\<close>

definition interactive :: "int \<Rightarrow> stacks \<Rightarrow> u8 list \<Rightarrow> user \<Rightarrow> bool" where
  "interactive p cs ms s \<longleftrightarrow>
     user_ok p s \<and> procs s cs \<and> cur_sched_term s = cur_terminal s \<and> line_of (the_term s) = [] \<and> mods (the_term s) = ms \<and>
     fd_flags (own_fd p s 0) \<noteq> - 1 \<and> jump_ptr (own_fd p s 0) = stdin_table \<and>
     fd_flags (own_fd p s 1) \<noteq> - 1 \<and> jump_ptr (own_fd p s 1) = stdout_table"

lemma interactive_same:
  assumes "interactive p cs ms s" "user_ok p t" "pcbs t = pcbs s" "process_num t = process_num s" "process_array t = process_array s"
    "sched_arr t = sched_arr s" "cur_sched_term t = cur_sched_term s" "cur_terminal t = cur_terminal s"
    "line_of (the_term t) = []" "mods (the_term t) = mods (the_term s)"
  shows "interactive p cs ms t"
proof -
  have "procs t cs" by (rule procs_cong [of s]) (use assms in \<open>simp_all add: interactive_def\<close>)
  then show ?thesis using assms by (simp add: interactive_def)
qed

lemma typing_term:
  assumes "typing t = typing s"
  shows "cur_terminal t = cur_terminal s" "line_of (the_term t) = line_of (the_term s)" "mods (the_term t) = mods (the_term s)"
proof -
  show c: "cur_terminal t = cur_terminal s" using assms by (simp add: typing_def)
  show "line_of (the_term t) = line_of (the_term s)" "mods (the_term t) = mods (the_term s)"
    using arg_cong [OF assms, of "\<lambda>x. snd x (cur_terminal s)"] c by (simp_all add: typing_def the_term_def)
qed

lemma interactiveD:
  assumes "interactive p cs ms s"
  shows "user_ok p s" "procs s cs" "cur_sched_term s = cur_terminal s" "line_of (the_term s) = []" "mods (the_term s) = ms"
    "fd_flags (own_fd p s 0) \<noteq> - 1" "jump_ptr (own_fd p s 0) = stdin_table"
    "fd_flags (own_fd p s 1) \<noteq> - 1" "jump_ptr (own_fd p s 1) = stdout_table"
  using assms by (simp_all add: interactive_def)

lemma entered_kernel [simp]:
  "process_num (entered s) = process_num s" "process_array (entered s) = process_array s" "sched_arr (entered s) = sched_arr s"
  "cur_terminal (entered s) = cur_terminal s" "terminals (entered s) = terminals s" "typing (entered s) = typing s"
  by (simp_all add: entered_def trap_def sti_def typing_def)

lemma interactive_returns:
  assumes "interactive p cs ms s" "kept t = kept (entered s)" "user_ok p (t\<lparr>script := x\<rparr>)"
    and "cur_terminal t = cur_terminal s" "line_of (the_term t) = []" "mods (the_term t) = mods (the_term s)"
  shows "interactive p cs ms (t\<lparr>script := x\<rparr>)"
proof -
  note k = kept_kernel [OF assms(2)]
  show ?thesis
    by (rule interactive_same [OF assms(1,3)])
      (use k core_fields(1,2) [OF k(8)] assms(4-6) in \<open>simp_all add: the_term_def\<close>)
qed

lemma interactive_puts:
  assumes "interactive p cs ms s" "is_cstr (vmem s) a xs" "user_range a (Suc (length xs))"
  obtains t where "ece391_fdputs 1 a s = Some t" "interactive p cs ms t" "outputs p xs s t"
    "\<And>x. x \<in> main_region \<Longrightarrow> vmem t x = vmem s x" "script t = stl (script s)"
proof -
  note d = interactiveD [OF assms(1)]
  obtain t where t: "ece391_fdputs 1 a s = Some t" "user_ok p t" "outputs p xs s t" "\<And>x. x \<in> main_region \<Longrightarrow> vmem t x = vmem s x"
    by (rule fdputs_call [OF d(1) _ _ d(8,9) assms(2,3)]) simp_all
  have e: "cur_pcb (entered s) = pcbs s (pcb_addr p)" by (rule entered_ok(6) [OF d(1)])
  obtain n u where u: "t = u\<lparr>script := stl (script s)\<rparr>" "u = snd (terminal_write a n (entered s))"
    using t(1) d(8,9)
    by (auto simp: ece391_fdputs_def ece391_write_def syscalls sys_write_def Let_def split_beta e split: option.splits if_splits)
  have k: "kept u = kept (entered s)" by (simp add: u(2))
  have ty: "typing u = typing s" by (simp add: u(2) typing_terminal_write)
  have "interactive p cs ms t"
    unfolding u(1) using t(2) typing_term [OF ty] d(4) by (intro interactive_returns [OF assms(1) k]) (simp_all add: u(1))
  then show thesis using t u(1) by (intro that [of t]) simp_all
qed

lemma interactive_store:
  assumes "interactive p cs ms s" "drop_bit 22 a = 32"
  obtains t where "ustore a b s = Some t" "interactive p cs ms t" "outputs p [] s t"
    "\<And>x. x \<in> main_region \<Longrightarrow> vmem t x = ((vmem s)(a := b)) x" "script t = script s"
proof -
  note d = interactiveD [OF assms(1)]
  obtain t where t: "ustore a b s = Some t" "user_ok p t" "outputs p [] s t" "pcbs t = pcbs s"
    "\<And>x. x \<in> main_region \<Longrightarrow> vmem t x = ((vmem s)(a := b)) x"
    by (rule ustore_call [OF d(1) assms(2)]) (rule that)
  obtain q where "t = s\<lparr>pmem := q\<rparr>" using t(1) by (auto simp: ustore_def)
  then have "interactive p cs ms t" "script t = script s"
    using t(2) d(4) by (auto intro!: interactive_same [OF assms(1)] simp: the_term_def)
  then show thesis using t by (intro that)
qed

text \<open>The keys type \<open>line\<close> and Enter, on a terminal with the modifiers of \<open>t\<close>.\<close>

definition typed :: "shell \<Rightarrow> u8 list \<Rightarrow> u8 list \<Rightarrow> bool" where
  "typed t line keys \<longleftrightarrow>
     (\<exists>ks rest. keys = ks @ NEW_LINE # rest \<and> (\<forall>k \<in> set ks. plain_key k t) \<and> length ks \<le> 127 \<and>
        line = map (\<lambda>k. key_char k t) ks)"

lemma typed_cong: "mods t = mods u \<Longrightarrow> typed t line keys = typed u line keys"
  by (simp add: typed_def mods_cong [of t u])

lemma typed_length: "typed t line keys \<Longrightarrow> length line \<le> 127"
  by (auto simp: typed_def)

lemma interactive_read:
  assumes "interactive p cs ms s" "typed (the_term s) line (keystrokes (shd (script s)))" "user_range buf n" "0 < n"
  obtains t where "ece391_read 0 buf (int n) s = Some (int (length (take n (line @ [0x0A]))), t)" "interactive p cs ms t"
    "outputs p (line @ [0x0A]) s t" "script t = stl (script s)"
    "\<And>x. x \<in> main_region \<Longrightarrow> vmem t x =
       (if unat (x - buf) < length (take n (line @ [0x0A])) then (line @ [0x0A]) ! unat (x - buf) else vmem s x)"
proof -
  let ?u = "entered s" let ?L = "line @ [0x0A]" let ?n = "length (take n ?L)"
  note d = interactiveD [OF assms(1)]
  note e = entered_ok [OF d(1)] and o = user_okD [OF d(1)]
  obtain ks rest where ks: "keystrokes (shd (script s)) = ks @ NEW_LINE # rest" "\<forall>k \<in> set ks. plain_key k (the_term ?u)" "length ks \<le> 127"
    and ln: "map (\<lambda>k. key_char k (the_term ?u)) ks @ [0x0A] = ?L"
    using assms(2) by (auto simp: typed_def the_term_def)
  have nz: "buf \<noteq> 0" using assms(3,4) by (auto simp: user_range_def dest: spec [of _ 0])
  have c: "cur_sched_term ?u = cur_terminal ?u" "line_of (the_term ?u) = []" using d(3,4) by (simp_all add: the_term_def)
  obtain t where t: "terminal_read buf (int n) (ks @ NEW_LINE # rest) ?u = Some (int ?n, rest, t)"
    "tty_of t = fold tty_put ?L (tty_of ?u)" "cur_terminal t = cur_terminal ?u" "line_of (the_term t) = []"
    "mods (the_term t) = mods (the_term ?u)" "\<not> fault t"
    "\<And>k i. term_no k \<Longrightarrow> k \<noteq> cur_sched_term ?u \<Longrightarrow> i < PAGE_SIZE \<Longrightarrow> shown t k i = shown ?u k i"
    "\<And>x. x \<in> main_region \<Longrightarrow> vmem t x = (if unat (x - buf) < ?n then ?L ! unat (x - buf) else vmem ?u x)"
    by (rule terminal_read_echo [OF e(2,3,1) o(6,7) c ks(2,3) assms(3) nz, of rest, unfolded ln]) (rule that)
  have k: "kept t = kept ?u" by (rule kept_terminal_read [OF t(1)])
  note kk = kept_kernel [OF k]
  have "screens_ok t" by (rule screens_ok_terminal_read [OF t(1)]) (simp add: screens_ok_def e)
  then have so: "kb_inv t" "display_ok t" using t(6) by (simp_all add: screens_ok_def)
  have v: "vmem t a = vmem s a" if "drop_bit 22 a = 1" for a
  proof -
    have "?n \<le> n" by (simp only: length_take min.cobounded2)
    then have "\<not> unat (a - buf) < ?n" using that user_range_at [OF assms(3), of a] by fastforce
    then show ?thesis using t(8) [of a] that by (simp add: main_region_def del: length_take)
  qed
  have "files_ok t" by (rule files_ok_same [OF o(4)]) (use v kk(4) in \<open>simp_all add: local_view_def\<close>)
  then have ok: "user_ok p (t\<lparr>script := stl (script s)\<rparr>)" by (intro user_ok_return [OF d(1) so]) (simp_all add: kk)
  have "interactive p cs ms (t\<lparr>script := stl (script s)\<rparr>)"
    by (rule interactive_returns [OF assms(1) k ok]) (use t in \<open>simp_all add: the_term_def\<close>)
  moreover have "outputs p ?L s (t\<lparr>script := stl (script s)\<rparr>)"
    using t(2,7) v kk(3,4) core_fields(2) [OF kk(8)] by (simp add: outputs_def)
  moreover have "int n < 2 ^ 31" using user_range_small [OF assms(3)] by simp
  then have "ece391_read 0 buf (int n) s = Some (int ?n, t\<lparr>script := stl (script s)\<rparr>)"
    using d(6,7) t(1) ks(1) by (simp add: ece391_read_def syscalls sys_read_def Let_def e)
  ultimately show thesis using t(8) by (intro that [of "t\<lparr>script := stl (script s)\<rparr>"]) simp_all
qed

section \<open>Strings in the program page\<close>

lemma is_cstr_same:
  assumes "is_cstr m a xs" "\<And>i. i \<le> length xs \<Longrightarrow> m' (a + of_nat i) = m (a + of_nat i)"
  shows "is_cstr m' a xs"
  using assms(1) assms(2) [of "length xs"] bytes_at_same [of "length xs" m' a m] assms(2) by (simp add: is_cstr_def)

lemma strcmp_bytes:
  assumes "bytes_at m a (length xs) = xs" "m (a + of_nat (length xs)) = 0" "0 \<notin> set xs"
    and "bytes_at m b (length ys) = ys" "m (b + of_nat (length ys)) = 0" "0 \<notin> set ys"
  shows "\<exists>r. ece391_strcmp m a b = Some r \<and> (r = 0 \<longleftrightarrow> xs = ys)"
  using assms
proof (induction xs arbitrary: a b ys)
  case Nil
  have "m b = 0 \<longleftrightarrow> ys = []" using Nil(4,5,6) by (cases ys) (auto simp: bytes_at_Suc)
  then show ?case using Nil(2) by (subst ece391_strcmp.simps) (auto simp: uint_0_iff)
next
  case (Cons x xs)
  have a: "m a = x" "bytes_at m (a + 1) (length xs) = xs" "m (a + 1 + of_nat (length xs)) = 0" "x \<noteq> 0"
    using Cons.prems(1-3) by (auto simp: bytes_at_Suc algebra_simps)
  show ?case
  proof (cases "ys \<noteq> [] \<and> hd ys = x")
    case True
    then obtain zs where ys: "ys = x # zs" by (cases ys) auto
    have b: "m b = x" "bytes_at m (b + 1) (length zs) = zs" "m (b + 1 + of_nat (length zs)) = 0"
      using Cons.prems(4,5) by (auto simp: ys bytes_at_Suc algebra_simps)
    have "\<exists>r. ece391_strcmp m (a + 1) (b + 1) = Some r \<and> (r = 0 \<longleftrightarrow> xs = zs)"
      using Cons.prems(3,6) by (intro Cons.IH a b) (auto simp: ys)
    then show ?thesis using a(1,4) b(1) by (subst ece391_strcmp.simps) (simp add: ys)
  next
    case False
    then have "m b \<noteq> x" using Cons.prems(4,5) a(4) by (cases ys) (auto simp: bytes_at_Suc)
    then show ?thesis using False a(1) by (subst ece391_strcmp.simps) (auto simp: word_uint_eq_iff)
  qed
qed

lemma cstr_umem:
  assumes "user_ok p s" "is_cstr (vmem s) a xs" "user_range a (Suc (length xs))"
  shows "bytes_at (umem s) a (length xs) = xs" "umem s (a + of_nat (length xs)) = 0" "0 \<notin> set xs"
proof -
  have u: "umem s (a + of_nat i) = vmem s (a + of_nat i)" if "i \<le> length xs" for i
    using assms(3) that by (intro umem_user(2) [OF assms(1)]) (simp add: user_range_def)
  then have "bytes_at (umem s) a (length xs) = bytes_at (vmem s) a (length xs)" by (intro bytes_at_same) simp
  then show "bytes_at (umem s) a (length xs) = xs" "umem s (a + of_nat (length xs)) = 0" "0 \<notin> set xs"
    using assms(2) u [of "length xs"] by (simp_all add: is_cstr_def)
qed

lemma strcmp_user:
  assumes "user_ok p s" "is_cstr (vmem s) a xs" "user_range a (Suc (length xs))" "is_cstr (vmem s) b ys" "user_range b (Suc (length ys))"
  obtains r where "ece391_strcmp (umem s) a b = Some r" "r = 0 \<longleftrightarrow> xs = ys"
  using strcmp_bytes [OF cstr_umem [OF assms(1-3)] cstr_umem [OF assms(1,4,5)]] that by blast

lemma uload_user:
  assumes "user_ok p s" "drop_bit 22 a = 32"
  shows "uload a s = Some (vmem s a)"
  using umem_user [OF assms] by (auto simp: uload_def umapped_def vmem_def kload_def)

section \<open>One turn of the shell\<close>

definition shell_strings :: "u8 list list" where
  "shell_strings = map ascii [''Starting 391 Shell\<newline>'', ''391OS> '', ''exit'', ''no such command\<newline>'']"

definition shell_ok :: "int \<Rightarrow> stacks \<Rightarrow> u8 list \<Rightarrow> (u8 list \<Rightarrow> addr) \<Rightarrow> addr \<Rightarrow> user \<Rightarrow> bool" where
  "shell_ok p cs ms lit buf s \<longleftrightarrow>
     interactive p cs ms s \<and> user_range buf 1024 \<and> (\<forall>x \<in> set shell_strings. literal lit buf 1024 x s)"

lemma shell_ok_same:
  assumes "shell_ok p cs ms lit buf s" "interactive p cs ms t"
    and "\<And>a. a \<in> main_region \<Longrightarrow> 1024 \<le> unat (a - buf) \<Longrightarrow> vmem t a = vmem s a"
  shows "shell_ok p cs ms lit buf t"
  using assms literal_kept [where s = s and t = t and n = 1024 and buf = buf] by (auto simp: shell_ok_def)

lemma shell_puts:
  assumes "shell_ok p cs ms lit buf s" "x \<in> set shell_strings"
  obtains t where "ece391_fdputs 1 (lit x) s = Some t" "shell_ok p cs ms lit buf t" "outputs p x s t" "script t = stl (script s)"
    "\<And>a. a \<in> main_region \<Longrightarrow> vmem t a = vmem s a"
proof -
  have i: "interactive p cs ms s" "is_cstr (vmem s) (lit x) x" "user_range (lit x) (Suc (length x))"
    using assms by (auto simp: shell_ok_def literal_def)
  obtain t where "ece391_fdputs 1 (lit x) s = Some t" "interactive p cs ms t" "outputs p x s t"
    "\<And>x. x \<in> main_region \<Longrightarrow> vmem t x = vmem s x" "script t = stl (script s)"
    by (rule interactive_puts [OF i]) (rule that)
  then show thesis using shell_ok_same [OF assms(1)] by (intro that [of t]) auto
qed

text \<open>A line as the shell and \<open>hello\<close> leave it in their buffer.\<close>

lemma read_and_terminate:
  assumes "interactive p cs ms s" "user_range buf 1024" "typed (the_term s) line (keystrokes (shd (script s)))" "0 \<notin> set line"
    and "xs = line \<or> xs = line @ [0x0A]"
  obtains t u where "ece391_read 0 buf 1023 s = Some (int (length line) + 1, t)"
    "strip_newline buf (int (length line) + 1) t = Some (int (length line))"
    "ustore (buf + of_nat (length xs)) 0 t = Some u" "interactive p cs ms u" "outputs p (line @ [0x0A]) s u"
    "script u = stl (script s)" "is_cstr (vmem u) buf xs"
    "\<And>x. x \<in> main_region \<Longrightarrow> 1024 \<le> unat (x - buf) \<Longrightarrow> vmem u x = vmem s x"
proof -
  let ?L = "line @ [0x0A]"
  have ll: "length line \<le> 127" by (rule typed_length [OF assms(3)])
  have tk: "take 1023 ?L = ?L" using ll by simp
  have r1: "user_range buf 1023" by (rule user_range_mono [OF assms(2)]) simp
  obtain t where t: "ece391_read 0 buf (int 1023) s = Some (int (length ?L), t)" "interactive p cs ms t"
    "outputs p ?L s t" "script t = stl (script s)"
    "\<And>x. x \<in> main_region \<Longrightarrow> vmem t x = (if unat (x - buf) < length ?L then ?L ! unat (x - buf) else vmem s x)"
    by (rule interactive_read [OF assms(1,3) r1, unfolded tk]) simp_all
  have lx: "length xs \<le> 128" using ll assms(5) by auto
  have d: "drop_bit 22 (buf + of_nat i) = 32" "buf + of_nat i \<in> main_region" if "i < 1024" for i
    using assms(2) that by (simp_all add: user_range_def main_region_def)
  have at: "vmem t (buf + of_nat i) = ?L ! i" if "i < length ?L" for i
    using t(5) [OF d(2), of i] that ll by (simp add: unat_of_nat32)
  have "uload (buf + of_nat (length line)) t = Some 0x0A"
    using uload_user [OF interactiveD(1) [OF t(2)] d(1), of "length line"] at [of "length line"] ll by simp
  then have st: "strip_newline buf (int (length line) + 1) t = Some (int (length line))" by (simp add: strip_newline_def)
  obtain u where u: "ustore (buf + of_nat (length xs)) 0 t = Some u" "interactive p cs ms u" "outputs p [] t u"
    "\<And>x. x \<in> main_region \<Longrightarrow> vmem u x = ((vmem t)(buf + of_nat (length xs) := 0)) x" "script u = script t"
    by (rule interactive_store [OF t(2) d(1) [of "length xs"], of 0]) (use lx in simp_all)
  have ne: "of_nat i \<noteq> (of_nat (length xs) :: u32)" if "i < length xs" for i
  proof
    assume "of_nat i = (of_nat (length xs) :: u32)"
    then have "unat (of_nat i :: u32) = unat (of_nat (length xs) :: u32)" by simp
    then show False using that lx by (simp add: unat_of_nat32)
  qed
  have "bytes_at (vmem u) buf (length xs) = xs"
  proof (rule nth_equalityI)
    fix i assume "i < length (bytes_at (vmem u) buf (length xs))"
    then have i: "i < length xs" by simp
    then have "vmem u (buf + of_nat i) = ?L ! i" using u(4) [OF d(2), of i] ne [OF i] at [of i] lx assms(5) by auto
    then show "bytes_at (vmem u) buf (length xs) ! i = xs ! i" using i assms(5) by (auto simp: nth_append)
  qed simp
  moreover have "vmem u (buf + of_nat (length xs)) = 0" using u(4) [OF d(2), of "length xs"] lx by simp
  ultimately have "is_cstr (vmem u) buf xs" using assms(4,5) lx by (auto simp: is_cstr_def)
  moreover have "vmem u x = vmem s x" if "x \<in> main_region" "1024 \<le> unat (x - buf)" for x
  proof -
    have "x \<noteq> buf + of_nat (length xs)" using that(2) lx by (auto simp: unat_of_nat32)
    then show ?thesis using u(4) [OF that(1)] t(5) [OF that(1)] that(2) ll by simp
  qed
  moreover have "outputs p ?L s u" using outputs_trans [OF t(3) u(3)] by simp
  ultimately show thesis using t(1,4) st u by (intro that [of t u]) simp_all
qed

lemma shell_turn:
  assumes "shell_ok p cs ms lit buf s" "typed (the_term s) line (keystrokes (shd (stl (script s))))" "0 \<notin> set line"
  obtains t where
    "shell_loop lit child buf s =
       (if line = ascii ''exit'' then Some (0, t)
        else if line = [] then shell_loop lit child buf t
        else do {
          (rval, s) \<leftarrow> ece391_execute child buf t;
          s \<leftarrow> shell_report lit rval s;
          shell_loop lit child buf s
        })"
    "shell_ok p cs ms lit buf t" "outputs p (ascii ''391OS> '' @ line @ [0x0A]) s t" "script t = stl (stl (script s))"
    "is_cstr (vmem t) buf line"
proof -
  have st: "ascii ''391OS> '' \<in> set shell_strings" "ascii ''exit'' \<in> set shell_strings" by (simp_all add: shell_strings_def)
  obtain v where v: "ece391_fdputs 1 (lit (ascii ''391OS> '')) s = Some v" "shell_ok p cs ms lit buf v"
    "outputs p (ascii ''391OS> '') s v" "script v = stl (script s)"
    by (rule shell_puts [OF assms(1) st(1)]) (rule that)
  have i: "interactive p cs ms v" "user_range buf 1024" and ms: "mods (the_term v) = mods (the_term s)"
    using v(2) assms(1) by (simp_all add: shell_ok_def interactive_def)
  have ty: "typed (the_term v) line (keystrokes (shd (script v)))" using assms(2) typed_cong [OF ms] v(4) by simp
  obtain w t where t: "ece391_read 0 buf 1023 v = Some (int (length line) + 1, w)"
    "strip_newline buf (int (length line) + 1) w = Some (int (length line))"
    "ustore (buf + of_nat (length line)) 0 w = Some t" "interactive p cs ms t" "outputs p (line @ [0x0A]) v t"
    "script t = stl (script v)" "is_cstr (vmem t) buf line"
    "\<And>x. x \<in> main_region \<Longrightarrow> 1024 \<le> unat (x - buf) \<Longrightarrow> vmem t x = vmem v x"
    by (rule read_and_terminate [OF i ty assms(3) disjI1 [OF refl]]) (rule that)
  have so: "shell_ok p cs ms lit buf t" using shell_ok_same [OF v(2) t(4,8)] .
  have ll: "length line \<le> 127" by (rule typed_length [OF ty])
  have ur: "user_range buf (Suc (length line))" by (rule user_range_mono [OF i(2)]) (use ll in simp)
  note d = interactiveD [OF t(4)]
  have "literal lit buf 1024 (ascii ''exit'') t" using so st by (simp add: shell_ok_def)
  then obtain r where r: "ece391_strcmp (umem t) buf (lit (ascii ''exit'')) = Some r" "r = 0 \<longleftrightarrow> line = ascii ''exit''"
    using strcmp_user [OF d(1) t(7) ur] by (auto simp: literal_def)
  have "drop_bit 22 buf = 32" using ur by (auto simp: user_range_def dest: spec [of _ 0])
  then have l: "uload buf t = Some (vmem t buf)" by (rule uload_user [OF d(1)])
  have e: "vmem t buf = 0 \<longleftrightarrow> line = []" using t(7) by (cases line) (auto simp: is_cstr_def bytes_at_Suc)
  have "shell_loop lit child buf s =
       (if line = ascii ''exit'' then Some (0, t)
        else if line = [] then shell_loop lit child buf t
        else do {
          (rval, s) \<leftarrow> ece391_execute child buf t;
          s \<leftarrow> shell_report lit rval s;
          shell_loop lit child buf s
        })"
    using v(1) t(1-3) r l e by (subst shell_loop.simps) simp
  moreover have "outputs p (ascii ''391OS> '' @ line @ [0x0A]) s t" using outputs_trans [OF v(3) t(5)] by simp
  ultimately show thesis using so t(6,7) v(4) by (intro that) simp_all
qed

text \<open>A command that names no file.\<close>

lemma execute_missing:
  fixes s :: "'a kernel_scheme"
  assumes "procs s cs" "runs_program s c" "files_ok s" "length (ELF_buf0 l) = 32"
    and "names_file s command line" "splits_into line name k as" "plain_name name" "lookup_name (vmem s) (fs_start s) name = None"
  shows "\<exists>b. execute l command s = Returns (- 1) (s\<lparr>iflag := b\<rparr>)"
proof (cases "process_num s \<ge> 6")
  case True
  then have "execute l command s = Returns (- 1) (s\<lparr>iflag := iflag s\<rparr>)" by (simp add: execute_def)
  then show ?thesis by blast
next
  case False
  define t where "t = s\<lparr>iflag := False\<rparr>"
  have t: "runs_program t c" "files_ok t" "vmem t = vmem s" "fs_start t = fs_start s" using assms(2,3) by (simp_all add: t_def)
  have "names_file t command line" using assms(5) by (simp add: names_file_def t)
  then have n: "command_name command 0 t = Some name" using command_name_line [OF t(1) _ assms(6), of command 0] by simp
  have "length name \<le> 32" using assms(6) by (simp add: splits_into_def)
  then have "read_header (fs_start t) l LOCAL_NAME (put_bytes LOCAL_NAME (name @ [0]) (vmem t)) = Some (Inl ())"
    using read_header_name(1) [OF t(2) assms(7) _ assms(4)] assms(8) by (simp add: t)
  then have "execute l command s = Returns (- 1) (sti t)"
    using n False procs_num [OF assms(1)] by (simp add: execute_def cli_def Let_def t_def [symmetric])
  then show ?thesis by (auto simp: t_def sti_def)
qed

definition unknown_command :: "u8 list \<Rightarrow> 'a kernel_scheme \<Rightarrow> bool" where
  "unknown_command line s \<longleftrightarrow>
     line \<noteq> [] \<and> (\<exists>name k as. splits_into line name k as \<and> plain_name name \<and> lookup_name (vmem s) (fs_start s) name = None)"

definition locals_ok :: "user \<Rightarrow> bool" where
  "locals_ok s \<longleftrightarrow> (\<forall>e \<in> sset (script s). length (ELF_buf0 (elf_locals e)) = 32)"

lemma line_names_file:
  assumes "user_ok p s" "is_cstr (vmem s) buf line" "user_range buf (Suc (length line))"
  shows "names_file (entered s) buf line"
  using assms(2,3) by (auto simp: names_file_def user_range_def main_region_def)

lemma execute_unknown:
  assumes "interactive p cs ms s" "is_cstr (vmem s) buf line" "user_range buf (Suc (length line))" "unknown_command line s" "locals_ok s"
  obtains t where "ece391_execute child buf s = Some (- 1, t)" "interactive p cs ms t" "outputs p [] s t" "vmem t = vmem s"
    "script t = stl (script s)"
proof -
  let ?u = "entered s"
  note d = interactiveD [OF assms(1)]
  note e = entered_ok [OF d(1)] and o = user_okD [OF d(1)]
  obtain name k as where n: "splits_into line name k as" "plain_name name" "lookup_name (vmem ?u) (fs_start ?u) name = None"
    using assms(4) by (auto simp: unknown_command_def)
  have "procs ?u cs" by (rule procs_cong [OF d(2)]) simp_all
  moreover have "length (ELF_buf0 (elf_locals (shd (script s)))) = 32" using assms(5) shd_sset by (auto simp: locals_ok_def)
  ultimately obtain b where b: "execute (elf_locals (shd (script s))) buf ?u = Returns (- 1) (?u\<lparr>iflag := b\<rparr>)"
    using execute_missing [OF _ e(1,4) _ line_names_file [OF d(1) assms(2,3)] n] by blast
  let ?t = "?u\<lparr>iflag := b\<rparr>"
  have x: "ece391_execute child buf s = Some (- 1, ?t\<lparr>script := stl (script s)\<rparr>)"
    using b by (simp add: ece391_execute_def system_call_handler_def entered_def Let_def)
  have k: "kept ?t = kept ?u" by (simp add: kept_def core_of_def)
  have "screens_ok ?t" by (rule screens_ok_apart [of ?u]) (simp_all add: screens_ok_def e apart_from_screens_def core_of_def screens_def)
  then have so: "kb_inv ?t" "display_ok ?t" using o(10) by (simp_all add: screens_ok_def)
  have ok: "user_ok p (?t\<lparr>script := stl (script s)\<rparr>)"
    by (rule user_ok_return [OF d(1) so]) (use e(4) kept_kernel(8) [OF k] in simp_all)
  have "interactive p cs ms (?t\<lparr>script := stl (script s)\<rparr>)"
    by (rule interactive_returns [OF assms(1) k ok]) (use d(4) in \<open>simp_all add: the_term_def\<close>)
  moreover have "outputs p [] s (?t\<lparr>script := stl (script s)\<rparr>)"
    by (simp add: outputs_def) (simp add: shown_def screen_of_def entered_def trap_def sti_def)
  ultimately show thesis using x by (intro that [of "?t\<lparr>script := stl (script s)\<rparr>"]) simp_all
qed

section \<open>A session\<close>

text \<open>The shell makes two calls for an empty line and four for a command that is not found.\<close>

fun session :: "shell \<Rightarrow> u8 list list \<Rightarrow> trap_env stream \<Rightarrow> bool" where
  "session t [] sc = typed t (ascii ''exit'') (keystrokes (shd (stl sc)))"
| "session t (line # lines) sc =
     (typed t line (keystrokes (shd (stl sc))) \<and> session t lines (sdrop (if line = [] then 2 else 4) sc))"

definition reply :: "u8 list \<Rightarrow> u8 list" where
  "reply line = ascii ''391OS> '' @ line @ [0x0A] @ (if line = [] then [] else ascii ''no such command\<newline>'')"

lemma session_cong: "mods t = mods u \<Longrightarrow> session t lines sc = session u lines sc"
  by (induction lines arbitrary: sc) (simp_all add: typed_cong [of t u])

lemma set_sdrop: "sset (sdrop n xs) \<subseteq> sset xs"
  by (metis sset_shift stake_sdrop sup_ge2)

lemma shell_replies:
  assumes "shell_ok p cs ms lit buf s" "typed (the_term s) line (keystrokes (shd (stl (script s))))" "0 \<notin> set line"
    and "line \<noteq> ascii ''exit''" "line = [] \<or> unknown_command line s" "locals_ok s"
  obtains t where "shell_loop lit child buf s = shell_loop lit child buf t" "shell_ok p cs ms lit buf t" "outputs p (reply line) s t"
    "script t = sdrop (if line = [] then 2 else 4) (script s)"
proof -
  obtain t where t: "shell_loop lit child buf s =
       (if line = ascii ''exit'' then Some (0, t)
        else if line = [] then shell_loop lit child buf t
        else do {
          (rval, s) \<leftarrow> ece391_execute child buf t;
          s \<leftarrow> shell_report lit rval s;
          shell_loop lit child buf s
        })"
    "shell_ok p cs ms lit buf t" "outputs p (ascii ''391OS> '' @ line @ [0x0A]) s t" "script t = stl (stl (script s))"
    "is_cstr (vmem t) buf line"
    by (rule shell_turn [OF assms(1-3), of child]) (rule that)
  show thesis
  proof (cases "line = []")
    case True
    then show thesis using t assms(4) by (intro that [of t]) (simp_all add: reply_def numeral_2_eq_2 ascii_def)
  next
    case False
    have i: "interactive p cs ms t" "interactive p cs ms s" "user_range buf 1024" using t(2) assms(1) by (simp_all add: shell_ok_def)
    have un: "unknown_command line t"
      using assms(5) False outputs_files(5) [OF interactiveD(1) [OF i(2)] t(3)] by (simp add: unknown_command_def)
    have lo: "locals_ok t" using assms(6) t(4) set_sdrop [of 2 "script s"] by (auto simp: locals_ok_def numeral_2_eq_2)
    have ur: "user_range buf (Suc (length line))" by (rule user_range_mono [OF i(3)]) (use typed_length [OF assms(2)] in simp)
    obtain u where u: "ece391_execute child buf t = Some (- 1, u)" "interactive p cs ms u" "outputs p [] t u" "vmem u = vmem t"
      "script u = stl (script t)"
      by (rule execute_unknown [OF i(1) t(5) ur un lo]) (rule that)
    have su: "shell_ok p cs ms lit buf u" using u(2,4) by (intro shell_ok_same [OF t(2)]) simp_all
    have st: "ascii ''no such command\<newline>'' \<in> set shell_strings" by (simp add: shell_strings_def)
    obtain v where v: "ece391_fdputs 1 (lit (ascii ''no such command\<newline>'')) u = Some v" "shell_ok p cs ms lit buf v"
      "outputs p (ascii ''no such command\<newline>'') u v" "script v = stl (script u)"
      by (rule shell_puts [OF su st]) (rule that)
    have "shell_loop lit child buf s = shell_loop lit child buf v" using t(1) u(1) v(1) False assms(4) by (simp add: shell_report_def)
    moreover have "outputs p (reply line) s v"
      using outputs_trans [OF t(3) outputs_trans [OF u(3) v(3)]] False by (simp add: reply_def)
    ultimately show thesis using v(2,4) u(5) t(4) False by (intro that [of v]) (simp_all add: numeral_eq_Suc)
  qed
qed

lemma shell_session_loop:
  assumes "shell_ok p cs ms lit buf s" "session (the_term s) lines (script s)" "locals_ok s"
    and "\<forall>line \<in> set lines. 0 \<notin> set line \<and> line \<noteq> ascii ''exit'' \<and> (line = [] \<or> unknown_command line s)"
  shows "\<exists>t. shell_loop lit child buf s = Some (0, t) \<and> interactive p cs ms t \<and>
    outputs p (concat (map reply lines) @ ascii ''391OS> exit\<newline>'') s t"
  using assms
proof (induction lines arbitrary: s)
  case Nil
  have nz: "0 \<notin> set (ascii ''exit'')" by (simp add: ascii_def)
  have "typed (the_term s) (ascii ''exit'') (keystrokes (shd (stl (script s))))" using Nil.prems(2) by simp
  from shell_turn [OF Nil.prems(1) this nz, of child] obtain t where "shell_loop lit child buf s = Some (0, t)" "shell_ok p cs ms lit buf t"
    "outputs p (ascii ''391OS> '' @ ascii ''exit'' @ [0x0A]) s t" by auto
  then show ?case by (auto simp: shell_ok_def ascii_def)
next
  case (Cons line lines)
  have a: "typed (the_term s) line (keystrokes (shd (stl (script s))))" "0 \<notin> set line" "line \<noteq> ascii ''exit''"
    and un: "line = [] \<or> unknown_command line s" using Cons.prems(2,4) by auto
  obtain t where t: "shell_loop lit child buf s = shell_loop lit child buf t" "shell_ok p cs ms lit buf t" "outputs p (reply line) s t"
    "script t = sdrop (if line = [] then 2 else 4) (script s)"
    by (rule shell_replies [OF Cons.prems(1) a un Cons.prems(3)]) (rule that)
  have i: "interactive p cs ms s" "interactive p cs ms t" using Cons.prems(1) t(2) by (simp_all add: shell_ok_def)
  have lk: "unknown_command l t = unknown_command l s" for l
    using outputs_files(5) [OF interactiveD(1) [OF i(1)] t(3)] by (simp add: unknown_command_def)
  have "session (the_term t) lines (script t)"
    using Cons.prems(2) t(4) session_cong [of "the_term t" "the_term s"] interactiveD(5) [OF i(1)] interactiveD(5) [OF i(2)] by simp
  moreover have "locals_ok t" using Cons.prems(3) t(4) set_sdrop [of _ "script s"] by (auto simp: locals_ok_def)
  ultimately have "\<exists>u. shell_loop lit child buf t = Some (0, u) \<and> interactive p cs ms u \<and>
      outputs p (concat (map reply lines) @ ascii ''391OS> exit\<newline>'') t u"
    using Cons.prems(4) by (intro Cons.IH [OF t(2)]) (auto simp: lk)
  then show ?case using t(1) outputs_trans [OF t(3)] by fastforce
qed

section \<open>Starting a program\<close>

lemma executable_outputs:
  assumes "user_ok p s" "outputs p bs s t" "executable (vmem s) (fs_start s) name inode"
  shows "executable (vmem t) (fs_start t) name inode" "entry_point (vmem t) (fs_start t) inode = entry_point (vmem s) (fs_start s) inode"
    "file_bytes (vmem t) (fs_start t) inode = file_bytes (vmem s) (fs_start s) inode"
proof -
  note f = outputs_files [OF assms(1,2)]
  obtain j where j: "lookup_name (vmem s) (fs_start s) name = Some j" "inode = inode_num (vmem s) (dentry_addr (fs_start s) (of_nat j))"
    and i: "inode < num_inodes (vmem s) (fs_start s)" using assms(3) by (auto simp: executable_def)
  show fb: "file_bytes (vmem t) (fs_start t) inode = file_bytes (vmem s) (fs_start s) inode" by (rule f(3) [OF i])
  then show "entry_point (vmem t) (fs_start t) inode = entry_point (vmem s) (fs_start s) inode" by (simp add: entry_point_def)
  show "executable (vmem t) (fs_start t) name inode"
    using assms(3) fb f(2) f(4) [OF lookup_bound(2) [OF j(1)]] f(5) [of name] j unfolding executable_def by auto
qed

lemma execute_child:
  assumes "interactive p cs ms s" "is_cstr (vmem s) buf line" "user_range buf (Suc (length line))" "locals_ok s"
    and "process_num s < 6" "splits_into line name k as" "plain_name name" "executable (vmem s) (fs_start s) name inode"
  obtains q t where "lowest_free cs = Some q" "ece391_execute child buf s = child (entry_point (vmem s) (fs_start s) inode) t"
    "procs t (cs(cur_sched_term s := q # cs (cur_sched_term s)))" "runs_process t q" "args (pcbs t (pcb_addr q)) = padded as"
    "bytes_at (vmem t) 0x8048000 (min 0x3B8000 (length (file_bytes (vmem s) (fs_start s) inode))) =
       take 0x3B8000 (file_bytes (vmem s) (fs_start s) inode)" "script t = stl (script s)"
proof -
  let ?u = "entered s" let ?l = "elf_locals (shd (script s))"
  note d = interactiveD [OF assms(1)]
  note e = entered_ok [OF d(1)]
  have pu: "procs ?u cs" by (rule procs_cong [OF d(2)]) simp_all
  obtain q where q: "lowest_free cs = Some q" by (rule lowest_free_exists [OF pu]) (use assms(5) in simp_all)
  note pr = lowest_free_props [OF q]
  have fr: "free_slot ?u = Some (q - 1)" using free_slot_lowest [OF pu] q by (cases "free_slot ?u") auto
  have n: "0 < process_num ?u" "process_num ?u < 6" using procs_num [OF pu] assms(5) by simp_all
  have lo: "length (ELF_buf0 ?l) = 32" using assms(4) shd_sset by (auto simp: locals_ok_def)
  have ex: "executable (vmem ?u) (fs_start ?u) name inode" using assms(8) by simp
  obtain m where m: "execute ?l buf ?u = Enters (entry_point (vmem ?u) (fs_start ?u) inode) (started ?l (padded as) q m (?u\<lparr>iflag := False\<rparr>))"
    "bytes_at (vmem (started ?l (padded as) q m (?u\<lparr>iflag := False\<rparr>))) PROG_START
         (min 0x3B8000 (length (file_bytes (vmem ?u) (fs_start ?u) inode))) = take 0x3B8000 (file_bytes (vmem ?u) (fs_start ?u) inode)"
    by (rule execute_starts [OF e(1,4) lo line_names_file [OF d(1) assms(2,3)] assms(6,7) ex n fr pr(1,2)]) (rule that)
  let ?t = "started ?l (padded as) q m (?u\<lparr>iflag := False\<rparr>)"
  have "term_no (cur_sched_term s)" using user_okD(2) [OF d(1)] by (simp add: kb_inv_def sched_inv_def)
  then have "procs ?t (cs(cur_sched_term s := q # cs (cur_sched_term s)))"
    using started_procs [OF procs_flags(1) [OF pu], of False q ?l "padded as" m] q by simp
  then have "procs (?t\<lparr>script := stl (script s)\<rparr>) (cs(cur_sched_term s := q # cs (cur_sched_term s)))"
    by (rule procs_cong) simp_all
  moreover have "runs_process ?t q" "args (pcbs ?t (pcb_addr q)) = padded as" by (simp_all add: runs_process_def started_def Let_def)
  moreover have "ece391_execute child buf s = child (entry_point (vmem s) (fs_start s) inode) (?t\<lparr>script := stl (script s)\<rparr>)"
    using m(1) by (simp add: ece391_execute_def system_call_handler_def entered_def [symmetric] Let_def)
  ultimately show thesis using q m(2) by (intro that [of q "?t\<lparr>script := stl (script s)\<rparr>"]) simp_all
qed

section \<open>testprint and hello\<close>

lemma testprint_prints:
  assumes "interactive p cs ms s" "literal lit 0 0 (ascii ''Hello, if this ran, the program was correct. Yay!\<newline>'') s"
  shows "\<exists>t. testprint_main lit s = Some (0, t) \<and> interactive p cs ms t \<and>
    outputs p (ascii ''Hello, if this ran, the program was correct. Yay!\<newline>'') s t"
proof -
  let ?x = "ascii ''Hello, if this ran, the program was correct. Yay!\<newline>''"
  have "is_cstr (vmem s) (lit ?x) ?x" "user_range (lit ?x) (Suc (length ?x))" using assms(2) by (simp_all add: literal_def)
  then show ?thesis by (rule interactive_puts [OF assms(1)]) (auto simp: testprint_main_def)
qed

definition hello_strings :: "u8 list list" where
  "hello_strings = map ascii [''Hi, what's your name? '', ''Hello, '']"

lemma hello_greets:
  assumes "interactive p cs ms s" "user_range buf 1024" "\<forall>x \<in> set hello_strings. literal lit buf 1024 x s"
    and "typed (the_term s) name (keystrokes (shd (stl (script s))))" "0 \<notin> set name"
  shows "\<exists>t. hello_main lit buf s = Some (0, t) \<and> interactive p cs ms t \<and>
    outputs p (ascii ''Hi, what's your name? '' @ name @ [0x0A] @ ascii ''Hello, '' @ name @ [0x0A]) s t"
proof -
  let ?hi = "ascii ''Hi, what's your name? ''" let ?he = "ascii ''Hello, ''"
  have l: "literal lit buf 1024 ?hi s" "literal lit buf 1024 ?he s" using assms(3) by (simp_all add: hello_strings_def)
  obtain v where v: "ece391_fdputs 1 (lit ?hi) s = Some v" "interactive p cs ms v" "outputs p ?hi s v"
    "\<And>x. x \<in> main_region \<Longrightarrow> vmem v x = vmem s x" "script v = stl (script s)"
    by (rule interactive_puts [OF assms(1), of "lit ?hi" ?hi]) (use l(1) in \<open>auto simp: literal_def\<close>)
  have "mods (the_term v) = mods (the_term s)" using interactiveD(5) [OF v(2)] interactiveD(5) [OF assms(1)] by simp
  from typed_cong [OF this] have ty: "typed (the_term v) name (keystrokes (shd (script v)))" using assms(4) v(5) by simp
  obtain w t where t: "ece391_read 0 buf 1023 v = Some (int (length name) + 1, w)"
    "ustore (buf + of_nat (length (name @ [0x0A]))) 0 w = Some t" "interactive p cs ms t" "outputs p (name @ [0x0A]) v t"
    "is_cstr (vmem t) buf (name @ [0x0A])" "\<And>x. x \<in> main_region \<Longrightarrow> 1024 \<le> unat (x - buf) \<Longrightarrow> vmem t x = vmem v x"
    by (rule read_and_terminate [OF v(2) assms(2) ty assms(5) disjI2 [OF refl]]) (rule that)
  have "literal lit buf 1024 ?he t" by (rule literal_kept [OF l(2)]) (use t(6) v(4) in simp)
  then have "is_cstr (vmem t) (lit ?he) ?he" "user_range (lit ?he) (Suc (length ?he))" by (simp_all add: literal_def)
  then obtain x where x: "ece391_fdputs 1 (lit ?he) t = Some x" "interactive p cs ms x" "outputs p ?he t x"
    "\<And>a. a \<in> main_region \<Longrightarrow> vmem x a = vmem t a"
    by (rule interactive_puts [OF t(3)]) blast
  have ln: "length (name @ [0x0A :: u8]) < 1024" using typed_length [OF ty] by simp
  have ur: "user_range buf (Suc (length (name @ [0x0A])))" by (rule user_range_mono [OF assms(2)]) (use ln in simp)
  have "is_cstr (vmem x) buf (name @ [0x0A])"
    by (rule is_cstr_same [OF t(5)], rule x(4)) (use ur in \<open>simp add: user_range_def main_region_def\<close>)
  then obtain y where y: "ece391_fdputs 1 buf x = Some y" "interactive p cs ms y" "outputs p (name @ [0x0A]) x y"
    by (rule interactive_puts [OF x(2) _ ur]) blast
  have "hello_main lit buf s = Some (0, y)" using v(1) t(1,2) x(1) y(1) by (simp add: hello_main_def add.commute)
  moreover note outputs_trans [OF v(3) outputs_trans [OF t(4) outputs_trans [OF x(3) y(3)]]]
  ultimately show ?thesis using y(2) by auto
qed

section \<open>An example state\<close>

text \<open>The shell of the first terminal, with an image that holds the directory and the executable \<open>shell\<close>. The keys are an empty
  line, the command \<open>b\<close>, and then always \<open>exit\<close>.\<close>

definition env_keys :: "u8 list \<Rightarrow> trap_env" where
  "env_keys ks = env1\<lparr>keystrokes := ks\<rparr>"

definition shells :: stacks where
  "shells k = [k + 1]"

definition user3 :: "trap_env stream \<Rightarrow> user" where
  "user3 sc = (user_with shell_strings)\<lparr>pcbs := (\<lambda>_. pcb1)(pcb_addr 2 := pcb1\<lparr>pid := 2\<rparr>, pcb_addr 3 := pcb1\<lparr>pid := 3\<rparr>), script := sc\<rparr>"

definition script3 :: "trap_env stream" where
  "script3 = [env1, env1, env_keys [28], env1, env_keys [48, 28], env1, env1] @- sconst (env_keys [18, 45, 23, 20, 28])"

definition script4 :: "trap_env stream" where
  "script4 = sconst (env_keys [31, 35, 18, 38, 38, 28])"

lemma shell_strings_short: "short_strings shell_strings"
  by (auto simp: short_strings_def shell_strings_def ascii_def)

lemma user3_procs: "procs (user3 sc) shells"
proof -
  have f: "process_num (user3 sc) = 3" "process_array (user3 sc) = (\<lambda>i. if i < 3 then 1 else - 1)" "sched_arr (user3 sc) = sched_arr kernel1"
    by (simp_all add: user3_def user_with_def user1_def kernel.defs user.defs kernel1_fields)
  have "pcb_addr 1 \<noteq> pcb_addr 2" "pcb_addr 1 \<noteq> pcb_addr 3" "pcb_addr 2 \<noteq> pcb_addr 3" by (simp_all add: pcb_addr_inj)
  then have "stack_ok (user3 sc) k [k + 1]" if "term_no k" for k
    using that kernel1_sched(1) [OF that] f(3)
    by (elim term_no_cases) (simp_all add: stack_ok_def user3_def pcb1_def)
  then show ?thesis by (auto simp: procs_def all_procs_def shells_def f)
qed

lemma user3_fields:
  "vmem (user3 sc) = vmem (user_with shell_strings)" "fs_start (user3 sc) = fs_start (user_with shell_strings)" "script (user3 sc) = sc"
  "the_term (user3 sc) = the_term kb1" "process_num (user3 sc) = 3" "cur_sched_term (user3 sc) = 0" "cur_terminal (user3 sc) = 0"
  by (simp_all add: user3_def user_with_def the_term_def kb1_inv) (simp add: user1_def kernel.defs user.defs kernel1_fields)

lemma user3_ok:
  assumes "\<forall>e \<in> sset sc. frame_ok (sp_depth e) (fp_depth e)"
  shows "shell_ok 1 shells [0, 0, 0, 0] (slot_lit shell_strings) 0x8048000 (user3 sc)"
proof -
  note w = user_with_ok [OF shell_strings_short]
  have "user_ok 1 ((user_with shell_strings)\<lparr>pcbs := (\<lambda>_. pcb1)(pcb_addr 2 := pcb1\<lparr>pid := 2\<rparr>, pcb_addr 3 := pcb1\<lparr>pid := 3\<rparr>)\<rparr>)"
    using w(1) by (simp add: user_ok_pcbs)
  then have ok: "user_ok 1 (user3 sc)" using assms by (simp add: user_ok_def user3_def)
  have "pcb_addr 1 \<noteq> pcb_addr 2" "pcb_addr 1 \<noteq> pcb_addr 3" by (simp_all add: pcb_addr_inj)
  then have "pcbs (user3 sc) (pcb_addr 1) = pcb1" by (simp add: user3_def)
  then have "interactive 1 shells [0, 0, 0, 0] (user3 sc)"
    using ok kb1_inv(6,7) user3_procs by (simp add: interactive_def user3_fields) (simp add: pcb1_def)
  moreover have "user_range 0x8048000 1024" by (rule prog_range) simp
  moreover have "literal (slot_lit shell_strings) 0x8048000 1024 x (user3 sc)" if "x \<in> set shell_strings" for x
    using w(3) [OF that] by (simp add: literal_def user3_fields)
  ultimately show "shell_ok 1 shells [0, 0, 0, 0] (slot_lit shell_strings) 0x8048000 (user3 sc)" by (simp add: shell_ok_def)
qed

lemma env_frame: "frame_ok (sp_depth (env_keys ks)) (fp_depth (env_keys ks))" "frame_ok (sp_depth env1) (fp_depth env1)"
  "length (ELF_buf0 (elf_locals (env_keys ks))) = 32" "length (ELF_buf0 (elf_locals env1)) = 32"
  by (simp_all add: env_keys_def env1_def frame_ok_def locals1_def)

lemma scripts_ok:
  "\<forall>e \<in> sset script3. frame_ok (sp_depth e) (fp_depth e)" "locals_ok (user3 script3)"
  "\<forall>e \<in> sset script4. frame_ok (sp_depth e) (fp_depth e)" "locals_ok (user3 script4)"
  by (auto simp: locals_ok_def user3_fields script3_def script4_def env_frame)

lemma typed_keys:
  assumes "mods t = [0, 0, 0, 0]"
  shows "typed t [] [28]" "typed t [0x62] [48, 28]" "typed t (ascii ''exit'') [18, 45, 23, 20, 28]" "typed t shell_name [31, 35, 18, 38, 38, 28]"
proof -
  have k: "typed t (map (\<lambda>k. key_char k t) ks) (ks @ [28])" if "\<forall>k \<in> set ks. plain_key k t" "length ks \<le> 127" for ks
    using that unfolding typed_def by blast
  have p: "plain_key k t" if "k \<in> {48, 18, 45, 23, 20, 31, 35, 38}" for k
    using that assms by (auto simp: plain_key_def control_key_def mods_def)
  show "typed t [] [28]" using k [of "[]"] by simp
  show "typed t [0x62] [48, 28]" "typed t (ascii ''exit'') [18, 45, 23, 20, 28]" "typed t shell_name [31, 35, 18, 38, 38, 28]"
    using k [of "[48]"] k [of "[18, 45, 23, 20]"] k [of "[31, 35, 18, 38, 38]"] p assms
    by (simp_all add: key_char_def mods_def kbdus_def kbdus_init_def ascii_def shell_name_def)
qed

lemma user1_shell: "executable (vmem user1) 0x400000 shell_name 0"
proof -
  let ?b = "file_bytes (vmem user1) 0x400000 0"
  have s: "vmem user1 a = dir_fs a" if "in_fs dir_fs 0x400000 a" for a
    using dir_fs_disk(1) that by (intro user1_view) (simp add: disk_ok_def)
  have fo: "file_ok dir_fs 0x400000 0" using dir_fs_disk(1,3) by (simp add: disk_ok_def)
  have l: "length ?b = 40" by (simp add: file_bytes_def user1_image)
  have c: "load32 dir_fs (slot_addr 0x400000 0 0) = 1"
    by (simp add: slot_addr_def inode_addr_def load32_def dir_fs_def demo_fs_def)
  have b: "?b ! k = dir_fs (0x403000 + of_nat k)" if "k < 40" for k
  proof -
    have "?b ! k = file_byte dir_fs 0x400000 0 k"
      using that image_same(4) [OF s fo] dir_fs_disk(4) by (simp add: file_bytes_def user1_image)
    then show ?thesis using that c by (simp add: file_byte_def block_addr_def dblock_addr_def dir_fs_disk)
  qed
  have "dir_fs 0x403000 = 0x7F" "dir_fs 0x403001 = 0x45" "dir_fs 0x403002 = 0x4C" "dir_fs 0x403003 = 0x46"
    by (simp_all add: dir_fs_def demo_fs_def)
  note d = this b [of 0] b [of 1] b [of 2] b [of 3]
  have "take 4 ?b = [?b ! 0, ?b ! 1, ?b ! 2, ?b ! 3]" using l by (simp add: take_Suc_conv_app_nth eval_nat_numeral)
  then have "take 4 ?b = [0x7F, 0x45, 0x4C, 0x46]" using d by simp
  then show ?thesis using l user1_lookup(2) user1_image(2) user1_entries(5) by (simp add: executable_def dentry_addr_def)
qed

lemma user3_files:
  "unknown_command [0x62] (user3 sc)" "executable (vmem (user3 sc)) (fs_start (user3 sc)) shell_name 0"
proof -
  note w = user_with_ok(2) [OF shell_strings_short] and v = user3_fields(1,2)
  have "splits_into [0x62] [0x62] 0 []" "plain_name [0x62]" by (simp_all add: splits_into_def plain_name_def)
  then show "unknown_command [0x62] (user3 sc)"
    using outputs_files(5) [OF user1_ok w, of "[0x62]"] user1_lookup(3) unfolding unknown_command_def v by auto
  show "executable (vmem (user3 sc)) (fs_start (user3 sc)) shell_name 0"
    using executable_outputs(1) [OF user1_ok w] user1_shell unfolding v by simp
qed

section \<open>Properties\<close>

text \<open>C13: A session at the shell. Whatever the user types up to \<open>exit\<close>, as long as it is empty or names no file, the shell
  ends with status 0 after it has answered every line: the terminal shows the greeting, each prompt with the line typed after it, and
  the message for a command that does not exist, in that order and nothing else; the process table is as before.\<close>

theorem shell_session_ends:
  assumes "shell_ok p cs ms lit buf s" "session (the_term s) lines (stl (script s))" "locals_ok s"
    and "\<forall>line \<in> set lines. 0 \<notin> set line \<and> line \<noteq> ascii ''exit'' \<and> (line = [] \<or> unknown_command line s)"
  shows "\<exists>t. shell_main lit child buf s = Some (0, t) \<and> user_ok p t \<and> procs t cs \<and>
    outputs p (ascii ''Starting 391 Shell\<newline>'' @ concat (map reply lines) @ ascii ''391OS> exit\<newline>'') s t"
proof -
  have st: "ascii ''Starting 391 Shell\<newline>'' \<in> set shell_strings" by (simp add: shell_strings_def)
  obtain u where u: "ece391_fdputs 1 (lit (ascii ''Starting 391 Shell\<newline>'')) s = Some u" "shell_ok p cs ms lit buf u"
    "outputs p (ascii ''Starting 391 Shell\<newline>'') s u" "script u = stl (script s)"
    by (rule shell_puts [OF assms(1) st]) (rule that)
  have i: "interactive p cs ms s" "interactive p cs ms u" using assms(1) u(2) by (simp_all add: shell_ok_def)
  have "session (the_term u) lines (script u)"
    using assms(2) u(4) session_cong [of "the_term u" "the_term s"] interactiveD(5) [OF i(1)] interactiveD(5) [OF i(2)] by simp
  moreover have "locals_ok u" using assms(3) u(4) stl_sset [of _ "script s"] by (auto simp: locals_ok_def)
  moreover have "unknown_command l u = unknown_command l s" for l
    using outputs_files(5) [OF interactiveD(1) [OF i(1)] u(3)] by (simp add: unknown_command_def)
  ultimately obtain t where "shell_loop lit child buf u = Some (0, t)" "interactive p cs ms t"
    "outputs p (concat (map reply lines) @ ascii ''391OS> exit\<newline>'') u t"
    using shell_session_loop [OF u(2), of lines child] assms(4) by auto
  then show ?thesis using u(1) outputs_trans [OF u(3)] by (auto simp: shell_main_def interactive_def)
qed

theorem shell_session_ends_witness:
  "\<exists>t. shell_main (slot_lit shell_strings) (\<lambda>_ _. None) 0x8048000 (user3 script3) = Some (0, t) \<and>
     outputs 1 (ascii ''Starting 391 Shell\<newline>'' @ (ascii ''391OS> \<newline>391OS> b\<newline>no such command\<newline>'') @ ascii ''391OS> exit\<newline>'')
       (user3 script3) t"
proof -
  have "session (the_term (user3 script3)) [[], [0x62]] (stl (script (user3 script3)))"
    unfolding user3_fields using typed_keys [OF kb1_inv(7)] by (simp add: script3_def env_keys_def numeral_eq_Suc)
  moreover have "concat (map reply [[], [0x62]]) = ascii ''391OS> \<newline>391OS> b\<newline>no such command\<newline>''"
    by (simp add: reply_def ascii_def)
  ultimately show ?thesis
    using shell_session_ends [OF user3_ok [OF scripts_ok(1)] _ scripts_ok(2), of "[[], [0x62]]" "\<lambda>_ _. None"] user3_files(1)
    by (auto simp: ascii_def)
qed

text \<open>C12: A command starts its program. When the user types a line whose first word names an executable, while a process slot
  is free, the shell has shown its prompt and the line, and the program is entered at its entry point: with the content of the file in its
  page, with the rest of the line as its arguments, as a new process on top of the shell's terminal. When it ends, the shell
  reports its status and prompts again.\<close>

theorem shell_starts_program:
  assumes "shell_ok p cs ms lit buf s" "typed (the_term s) line (keystrokes (shd (stl (script s))))" "0 \<notin> set line"
    and "line \<noteq> []" "line \<noteq> ascii ''exit''" "locals_ok s" "process_num s < 6"
    and "splits_into line name k as" "plain_name name" "executable (vmem s) (fs_start s) name inode"
  defines "c \<equiv> cur_sched_term s" and "F \<equiv> file_bytes (vmem s) (fs_start s) inode"
  shows "\<exists>u q t. outputs p (ascii ''391OS> '' @ line @ [0x0A]) s u \<and> lowest_free cs = Some q \<and>
    shell_loop lit child buf s =
      do {
        (rval, v) \<leftarrow> child (entry_point (vmem s) (fs_start s) inode) t;
        v \<leftarrow> shell_report lit rval v;
        shell_loop lit child buf v
      } \<and>
    bytes_at (vmem t) 0x8048000 (min 0x3B8000 (length F)) = take 0x3B8000 F \<and> args (pcbs t (pcb_addr q)) = padded as \<and>
    procs t (cs(c := q # cs c)) \<and> runs_process t q"
proof -
  obtain u where u: "shell_loop lit child buf s =
       (if line = ascii ''exit'' then Some (0, u)
        else if line = [] then shell_loop lit child buf u
        else do {
          (rval, s) \<leftarrow> ece391_execute child buf u;
          s \<leftarrow> shell_report lit rval s;
          shell_loop lit child buf s
        })"
    "shell_ok p cs ms lit buf u" "outputs p (ascii ''391OS> '' @ line @ [0x0A]) s u" "script u = stl (stl (script s))"
    "is_cstr (vmem u) buf line"
    by (rule shell_turn [OF assms(1-3), of child]) (rule that)
  have i: "interactive p cs ms s" "interactive p cs ms u" "user_range buf 1024" using assms(1) u(2) by (simp_all add: shell_ok_def)
  note x = executable_outputs [OF interactiveD(1) [OF i(1)] u(3) assms(10)]
  have lo: "locals_ok u" using assms(6) u(4) set_sdrop [of 2 "script s"] by (auto simp: locals_ok_def numeral_2_eq_2)
  have ur: "user_range buf (Suc (length line))" by (rule user_range_mono [OF i(3)]) (use typed_length [OF assms(2)] in simp)
  have c: "cur_sched_term u = c" using u(3) by (simp add: outputs_def c_def)
  have "process_num u = process_num s" using interactiveD(2) [OF i(1)] interactiveD(2) [OF i(2)] by (simp add: procs_def)
  then have n: "process_num u < 6" using assms(7) by simp
  show ?thesis
    by (rule execute_child [OF i(2) u(5) ur lo n assms(8,9) x(1), unfolded x(2,3) c, of child, folded F_def])
      (use u(1,3) assms(4,5) in \<open>auto 4 3\<close>)
qed

theorem shell_starts_program_witness:
  "\<forall>child. \<exists>t. procs t (shells(0 := [4, 1])) \<and> runs_process t 4 \<and> args (pcbs t (pcb_addr 4)) = replicate 128 0 \<and>
     shell_loop (slot_lit shell_strings) child 0x8048000 (user3 script4) =
      do {
        (rval, v) \<leftarrow> child (entry_point (vmem (user3 script4)) (fs_start (user3 script4)) 0) t;
        v \<leftarrow> shell_report (slot_lit shell_strings) rval v;
        shell_loop (slot_lit shell_strings) child 0x8048000 v
      }"
proof
  fix child
  have ty: "typed (the_term (user3 script4)) shell_name (keystrokes (shd (stl (script (user3 script4)))))"
    unfolding user3_fields using typed_keys(4) [OF kb1_inv(7)] by (simp add: script4_def env_keys_def)
  have n: "0 \<notin> set shell_name" "shell_name \<noteq> []" "shell_name \<noteq> ascii ''exit''" "splits_into shell_name shell_name 0 []"
    by (simp_all add: shell_name_def ascii_def splits_into_def)
  have pn: "process_num (user3 script4) < 6" by (simp add: user3_fields)
  have e: "lowest_free shells = Some 4" "shells 0 = [1]" "padded [] = replicate 128 0"
    using lowest_free_shells by (simp_all add: shells_def [abs_def] padded_def)
  show "\<exists>t. procs t (shells(0 := [4, 1])) \<and> runs_process t 4 \<and> args (pcbs t (pcb_addr 4)) = replicate 128 0 \<and>
     shell_loop (slot_lit shell_strings) child 0x8048000 (user3 script4) =
      do {
        (rval, v) \<leftarrow> child (entry_point (vmem (user3 script4)) (fs_start (user3 script4)) 0) t;
        v \<leftarrow> shell_report (slot_lit shell_strings) rval v;
        shell_loop (slot_lit shell_strings) child 0x8048000 v
      }"
    using shell_starts_program [OF user3_ok [OF scripts_ok(3)] ty n(1-3) scripts_ok(4) pn n(4) shell_plain(1) user3_files(2), of child]
    unfolding user3_fields(6) e option.inject by (elim exE conjE) (rule exI, intro conjI; (assumption | simp))
qed

end
