(* ===== verification/Spec2Isabelle.thy ===== *)
theory Spec2Isabelle
  imports SysErr Entry Shell
begin

text \<open>
  A verification of the ECE 391 operating system kernel under \<open>src/student-distrib\<close>: a 32-bit x86
  kernel with three text terminals, each running a shell and the programs started from it, a
  round-robin scheduler driven by the timer, a read-only file system in memory and ten system calls; and of
  programs under \<open>src/syscalls\<close> that run on it.

  \<^bold>\<open>The program.\<close> \<open>entry\<close> (\<open>kernel.c\<close>) sets up paging (\<open>paging.c\<close>), the interrupt controllers
  (\<open>i8259.c\<close>), the clock (\<open>rtc.c\<close>), the timer and the scheduling slots (\<open>pit.c\<close>), the terminals (\<open>lib.c\<close>) and
  the keyboard (\<open>kb.c\<close>), and calls \<open>launch\<close> (\<open>syscalls.c\<close>), which loads the shell three times. From then on the
  kernel runs in traps: system calls (\<open>linkage.S\<close>, \<open>syscalls.c\<close>, \<open>file_system.c\<close>), the timer, the keyboard and the
  clock, and the exceptions (\<open>idt_init.c\<close>). Every process has a 4 MB page at 128 MB, an 8 KB kernel stack below
  8 MB, and its control block at the bottom of that stack, which the kernel finds by masking the stack
  pointer. The user programs are linked with a small library (\<open>ece391support.c\<close>, \<open>ece391syscall.S\<close>) and reach the kernel only
  through its system calls.

  \<^bold>\<open>The state.\<close> One record, extended theory by theory in the order the components depend on each other:
  \<open>machine\<close> (physical memory, port writes, interrupt flag, stack registers, a fault flag), \<open>pic\<close>, \<open>paging\<close>,
  \<open>console\<close>, \<open>sched\<close>, \<open>kb\<close>, \<open>rtc\<close>, \<open>kernel\<close>. An operation of a component is a function on the state up to that
  component with any extension, so the handlers compose as the C functions do. C integers are words of their
  width where they can overflow (addresses, sizes, masks); indices and counters that the code keeps small are
  \<open>int\<close>. C arrays are functions on indices. Memory is bytes; page tables, globals and control blocks are typed
  state. A kernel access to an unmapped address raises the flag \<open>fault\<close>.

  \<^bold>\<open>Theories.\<close>
  \<^item> \<open>Prelude\<close>: word types, memory, rewrite collections, generic facts. \<open>Machine\<close>: ports, flags (\<open>lib.h\<close>).
  \<^item> \<open>CMemory\<close>, \<open>CString\<close>: \<open>memcpy\<close>, \<open>memmove\<close>, \<open>memset\<close> and the string routines of \<open>lib.c\<close>, label by label of the
    assembly, against one-step reference copies and byte lists.
  \<^item> \<open>I8259\<close>: masks and the port protocol; the locale \<open>irq_controller\<close> is what the drivers rely on.
  \<^item> \<open>Paging\<close>: the setters of \<open>paging.c\<close> and the processor's translation; the locale \<open>page_window\<close> says what remapping
    one page does, interpreted for the program page, the video page and the user's video page. Theorems: the map
    after \<open>init_paging\<close>, isolation of program pages.
  \<^item> \<open>Console\<close>: cursor, scrolling, terminals of \<open>lib.c\<close>. \<open>putc\<close> refines an abstract scrolling terminal (locale
    \<open>char_device\<close>); \<open>change_shell\<close> keeps what every terminal shows.
  \<^item> \<open>Scheduler\<close>: \<open>pit.c\<close>. One tick, a full rotation, fairness (locale \<open>round_robin\<close>).
  \<^item> \<open>Keyboard\<close>: \<open>kb.c\<close>. The line editor behind the keyboard interrupt, \<open>terminal_read\<close> and \<open>terminal_write\<close>.
  \<^item> \<open>RTC\<close>: \<open>rtc.c\<close>. Virtual rates per terminal.
  \<^item> \<open>FileSystem\<close>: \<open>find_dentry\<close>, \<open>read_dentry_by_name\<close>, \<open>read_dentry_by_index\<close>, \<open>read_data\<close> on memory, against the content of a file.
  \<^item> \<open>UserMemory\<close>, \<open>Files\<close>: the kernel's view through the page tables; descriptors and the calls \<open>open\<close>, \<open>close\<close>,
    \<open>read\<close>, \<open>write\<close>. The locale \<open>guarded_calls\<close> lifts what one call keeps to sequences of calls.
  \<^item> \<open>Process\<close>, \<open>Programs\<close>: \<open>execute\<close>, \<open>halt\<close>, \<open>launch\<close>, \<open>getargs\<close>, \<open>vidmap\<close> and the dispatch; command lines, executables, arguments.
  \<^item> \<open>Stacks\<close>: the abstract specification of the process table, three stacks of process numbers. \<open>launch\<close> creates them,
    \<open>execute\<close> pushes, \<open>halt\<close> pops.
  \<^item> \<open>Format\<close>: \<open>strrev\<close>, \<open>itoa\<close>, \<open>printf\<close> of \<open>lib.c\<close>, against positional notation and a list of directives.
  \<^item> \<open>Interrupts\<close>: the interrupt table of \<open>idt_init.c\<close> and \<open>x86_desc.h\<close>, the exception handlers.
  \<^item> \<open>Kernel\<close>: the step relation \<open>kstep\<close> of the running kernel and its invariant (locale \<open>transition_system\<close>).
  \<^item> \<open>Boot\<close>: the initialisations of \<open>entry\<close>, which establish the invariants, and the theorems on every state reachable
    from the boot.
  \<^item> \<open>Segments\<close>: the segment descriptors and the two that \<open>entry\<close> fills in. \<open>Entry\<close>: the whole of \<open>entry\<close>, with the boot loader's
    information; the screen before paging is a second interpretation of \<open>char_device\<close>.
  \<^item> \<open>Devices\<close>: the terminals while the kernel runs: the drivers' invariant between all steps, and the terminal a process
    prints on.
  \<^item> \<open>UserLib\<close>: the user programs' library, compared with the kernel's own routines, and what each system call does for the
    program that makes it: its result, the bytes it prints (\<open>outputs\<close>), the memory it leaves alone.
  \<^item> \<open>Utilities\<close>: \<open>cat\<close> and \<open>ls\<close> on the kernel model; the locale \<open>drain\<close> is the loop both have.
  \<^item> \<open>SysErr\<close>: the repository's test program for bad system calls, run against the model.
  \<^item> \<open>Shell\<close>: the shell, \<open>hello\<close> and \<open>testprint\<close>: reading from the keyboard with the echo of the keys on the screen, whole sessions at
    the shell, and the programs its commands start.

  \<^bold>\<open>Steps.\<close> \<open>kstep\<close> relates the states between which control changes hands: a whole system call, a timer tick, a key,
  a clock interrupt, an exception of a process that is not a base shell, a return to user mode. A trap starts
  on the kernel stack the TSS names, some bytes below its top; how many is arbitrary up to the stack's size. Ticks
  and interrupts fall between calls. Starting a program presupposes a sound file system image: the code does not check the
  buffers of \<open>read\<close>, so a call may overwrite the image, and a step of \<open>execute\<close> asks for it each time. The stores of
  user programs to their own pages are not steps; the invariant does not depend on them.

  \<^bold>\<open>Programs.\<close> A user program is a function of the state in which its \<open>main\<close> starts. Each of its system calls is the
  trap, the handler of the kernel model and the return; the record \<open>user\<close> extends the state by the \<open>script\<close>, the stack depth,
  keys and clock interrupts of each trap to come. Other processes do not run between its calls: the scheduler's theorems say
  that a process finds its stack and page as it left them.

  \<^bold>\<open>Loops.\<close> Loops with a bound are total functions, by structural recursion or with a measure. The string loops, which
  run until a zero byte, are \<open>partial_function (option)\<close>: \<open>None\<close> is a loop that does not end, and the theorems show
  that the result is \<open>Some\<close>. \<open>terminal_read\<close> and \<open>rtc_read\<close> wait for interrupts: the interrupts to come are an argument (\<open>keys\<close>,
  a list of scan codes, \<open>irqs\<close>, a number), and the result is \<open>None\<close> when they do not suffice.

  \<^bold>\<open>Parameters.\<close> The uninitialised locals of \<open>execute\<close> and \<open>launch\<close> (\<open>locals\<close>), the bytes read back from the clock, the strings
  behind the pointers passed to \<open>printf\<close>, the addresses the linker gives to the handlers and the page tables, the addresses of the local arrays and string constants
  of the user programs (\<open>lit\<close>), the run of the program a shell command starts, up to its end (\<open>child\<close>), the registers that \<open>call_sys\<close> does not set. Locals whose
  address is taken lie at fixed addresses of the page \<open>0x1000\<close>, which no page table maps, so that they are apart from
  everything the kernel can reach. \<open>halt\<close> takes its status from its argument, the code from the register \<open>bl\<close> that held it.

  \<^bold>\<open>Not modelled.\<close> The register saves of the interrupt linkages and the boot stub (\<open>boot.S\<close>). The tests (\<open>tests.c\<close>). The translation cache: the code flushes it after every
  change of a page it uses. The user programs \<open>grep\<close>, \<open>counter\<close>, \<open>pingpong\<close>,
  \<open>sigtest\<close> and \<open>fish\<close>: they use no call of the kernel that the modelled programs do not use, except signals, which the kernel refuses,
  and the video memory, which \<open>vidmap_maps_screen\<close> covers on the kernel's side. \<open>ece391emulate.c\<close> stands in for the kernel on Linux.
\<close>

end
